(* ===== verification/Mana_Prelude.thy ===== *)
theory Mana_Prelude
  imports Main "HOL-Library.Word"
begin

unbundle bit_operations_syntax

text \<open>
  What the component theories share: the types of the handles and integers of the C++ code, the way
  an operation that can end the process is written, the \<^verbatim>\<open>named_theorems\<close> collections that the
  component proofs draw on, and generic facts on numbers, words, lists and step relations.

  The code reports a violated precondition in three ways: \<^verbatim>\<open>abort()\<close> and a failed \<^verbatim>\<open>assert\<close> end the
  process; \<^verbatim>\<open>get_virt_id_entry\<close> (\<^verbatim>\<open>virtual_id.cpp\<close>) spins forever on an invalid handle so that a
  debugger can be attached.  All three are values of \<open>fault\<close>, so an operation that can meet
  one of them returns \<open>fault + 'a\<close>.
\<close>

type_synonym int32 = "32 word"
type_synonym int64 = "64 word"
type_synonym mana_mpi_handle = int64

datatype fault =
    Abort          \<comment> \<open>\<^verbatim>\<open>abort()\<close>\<close>
  | Assert_failed  \<comment> \<open>a failed \<^verbatim>\<open>assert\<close> or \<^verbatim>\<open>JASSERT\<close>\<close>
  | Spin           \<comment> \<open>\<^verbatim>\<open>while (dummy);\<close> on an invalid handle\<close>

type_synonym 'a result = "fault + 'a"

abbreviation Ok :: "'a \<Rightarrow> 'a result" where
  "Ok \<equiv> Inr"

abbreviation Fault :: "fault \<Rightarrow> 'a result" where
  "Fault \<equiv> Inl"

fun bind_result :: "'a result \<Rightarrow> ('a \<Rightarrow> 'b result) \<Rightarrow> 'b result" where
  "bind_result (Inl e) f = Inl e"
| "bind_result (Inr a) f = f a"

fun is_ok :: "'a result \<Rightarrow> bool" where
  "is_ok (Inl _) = False"
| "is_ok (Inr _) = True"

named_theorems handle_simps \<open>layout of the virtual handles\<close>
named_theorems table_simps \<open>fields of the virtual-ID table after an operation\<close>
named_theorems range_simps \<open>coverage of lists of address ranges\<close>

subsection \<open>Results\<close>

lemma bind_result_Ok_iff:
  "bind_result r f = Ok b \<longleftrightarrow> (\<exists>a. r = Ok a \<and> f a = Ok b)"
  by (cases r) auto

lemma bind_result_Fault_iff:
  "bind_result r f = Fault e \<longleftrightarrow> r = Fault e \<or> (\<exists>a. r = Ok a \<and> f a = Fault e)"
  by (cases r) auto

lemma is_ok_iff: "is_ok r \<longleftrightarrow> (\<exists>a. r = Ok a)"
  by (cases r) auto

lemma bind_result_cong [fundef_cong]:
  "r = r' \<Longrightarrow> (\<And>a. r' = Ok a \<Longrightarrow> f a = g a) \<Longrightarrow> bind_result r f = bind_result r' g"
  by (cases r') auto

subsection \<open>Numbers and words\<close>

lemma nat_and_mask: "(n::nat) AND (2 ^ k - 1) = n mod 2 ^ k"
  unfolding mask_eq_exp_minus_1 [symmetric] take_bit_eq_mask [symmetric] by (rule take_bit_eq_mod)

lemma unat_drop_bit: "unat (drop_bit k (w::'a::len word)) = unat w div 2 ^ k"
  unfolding unat_drop_bit_eq by (rule drop_bit_eq_div)

lemma unat_and_mask: "unat ((w::'a::len word) AND mask k) = unat w mod 2 ^ k"
  unfolding take_bit_eq_mask [symmetric] unsigned_take_bit_eq by (rule take_bit_eq_mod)

lemma nat_or_push_bit: "b < 2 ^ k \<Longrightarrow> push_bit k a OR b = a * 2 ^ k + (b::nat)"
proof -
  assume "b < 2 ^ k"
  then have b: "take_bit k b = b" by (simp add: take_bit_nat_eq_self_iff)
  have "\<not> bit (push_bit k a) n \<or> \<not> bit b n" for n
    using arg_cong [OF b, of "\<lambda>x. bit x n"] by (auto simp: bit_push_bit_iff bit_take_bit_iff)
  then have "push_bit k a + b = push_bit k a OR b" by (rule disjunctive_add)
  then show ?thesis by (simp add: push_bit_eq_mult)
qed

lemma unat_push_bit:
  "unat (w::'a::len word) * 2 ^ k < 2 ^ LENGTH('a) \<Longrightarrow> unat (push_bit k w) = unat w * 2 ^ k"
  unfolding unsigned_push_bit_eq by (simp add: push_bit_eq_mult take_bit_nat_eq_self_iff)

lemma unat_ucast_64: "unat (ucast (h::int32) :: int64) = unat h"
proof -
  have "unat h < 2 ^ 64" by (rule less_trans [OF unsigned_less]) simp
  then show ?thesis by (simp add: unsigned_ucast_eq take_bit_nat_eq_self_iff)
qed

lemma ucast_handle: "drop_bit 32 (ucast (h::int32) :: int64) = 0" "ucast (ucast h :: int64) = h"
proof -
  have "unat h < 2 ^ 32" using unsigned_less [of h] by simp
  then have "unat (drop_bit 32 (ucast h :: int64)) = 0"
    by (simp only: unat_drop_bit unat_ucast_64 div_less)
  then show "drop_bit 32 (ucast h :: int64) = 0" by (simp only: unsigned_eq_0_iff)
  show "ucast (ucast h :: int64) = h" by (simp add: ucast_up_ucast_id is_up)
qed
lemma ucast_scast_32: "ucast (scast (h::int32) :: int64) = h"
  by (rule bit_word_eqI) (simp add: bit_simps)

lemma ucast_ucast_low: "drop_bit 32 (v::int64) = 0 \<Longrightarrow> ucast (ucast v :: int32) = v"
proof -
  assume "drop_bit 32 v = 0"
  then have "unat v div 2 ^ 32 = 0" using unat_drop_bit [of 32 v] by simp
  then have "unat v < 2 ^ 32" by simp
  then have "unat (ucast v :: int32) = unat v" by (simp add: unsigned_ucast_eq take_bit_nat_eq_self_iff)
  then have "unat (ucast (ucast v :: int32) :: int64) = unat v" by (simp only: unat_ucast_64)
  then show ?thesis by (rule unsigned_word_eqI)
qed

lemma unat_ucast_drop_bit: "unat (ucast (drop_bit 28 (ucast (h::int32) :: int64)) :: int32) = unat h div 2 ^ 28"
proof -
  have "unat h div 2 ^ 28 \<le> unat h" by (rule div_le_dividend)
  also have "unat h < 2 ^ 32" using unsigned_less [of h, where ?'a = nat] by simp
  finally have lt: "unat h div 2 ^ 28 < 2 ^ LENGTH(32)" by simp
  have w: "unat (drop_bit 28 (ucast h :: int64)) = unat h div 2 ^ 28"
    by (simp only: unat_drop_bit unat_ucast_64)
  show ?thesis
    unfolding unsigned_ucast_eq [where w = "drop_bit 28 (ucast h :: int64)"] w
    using lt by (rule take_bit_nat_eq_self_iff [THEN iffD2])
qed

section \<open>State machines\<close>

text \<open>The interface of the components that are step relations: an invariant that holds at the start and
  that every step keeps.\<close>

locale state_machine =
  fixes start :: "'s \<Rightarrow> bool" and step :: "'s \<Rightarrow> 's \<Rightarrow> bool" and inv :: "'s \<Rightarrow> bool"
  assumes start_inv: "start s \<Longrightarrow> inv s"
    and step_inv: "inv s \<Longrightarrow> step s t \<Longrightarrow> inv t"
begin

lemma run_inv: "step\<^sup>*\<^sup>* s t \<Longrightarrow> inv s \<Longrightarrow> inv t"
  by (induction rule: rtranclp_induct) (auto intro: step_inv)

lemma reachable_inv: "start s \<Longrightarrow> step\<^sup>*\<^sup>* s t \<Longrightarrow> inv t"
  using run_inv start_inv by blast

end

section \<open>Refinement\<close>

text \<open>The interface of the components that implement an abstract data type: every enabled operation returns,
  keeps the invariant and does on the abstract view what its specification says.\<close>

fun run_ops :: "('op \<Rightarrow> 's \<Rightarrow> 's result) \<Rightarrow> 'op list \<Rightarrow> 's \<Rightarrow> 's result" where
  "run_ops step [] s = Ok s"
| "run_ops step (a # as) s = bind_result (step a s) (run_ops step as)"

fun enabled_ops :: "('op \<Rightarrow> 'q \<Rightarrow> bool) \<Rightarrow> ('op \<Rightarrow> 'q \<Rightarrow> 'q) \<Rightarrow> 'op list \<Rightarrow> 'q \<Rightarrow> bool" where
  "enabled_ops en spec [] q \<longleftrightarrow> True"
| "enabled_ops en spec (a # as) q \<longleftrightarrow> en a q \<and> enabled_ops en spec as (spec a q)"

locale data_refinement =
  fixes ok :: "'s \<Rightarrow> bool" and view :: "'s \<Rightarrow> 'q" and step :: "'op \<Rightarrow> 's \<Rightarrow> 's result"
    and en :: "'op \<Rightarrow> 'q \<Rightarrow> bool" and spec :: "'op \<Rightarrow> 'q \<Rightarrow> 'q"
  assumes refine: "ok s \<Longrightarrow> en a (view s) \<Longrightarrow> \<exists>t. step a s = Ok t \<and> ok t \<and> view t = spec a (view s)"
begin

lemma run_refines:
  "ok s \<Longrightarrow> enabled_ops en spec as (view s) \<Longrightarrow>
    \<exists>t. run_ops step as s = Ok t \<and> ok t \<and> view t = fold spec as (view s)"
proof (induction as arbitrary: s)
  case (Cons a as)
  obtain t where t: "step a s = Ok t" "ok t" "view t = spec a (view s)"
    using refine [of s a] Cons.prems by auto
  then show ?case using Cons.IH [OF t(2)] Cons.prems by simp
qed simp

end

end
