(* ===== verification/Const_Table.thy ===== *)
theory Const_Table
  imports Mana_Prelude
begin

text \<open>
  The tables of MPI's predefined constants (\<^verbatim>\<open>virtual_id.cpp\<close>, first part).  The upper half and
  the lower half can have different values for \<^verbatim>\<open>MPI_COMM_WORLD\<close>, \<^verbatim>\<open>MPI_INT\<close> and so on.  An open-addressing
  hash table of 512 cells with linear probing maps the upper half's value of a constant to the lower
  half's value and to the Fortran handle; \<^verbatim>\<open>std::map\<close>s map the other ways; a bit vector has the slots of
  the virtual-ID table that no handle may use.

  The main result is that the hash table refines a finite map: under the invariant \<open>constants_ok\<close>,
  which every insertion keeps, the probing loops return, and a lookup finds exactly what the
  last insertion of the key stored.  The Fortran handle of a constant (the lower half's
  \<^verbatim>\<open>handle_c2f\<close>, which asks the MPI library) is the parameter \<open>c2f\<close>.  The flag \<open>wide\<close> is
  \<^verbatim>\<open>sizeof(MPI_Comm) > sizeof(int)\<close>: false for MPICH, true for Open MPI.
\<close>

abbreviation (input) MANA_COMM_KIND :: nat where "MANA_COMM_KIND \<equiv> 1"
abbreviation (input) MANA_GROUP_KIND :: nat where "MANA_GROUP_KIND \<equiv> 2"
abbreviation (input) MANA_DATATYPE_KIND :: nat where "MANA_DATATYPE_KIND \<equiv> 3"
abbreviation (input) MANA_OP_KIND :: nat where "MANA_OP_KIND \<equiv> 4"
abbreviation (input) MANA_REQUEST_KIND :: nat where "MANA_REQUEST_KIND \<equiv> 5"
abbreviation (input) MANA_FILE_KIND :: nat where "MANA_FILE_KIND \<equiv> 6"
abbreviation (input) MANA_NUM_KINDS :: nat where "MANA_NUM_KINDS \<equiv> 6"
abbreviation (input) MANA_ERRHANDLER_KIND :: nat where "MANA_ERRHANDLER_KIND \<equiv> 7"
abbreviation (input) MANA_INFO_KIND :: nat where "MANA_INFO_KIND \<equiv> 8"
abbreviation (input) MANA_WIN_KIND :: nat where "MANA_WIN_KIND \<equiv> 9"
abbreviation (input) MANA_MESSAGE_KIND :: nat where "MANA_MESSAGE_KIND \<equiv> 10"
abbreviation (input) MANA_CONSTANTS_TABLE_SIZE :: nat where "MANA_CONSTANTS_TABLE_SIZE \<equiv> 512"

subsection \<open>The table and its operations\<close>

record mana_constant =
  c_upper :: int64
  c_lower :: int64
  c_fortran :: int32
  c_used :: bool

type_synonym const_cells = "nat \<Rightarrow> mana_constant"

record constants =
  upper_to_lower_constants :: const_cells
  num_constants :: nat
  lower_to_upper_constants :: "int64 \<rightharpoonup> int64"
  fortran_constants :: "nat \<Rightarrow> int32 \<rightharpoonup> int64"
  reserved_slots :: "bool list"
  g_world_group :: int64

definition no_constants :: constants where
  "no_constants = \<lparr> upper_to_lower_constants = (\<lambda>_. \<lparr> c_upper = 0, c_lower = 0, c_fortran = 0,
                                                     c_used = False \<rparr>),
     num_constants = 0, lower_to_upper_constants = Map.empty,
     fortran_constants = (\<lambda>_. Map.empty), reserved_slots = [],
     g_world_group = 0 \<rparr>"

definition constant_hash :: "int64 \<Rightarrow> nat" where
  "constant_hash upper = unat (drop_bit 55 (upper * 0x9e3779b97f4a7c15)) AND (MANA_CONSTANTS_TABLE_SIZE - 1)"

definition constant_key :: "bool \<Rightarrow> mana_mpi_handle \<Rightarrow> int64" where
  "constant_key wide virt_id = (if \<not> wide then scast (ucast virt_id :: int32) else virt_id)"

text \<open>The loop shared by \<^verbatim>\<open>find_constant\<close> and \<^verbatim>\<open>set_upper_to_lower\<close>: probe until a cell is unused or has
  the key.\<close>

partial_function (option) probe :: "const_cells \<Rightarrow> int64 \<Rightarrow> nat \<Rightarrow> nat option" where
  "probe cells upper i =
     (if \<not> c_used (cells i) then Some i
      else if c_upper (cells i) = upper then Some i
      else probe cells upper ((i + 1) AND (MANA_CONSTANTS_TABLE_SIZE - 1)))"

definition find_constant :: "constants \<Rightarrow> int64 \<Rightarrow> mana_constant option option" where
  "find_constant s upper =
     (case probe (upper_to_lower_constants s) upper (constant_hash upper) of
        None \<Rightarrow> None
      | Some i \<Rightarrow> Some (let c = upper_to_lower_constants s i in if c_used c then Some c else None))"

definition slot_is_reserved :: "constants \<Rightarrow> nat \<Rightarrow> bool" where
  "slot_is_reserved s slot \<longleftrightarrow> slot < length (reserved_slots s) \<and> reserved_slots s ! slot"

definition resize :: "bool list \<Rightarrow> nat \<Rightarrow> bool list" where
  "resize xs n = take n xs @ replicate (n - length xs) False"

definition reserve_constant_slot :: "bool \<Rightarrow> int64 \<Rightarrow> constants \<Rightarrow> constants" where
  "reserve_constant_slot wide upper s =
     (let value = (if \<not> wide then ucast (ucast upper :: int32) else upper);
          kind = ucast (drop_bit 28 value) :: int32
      in if drop_bit 32 value \<noteq> 0 \<or> kind - 1 \<ge> of_nat MANA_NUM_KINDS then s
         else let slot = unat (value AND 0xffffff);
                  rs = reserved_slots s;
                  rs = (if slot \<ge> length rs then resize rs (slot + 1) else rs)
              in s \<lparr> reserved_slots := rs[slot := True] \<rparr>)"

definition set_upper_to_lower ::
  "bool \<Rightarrow> (nat \<Rightarrow> int64 \<Rightarrow> int32) \<Rightarrow> nat \<Rightarrow> int64 \<Rightarrow> int64 \<Rightarrow> constants \<Rightarrow> constants result option" where
  "set_upper_to_lower wide c2f kind upper lower s =
     (let fortran = c2f kind lower;
          s = s \<lparr> fortran_constants := (fortran_constants s)
                    (kind := (fortran_constants s kind)(fortran \<mapsto> upper)) \<rparr>;
          s = reserve_constant_slot wide upper s
      in case probe (upper_to_lower_constants s) upper (constant_hash upper) of
           None \<Rightarrow> None
         | Some i \<Rightarrow> Some (
             let c = upper_to_lower_constants s i;
                 n = (if \<not> c_used c then num_constants s + 1 else num_constants s)
             in if \<not> c_used c \<and> \<not> n \<le> MANA_CONSTANTS_TABLE_SIZE div 4 then Fault Assert_failed
                else Ok (s \<lparr> num_constants := n,
                             upper_to_lower_constants := (upper_to_lower_constants s)
                               (i := \<lparr> c_upper = upper, c_lower = lower, c_fortran = fortran,
                                       c_used = True \<rparr>),
                             lower_to_upper_constants :=
                               (lower_to_upper_constants s)(lower \<mapsto> upper) \<rparr>)))"

definition lower_of_constant :: "constants \<Rightarrow> int64 \<Rightarrow> int64 option" where
  "lower_of_constant s key =
     map_option (\<lambda>c. case c of Some c \<Rightarrow> c_lower c | None \<Rightarrow> key) (find_constant s key)"

definition upper_of_constant :: "constants \<Rightarrow> int64 \<Rightarrow> int64" where
  "upper_of_constant s key = (case lower_to_upper_constants s key of Some u \<Rightarrow> u | None \<Rightarrow> key)"

definition is_predefined_id :: "bool \<Rightarrow> constants \<Rightarrow> mana_mpi_handle \<Rightarrow> bool option" where
  "is_predefined_id wide s virt_id =
     map_option (\<lambda>c. c \<noteq> None) (find_constant s (constant_key wide virt_id))"

text \<open>\<^verbatim>\<open>handle_key\<close>: the key of a handle of a type of 4 or 8 bytes.\<close>

definition handle_key :: "bool \<Rightarrow> int64 \<Rightarrow> int64" where
  "handle_key small value = (if small then scast (ucast value :: int32) else value)"

definition lower_half_handle :: "bool \<Rightarrow> constants \<Rightarrow> int64 \<Rightarrow> int64 option" where
  "lower_half_handle small s handle = lower_of_constant s (handle_key small handle)"

definition upper_half_handle :: "bool \<Rightarrow> constants \<Rightarrow> int64 \<Rightarrow> int64" where
  "upper_half_handle small s handle = upper_of_constant s (handle_key small handle)"

text \<open>\<^verbatim>\<open>init_predefined_virt_ids\<close> clears the maps that restart invalidates, inserts every constant, and
  gets the world group.  \<open>predefined_names\<close> has the arguments of its \<^verbatim>\<open>PREDEFINED\<close> lines; \<open>mpi\<close> and
  \<open>mana\<close> are the values of the constants in the upper half (\<^verbatim>\<open>mpi.h\<close>) and in the lower half
  (\<^verbatim>\<open>lh_info\<close>).\<close>

definition predefined_names :: "(nat \<times> string) list" where
  "predefined_names =
     [(MANA_GROUP_KIND, ''GROUP_NULL''), (MANA_COMM_KIND, ''COMM_NULL''),
      (MANA_COMM_KIND, ''COMM_WORLD''), (MANA_COMM_KIND, ''COMM_SELF''),
      (MANA_REQUEST_KIND, ''REQUEST_NULL''), (MANA_MESSAGE_KIND, ''MESSAGE_NULL''),
      (MANA_OP_KIND, ''OP_NULL''), (MANA_ERRHANDLER_KIND, ''ERRHANDLER_NULL''),
      (MANA_INFO_KIND, ''INFO_NULL''), (MANA_WIN_KIND, ''WIN_NULL''),
      (MANA_FILE_KIND, ''FILE_NULL''), (MANA_INFO_KIND, ''INFO_ENV''),
      (MANA_GROUP_KIND, ''GROUP_EMPTY''), (MANA_MESSAGE_KIND, ''MESSAGE_NO_PROC''),
      (MANA_OP_KIND, ''MAX''), (MANA_OP_KIND, ''MIN''), (MANA_OP_KIND, ''SUM''),
      (MANA_OP_KIND, ''PROD''), (MANA_OP_KIND, ''LAND''), (MANA_OP_KIND, ''BAND''),
      (MANA_OP_KIND, ''LOR''), (MANA_OP_KIND, ''BOR''), (MANA_OP_KIND, ''LXOR''),
      (MANA_OP_KIND, ''BXOR''), (MANA_OP_KIND, ''MAXLOC''), (MANA_OP_KIND, ''MINLOC''),
      (MANA_OP_KIND, ''REPLACE''), (MANA_OP_KIND, ''NO_OP''),
      (MANA_DATATYPE_KIND, ''DATATYPE_NULL''), (MANA_DATATYPE_KIND, ''BYTE''),
      (MANA_DATATYPE_KIND, ''PACKED''), (MANA_DATATYPE_KIND, ''CHAR''),
      (MANA_DATATYPE_KIND, ''SHORT''), (MANA_DATATYPE_KIND, ''INT''),
      (MANA_DATATYPE_KIND, ''LONG''), (MANA_DATATYPE_KIND, ''FLOAT''),
      (MANA_DATATYPE_KIND, ''DOUBLE''), (MANA_DATATYPE_KIND, ''LONG_DOUBLE''),
      (MANA_DATATYPE_KIND, ''UNSIGNED_CHAR''), (MANA_DATATYPE_KIND, ''SIGNED_CHAR''),
      (MANA_DATATYPE_KIND, ''UNSIGNED_SHORT''), (MANA_DATATYPE_KIND, ''UNSIGNED_LONG''),
      (MANA_DATATYPE_KIND, ''UNSIGNED''), (MANA_DATATYPE_KIND, ''FLOAT_INT''),
      (MANA_DATATYPE_KIND, ''DOUBLE_INT''), (MANA_DATATYPE_KIND, ''LONG_DOUBLE_INT''),
      (MANA_DATATYPE_KIND, ''LONG_INT''), (MANA_DATATYPE_KIND, ''SHORT_INT''),
      (MANA_DATATYPE_KIND, ''2INT''), (MANA_DATATYPE_KIND, ''WCHAR''),
      (MANA_DATATYPE_KIND, ''LONG_LONG_INT''), (MANA_DATATYPE_KIND, ''LONG_LONG''),
      (MANA_DATATYPE_KIND, ''UNSIGNED_LONG_LONG''), (MANA_DATATYPE_KIND, ''CHARACTER''),
      (MANA_DATATYPE_KIND, ''LOGICAL''), (MANA_DATATYPE_KIND, ''INTEGER''),
      (MANA_DATATYPE_KIND, ''INTEGER1''), (MANA_DATATYPE_KIND, ''INTEGER2''),
      (MANA_DATATYPE_KIND, ''INTEGER4''), (MANA_DATATYPE_KIND, ''INTEGER8''),
      (MANA_DATATYPE_KIND, ''REAL''), (MANA_DATATYPE_KIND, ''REAL4''),
      (MANA_DATATYPE_KIND, ''REAL8''), (MANA_DATATYPE_KIND, ''REAL16''),
      (MANA_DATATYPE_KIND, ''DOUBLE_PRECISION''), (MANA_DATATYPE_KIND, ''COMPLEX''),
      (MANA_DATATYPE_KIND, ''COMPLEX8''), (MANA_DATATYPE_KIND, ''COMPLEX16''),
      (MANA_DATATYPE_KIND, ''COMPLEX32''), (MANA_DATATYPE_KIND, ''DOUBLE_COMPLEX''),
      (MANA_DATATYPE_KIND, ''2REAL''), (MANA_DATATYPE_KIND, ''2DOUBLE_PRECISION''),
      (MANA_DATATYPE_KIND, ''2INTEGER''), (MANA_DATATYPE_KIND, ''INT8_T''),
      (MANA_DATATYPE_KIND, ''UINT8_T''), (MANA_DATATYPE_KIND, ''INT16_T''),
      (MANA_DATATYPE_KIND, ''UINT16_T''), (MANA_DATATYPE_KIND, ''INT32_T''),
      (MANA_DATATYPE_KIND, ''UINT32_T''), (MANA_DATATYPE_KIND, ''INT64_T''),
      (MANA_DATATYPE_KIND, ''UINT64_T''), (MANA_DATATYPE_KIND, ''AINT''),
      (MANA_DATATYPE_KIND, ''OFFSET''), (MANA_DATATYPE_KIND, ''C_BOOL''),
      (MANA_DATATYPE_KIND, ''C_COMPLEX''), (MANA_DATATYPE_KIND, ''C_FLOAT_COMPLEX''),
      (MANA_DATATYPE_KIND, ''C_DOUBLE_COMPLEX''), (MANA_DATATYPE_KIND, ''C_LONG_DOUBLE_COMPLEX''),
      (MANA_DATATYPE_KIND, ''CXX_BOOL''), (MANA_DATATYPE_KIND, ''CXX_FLOAT_COMPLEX''),
      (MANA_DATATYPE_KIND, ''CXX_DOUBLE_COMPLEX''),
      (MANA_DATATYPE_KIND, ''CXX_LONG_DOUBLE_COMPLEX''), (MANA_DATATYPE_KIND, ''COUNT''),
      (MANA_ERRHANDLER_KIND, ''ERRORS_ARE_FATAL''), (MANA_ERRHANDLER_KIND, ''ERRORS_RETURN'')]"

fun set_constants ::
  "bool \<Rightarrow> (nat \<Rightarrow> int64 \<Rightarrow> int32) \<Rightarrow> (string \<Rightarrow> int64) \<Rightarrow> (string \<Rightarrow> int64) \<Rightarrow> (nat \<times> string) list
   \<Rightarrow> constants \<Rightarrow> constants result option"
where
  "set_constants wide c2f mpi mana [] s = Some (Ok s)"
| "set_constants wide c2f mpi mana ((kind, name) # names) s =
     (case set_upper_to_lower wide c2f kind (mpi name) (mana name) s of
        None \<Rightarrow> None
      | Some (Inl e) \<Rightarrow> Some (Inl e)
      | Some (Inr s') \<Rightarrow> set_constants wide c2f mpi mana names s')"

definition init_predefined_virt_ids ::
  "bool \<Rightarrow> (nat \<Rightarrow> int64 \<Rightarrow> int32) \<Rightarrow> (int64 \<Rightarrow> int64) \<Rightarrow> (string \<Rightarrow> int64) \<Rightarrow> (string \<Rightarrow> int64)
   \<Rightarrow> constants \<Rightarrow> constants result option"
where
  "init_predefined_virt_ids wide c2f Comm_group mpi mana s =
     (case set_constants wide c2f mpi mana predefined_names
             (s \<lparr> lower_to_upper_constants := Map.empty, fortran_constants := (\<lambda>_. Map.empty) \<rparr>) of
        None \<Rightarrow> None
      | Some (Inl e) \<Rightarrow> Some (Inl e)
      | Some (Inr s') \<Rightarrow> Some (Ok (s' \<lparr> g_world_group := Comm_group (mana ''COMM_WORLD'') \<rparr>)))"

subsection \<open>Probing\<close>

lemma constant_hash_less: "constant_hash k < 512"
  unfolding constant_hash_def using nat_and_mask [of _ 9] by simp

lemma next_cell: "Suc i AND 511 = Suc i mod 512"
  using nat_and_mask [of "Suc i" 9] by simp

definition stops :: "const_cells \<Rightarrow> int64 \<Rightarrow> nat \<Rightarrow> bool" where
  "stops cells k i \<longleftrightarrow> \<not> c_used (cells i) \<or> c_upper (cells i) = k"

lemma probe_unfold:
  "probe cells k i = (if stops cells k i then Some i else probe cells k ((i + 1) mod 512))"
  by (subst probe.simps) (simp add: stops_def next_cell)

lemma probe_reaches:
  assumes "\<forall>e<d. \<not> stops cells k ((i + e) mod 512)" and "stops cells k ((i + d) mod 512)" and "i < 512"
  shows "probe cells k i = Some ((i + d) mod 512)"
  using assms
proof (induction d arbitrary: i)
  case 0
  then show ?case by (simp add: probe_unfold)
next
  case (Suc d)
  have "\<not> stops cells k i" using Suc.prems(1,3) by (metis add_0_right mod_less zero_less_Suc)
  moreover have "(Suc i mod 512 + e) mod 512 = (i + Suc e) mod 512" for e
    by (simp add: mod_add_left_eq)
  then have "probe cells k ((i + 1) mod 512) = Some ((i + Suc d) mod 512)"
    using Suc.IH [of "Suc i mod 512"] Suc.prems(1,2) by (metis Suc_eq_plus1 Suc_less_eq
        mod_less_divisor zero_less_numeral)
  ultimately show ?case by (simp add: probe_unfold [of _ _ i])
qed

lemma probe_path:
  assumes "i < 512" and "j < 512" and "stops cells k j"
  obtains d where "probe cells k i = Some ((i + d) mod 512)" and "stops cells k ((i + d) mod 512)"
    and "\<forall>e<d. \<not> stops cells k ((i + e) mod 512)"
proof -
  define P where "P d \<longleftrightarrow> stops cells k ((i + d) mod 512)" for d
  have "(i + (j + 512 - i)) mod 512 = j" using assms by simp
  then have "P (j + 512 - i)" using assms(3) by (simp add: P_def)
  then have "P (LEAST d. P d)" by (rule LeastI)
  moreover have "\<forall>e<(LEAST d. P d). \<not> P e" using not_less_Least by blast
  ultimately show ?thesis using that probe_reaches assms(1) unfolding P_def by blast
qed

lemma probe_Some_stops:
  assumes "probe cells k i = Some j" and "i < 512"
  shows "stops cells k j \<and> j < 512"
proof -
  have "i < 512 \<longrightarrow> stops cells k j \<and> j < 512"
    using assms(1)
    by (rule probe.raw_induct [rotated]) (auto simp: stops_def next_cell split: if_splits)
  then show ?thesis using assms(2) by blast
qed

subsection \<open>The hash table refines a map\<close>

text \<open>The invariant: the table is at most a quarter full, and probing for the key of a used cell ends
  in that cell.  The second part says both that a key occurs once and that no unused cell hides it.\<close>

definition used_cells :: "const_cells \<Rightarrow> nat set" where
  "used_cells cells = {i. i < 512 \<and> c_used (cells i)}"

definition constants_ok :: "constants \<Rightarrow> bool" where
  "constants_ok s \<longleftrightarrow>
     num_constants s = card (used_cells (upper_to_lower_constants s)) \<and> num_constants s \<le> 128 \<and>
     (\<forall>i\<in>used_cells (upper_to_lower_constants s).
        probe (upper_to_lower_constants s) (c_upper (upper_to_lower_constants s i))
          (constant_hash (c_upper (upper_to_lower_constants s i))) = Some i)"

lemma finite_used_cells [simp]: "finite (used_cells cells)"
  by (simp add: used_cells_def)

lemma unused_cell_exists:
  assumes "constants_ok s"
  obtains j where "j < 512" and "\<not> c_used (upper_to_lower_constants s j)"
proof -
  have "card (used_cells (upper_to_lower_constants s)) \<le> 128"
    using assms by (simp add: constants_ok_def)
  then have "used_cells (upper_to_lower_constants s) \<noteq> {i. i < 512}"
    using card_Collect_less_nat [of 512] by (intro notI) simp
  then show ?thesis using that unfolding used_cells_def by blast
qed

lemma probe_returns:
  assumes "constants_ok s"
  obtains j where "probe (upper_to_lower_constants s) k (constant_hash k) = Some j"
    and "j < 512" and "stops (upper_to_lower_constants s) k j"
proof -
  obtain j where "j < 512" "\<not> c_used (upper_to_lower_constants s j)"
    using unused_cell_exists [OF assms] .
  then have "stops (upper_to_lower_constants s) k j" by (simp add: stops_def)
  then obtain d where
    "probe (upper_to_lower_constants s) k (constant_hash k) = Some ((constant_hash k + d) mod 512)"
    and "stops (upper_to_lower_constants s) k ((constant_hash k + d) mod 512)"
    using probe_path [OF constant_hash_less \<open>j < 512\<close>] by metis
  then show ?thesis using that [of "(constant_hash k + d) mod 512"] by simp
qed

text \<open>The abstract value of the table.\<close>

definition const_map :: "constants \<Rightarrow> int64 \<rightharpoonup> mana_constant" where
  "const_map s k = (case find_constant s k of Some c \<Rightarrow> c | None \<Rightarrow> None)"

lemma find_constant_Some:
  assumes "constants_ok s"
  shows "find_constant s k = Some (const_map s k)"
proof -
  obtain j where "probe (upper_to_lower_constants s) k (constant_hash k) = Some j"
    using probe_returns [OF assms] .
  then show ?thesis by (simp add: const_map_def find_constant_def)
qed

lemma const_map_iff:
  assumes "constants_ok s"
  shows "const_map s k = Some c \<longleftrightarrow>
    (\<exists>i\<in>used_cells (upper_to_lower_constants s).
       upper_to_lower_constants s i = c \<and> c_upper c = k)"
proof -
  obtain j where j: "probe (upper_to_lower_constants s) k (constant_hash k) = Some j" "j < 512"
    "stops (upper_to_lower_constants s) k j"
    using probe_returns [OF assms] .
  then have *: "const_map s k = (if c_used (upper_to_lower_constants s j)
                              then Some (upper_to_lower_constants s j) else None)"
    by (simp add: const_map_def find_constant_def Let_def)
  have **: "i = j" if "i \<in> used_cells (upper_to_lower_constants s)"
    "c_upper (upper_to_lower_constants s i) = k" for i
    using assms that j(1) unfolding constants_ok_def by fastforce
  show ?thesis (is "_ \<longleftrightarrow> ?R")
  proof
    assume "const_map s k = Some c"
    then have "c_used (upper_to_lower_constants s j)" "upper_to_lower_constants s j = c"
      by (simp_all add: * split: if_splits)
    then show ?R using j(2,3) by (auto simp: used_cells_def stops_def)
  next
    assume ?R
    then obtain i where "i \<in> used_cells (upper_to_lower_constants s)"
      "upper_to_lower_constants s i = c" "c_upper c = k" by blast
    then show "const_map s k = Some c" using ** [of i] by (auto simp: * used_cells_def)
  qed
qed

subsection \<open>Insertion\<close>

lemma reserve_constant_slot_fields [simp]:
  "upper_to_lower_constants (reserve_constant_slot wide k s) = upper_to_lower_constants s"
  "num_constants (reserve_constant_slot wide k s) = num_constants s"
  "lower_to_upper_constants (reserve_constant_slot wide k s) = lower_to_upper_constants s"
  "fortran_constants (reserve_constant_slot wide k s) = fortran_constants s"
  "g_world_group (reserve_constant_slot wide k s) = g_world_group s"
  by (simp_all add: reserve_constant_slot_def Let_def)

lemma stops_update:
  "stops (cells(j := new)) k i \<longleftrightarrow> (if i = j then \<not> c_used new \<or> c_upper new = k else stops cells k i)"
  by (simp add: stops_def)

lemma probe_update_other:
  assumes "probe cells k i = Some j" and "i < 512" and "j \<noteq> l" and "c_used new" and "c_upper new \<noteq> k"
  shows "probe (cells(l := new)) k i = Some j"
proof -
  obtain d where d: "j = (i + d) mod 512" "\<forall>e<d. \<not> stops cells k ((i + e) mod 512)"
    "stops cells k ((i + d) mod 512)"
    using probe_path [OF assms(2)] probe_Some_stops [OF assms(1,2)] assms(1) by (metis option.inject)
  show ?thesis
    unfolding d(1)
    by (rule probe_reaches) (use d assms in \<open>auto simp: stops_update\<close>)
qed

lemma probe_update_same:
  assumes "probe cells k i = Some j" and "i < 512" and "c_upper new = k"
  shows "probe (cells(j := new)) k i = Some j"
proof -
  obtain d where d: "j = (i + d) mod 512" "\<forall>e<d. \<not> stops cells k ((i + e) mod 512)"
    "stops cells k ((i + d) mod 512)"
    using probe_path [OF assms(2)] probe_Some_stops [OF assms(1,2)] assms(1) by (metis option.inject)
  show ?thesis
    unfolding d(1)
    by (rule probe_reaches) (use d assms in \<open>auto simp: stops_update\<close>)
qed

text \<open>The effect of one insertion on the cells and the counter, whatever the other fields are.\<close>

lemma constants_ok_insert:
  assumes ok: "constants_ok s"
    and j: "probe (upper_to_lower_constants s) (c_upper new) (constant_hash (c_upper new)) = Some j"
    and new: "c_used new"
    and cells': "upper_to_lower_constants s' = (upper_to_lower_constants s)(j := new)"
    and num': "num_constants s' = (if c_used (upper_to_lower_constants s j) then num_constants s
                                   else num_constants s + 1)"
    and bound: "num_constants s' \<le> 128"
  shows "constants_ok s'" and "const_map s' = (const_map s)(c_upper new \<mapsto> new)"
proof -
  let ?cells = "upper_to_lower_constants s" and ?cells' = "upper_to_lower_constants s'"
  have j': "stops ?cells (c_upper new) j" "j < 512"
    using probe_Some_stops [OF j constant_hash_less] by auto
  have used: "used_cells ?cells' = insert j (used_cells ?cells)"
    using j' new by (auto simp: used_cells_def cells')
  have "j \<in> used_cells ?cells \<longleftrightarrow> c_used (?cells j)"
    using j' by (simp add: used_cells_def)
  then have "num_constants s' = card (used_cells ?cells')"
    using ok by (simp add: used num' constants_ok_def card_insert_if)
  moreover have "probe ?cells' (c_upper (?cells' i)) (constant_hash (c_upper (?cells' i))) = Some i"
    if i: "i \<in> used_cells ?cells'" for i
  proof (cases "i = j")
    case True
    then show ?thesis
      using probe_update_same [OF j constant_hash_less] by (simp add: cells')
  next
    case False
    then have old: "i \<in> used_cells ?cells" using i used by simp
    then have "probe ?cells (c_upper (?cells i)) (constant_hash (c_upper (?cells i))) = Some i"
      using ok by (simp add: constants_ok_def)
    moreover have "c_upper new \<noteq> c_upper (?cells i)"
      using False calculation j by (metis option.inject)
    ultimately show ?thesis
      using probe_update_other [OF _ constant_hash_less, where l = j and new = new] False new
      by (simp add: cells')
  qed
  ultimately show ok': "constants_ok s'" using bound by (simp add: constants_ok_def)
  have uniq: "i = j" if "i \<in> used_cells ?cells" "c_upper (?cells i) = c_upper new" for i
    using ok that j unfolding constants_ok_def by fastforce
  have "const_map s' k = Some c \<longleftrightarrow> ((const_map s)(c_upper new \<mapsto> new)) k = Some c" for k c
  proof (cases "k = c_upper new")
    case True
    then show ?thesis
      unfolding const_map_iff [OF ok'] used using uniq by (auto simp: cells' split: if_splits)
  next
    case False
    moreover have "j \<in> used_cells ?cells \<Longrightarrow> c_upper (?cells j) = c_upper new"
      using j'(1) by (simp add: stops_def used_cells_def)
    ultimately show ?thesis
      unfolding const_map_iff [OF ok'] used by (fastforce simp: cells' const_map_iff [OF ok])
  qed
  then show "const_map s' = (const_map s)(c_upper new \<mapsto> new)"
    by (intro ext) (metis option.exhaust)
qed

lemma card_dom_const_map:
  assumes "constants_ok s"
  shows "card (dom (const_map s)) = num_constants s" and "finite (dom (const_map s))"
proof -
  let ?cells = "upper_to_lower_constants s"
  have "dom (const_map s) = (\<lambda>i. c_upper (?cells i)) ` used_cells ?cells"
    using const_map_iff [OF assms] by (auto simp: dom_def)
  moreover have "inj_on (\<lambda>i. c_upper (?cells i)) (used_cells ?cells)"
    by (rule inj_onI) (use assms in \<open>metis constants_ok_def option.inject\<close>)
  ultimately show "card (dom (const_map s)) = num_constants s" "finite (dom (const_map s))"
    using assms by (simp_all add: card_image constants_ok_def)
qed

lemma set_upper_to_lower_ok:
  assumes ok: "constants_ok s" and bound: "card (insert k (dom (const_map s))) \<le> 128"
  obtains s' where "set_upper_to_lower wide c2f kind k l s = Some (Ok s')" and "constants_ok s'"
    and "const_map s' = (const_map s)
           (k \<mapsto> \<lparr> c_upper = k, c_lower = l, c_fortran = c2f kind l, c_used = True \<rparr>)"
proof -
  let ?new = "\<lparr> c_upper = k, c_lower = l, c_fortran = c2f kind l, c_used = True \<rparr>"
  obtain j where j: "probe (upper_to_lower_constants s) k (constant_hash k) = Some j"
    "j < 512" "stops (upper_to_lower_constants s) k j"
    using probe_returns [OF ok] .
  have j_iff: "c_used (upper_to_lower_constants s j) \<longleftrightarrow> k \<in> dom (const_map s)"
    using j(1) by (simp add: const_map_def find_constant_def Let_def dom_def)
  let ?n = "if c_used (upper_to_lower_constants s j) then num_constants s else num_constants s + 1"
  have n: "?n \<le> 128"
    unfolding j_iff using bound card_dom_const_map [OF ok]
    by (cases "k \<in> dom (const_map s)") (simp_all add: insert_absorb card_insert_if del: domIff)
  define s' where "s' = (case set_upper_to_lower wide c2f kind k l s of Some (Inr t) \<Rightarrow> t | _ \<Rightarrow> s)"
  have set: "set_upper_to_lower wide c2f kind k l s = Some (Ok s')"
    using j(1) n unfolding s'_def by (simp add: set_upper_to_lower_def Let_def split: if_splits)
  have cells': "upper_to_lower_constants s' = (upper_to_lower_constants s)(j := ?new)"
    and n': "num_constants s' = ?n"
    using set j(1) n by (auto simp: set_upper_to_lower_def Let_def split: if_splits)
  have "constants_ok s'" "const_map s' = (const_map s)(k \<mapsto> ?new)"
    using constants_ok_insert [OF ok, of ?new j s'] j(1) cells' n' n by auto
  then show ?thesis using that set by blast
qed

lemma set_upper_to_lower_maps:
  assumes "set_upper_to_lower wide c2f kind k l s = Some (Ok t)"
  shows "lower_to_upper_constants t = (lower_to_upper_constants s)(l \<mapsto> k)"
    and "reserved_slots t = reserved_slots (reserve_constant_slot wide k s)"
proof -
  let ?u = "s \<lparr> fortran_constants := (fortran_constants s)
               (kind := (fortran_constants s kind)(c2f kind l \<mapsto> k)) \<rparr>"
  have "reserved_slots (reserve_constant_slot wide k ?u) = reserved_slots (reserve_constant_slot wide k s)"
    by (simp add: reserve_constant_slot_def Let_def)
  then show "lower_to_upper_constants t = (lower_to_upper_constants s)(l \<mapsto> k)"
    "reserved_slots t = reserved_slots (reserve_constant_slot wide k s)"
    using assms by (auto simp: set_upper_to_lower_def Let_def split: option.splits if_splits)
qed

text \<open>A constant that has the form of a virtual handle, and the slot that such a handle would have.\<close>

definition handle_like :: "bool \<Rightarrow> int64 \<Rightarrow> bool" where
  "handle_like wide k \<longleftrightarrow>
     (let value = (if \<not> wide then ucast (ucast k :: int32) else k)
      in drop_bit 32 value = 0 \<and> (ucast (drop_bit 28 value) :: int32) - 1 < of_nat MANA_NUM_KINDS)"

definition constant_reserved :: "bool \<Rightarrow> constants \<Rightarrow> int64 \<Rightarrow> bool" where
  "constant_reserved wide s k \<longleftrightarrow> (handle_like wide k \<longrightarrow>
     slot_is_reserved s (unat ((if wide then k else ucast (ucast k :: int32)) AND 0xffffff)))"

lemma slot_is_reserved_step:
  assumes "set_upper_to_lower wide c2f kind k l s = Some (Ok t)" and "slot_is_reserved s i"
  shows "slot_is_reserved t i"
  using set_upper_to_lower_maps(2) [OF assms(1)] assms(2)
  by (auto simp: slot_is_reserved_def reserve_constant_slot_def Let_def resize_def nth_append
      nth_list_update)

lemma constant_reserved_step:
  assumes "set_upper_to_lower wide c2f kind k l s = Some (Ok t)"
  shows "constant_reserved wide t k"
  using set_upper_to_lower_maps(2) [OF assms]
  by (auto simp: slot_is_reserved_def reserve_constant_slot_def Let_def resize_def handle_like_def
      constant_reserved_def)

subsection \<open>Initialization\<close>

definition constant_of ::
  "(nat \<Rightarrow> int64 \<Rightarrow> int32) \<Rightarrow> (string \<Rightarrow> int64) \<Rightarrow> (string \<Rightarrow> int64) \<Rightarrow> nat \<times> string \<Rightarrow> int64 \<times> mana_constant"
where
  "constant_of c2f mpi mana = (\<lambda>(kind, name).
     (mpi name, \<lparr> c_upper = mpi name, c_lower = mana name, c_fortran = c2f kind (mana name),
                  c_used = True \<rparr>))"

lemma fst_constant_of [simp]: "fst (constant_of c2f mpi mana x) = mpi (snd x)"
  by (simp add: constant_of_def split: prod.split)

lemma set_constants_ok:
  assumes "constants_ok s" and "card (dom (const_map s) \<union> mpi ` snd ` set names) \<le> 128"
  shows "\<exists>s'. set_constants wide c2f mpi mana names s = Some (Ok s') \<and> constants_ok s' \<and>
    const_map s' = const_map s ++ map_of (rev (map (constant_of c2f mpi mana) names))"
  using assms
proof (induction names arbitrary: s)
  case Nil
  then show ?case by simp
next
  case (Cons x names)
  obtain kind name where x: "x = (kind, name)" by (cases x)
  let ?new = "\<lparr> c_upper = mpi name, c_lower = mana name, c_fortran = c2f kind (mana name), c_used = True \<rparr>"
  have fin: "finite (dom (const_map s) \<union> mpi ` snd ` set (x # names))"
    using card_dom_const_map(2) [OF Cons.prems(1)] by simp
  have "insert (mpi name) (dom (const_map s)) \<subseteq> dom (const_map s) \<union> mpi ` snd ` set (x # names)"
    by (auto simp: x)
  then have "card (insert (mpi name) (dom (const_map s))) \<le> 128"
    using card_mono [OF fin] Cons.prems(2) le_trans by blast
  then obtain t where t: "set_upper_to_lower wide c2f kind (mpi name) (mana name) s = Some (Ok t)"
    "constants_ok t" "const_map t = (const_map s)(mpi name \<mapsto> ?new)"
    using set_upper_to_lower_ok [OF Cons.prems(1)] by metis
  have "dom (const_map t) \<union> mpi ` snd ` set names = dom (const_map s) \<union> mpi ` snd ` set (x # names)"
    by (simp add: t(3) x)
  then obtain s' where s': "set_constants wide c2f mpi mana names t = Some (Ok s')" "constants_ok s'"
    "const_map s' = const_map t ++ map_of (rev (map (constant_of c2f mpi mana) names))"
    using Cons.IH [OF t(2)] Cons.prems(2) by metis
  have "const_map s' = const_map s ++ map_of (rev (map (constant_of c2f mpi mana) (x # names)))"
    by (simp add: s'(3) t(3) x constant_of_def)
  then show ?case using s'(1,2) by (simp add: x t(1))
qed

lemma set_constants_ConsE:
  assumes "set_constants wide c2f mpi mana (x # names) s = Some (Ok s')"
  obtains kind n t where "x = (kind, n)"
    and "set_upper_to_lower wide c2f kind (mpi n) (mana n) s = Some (Ok t)"
    and "set_constants wide c2f mpi mana names t = Some (Ok s')"
  using assms by (cases x) (auto split: option.splits sum.splits)

lemma set_constants_lower:
  "set_constants wide c2f mpi mana names s = Some (Ok s') \<Longrightarrow>
   lower_to_upper_constants s' =
     lower_to_upper_constants s ++ map_of (rev (map (\<lambda>x. (mana (snd x), mpi (snd x))) names))"
proof (induction names arbitrary: s)
  case (Cons x names)
  from Cons.prems show ?case
  proof (rule set_constants_ConsE)
    fix kind n t
    assume x: "x = (kind, n)" and t: "set_upper_to_lower wide c2f kind (mpi n) (mana n) s = Some (Ok t)"
      and "set_constants wide c2f mpi mana names t = Some (Ok s')"
    then have "lower_to_upper_constants s' = (lower_to_upper_constants s)(mana n \<mapsto> mpi n) ++
        map_of (rev (map (\<lambda>x. (mana (snd x), mpi (snd x))) names))"
      using Cons.IH [of t] unfolding set_upper_to_lower_maps(1) [OF t] by blast
    then show ?thesis by (simp add: x)
  qed
qed simp

lemma set_constants_reserved_mono:
  "set_constants wide c2f mpi mana names s = Some (Ok s') \<Longrightarrow> slot_is_reserved s i \<Longrightarrow>
   slot_is_reserved s' i"
proof (induction names arbitrary: s)
  case (Cons x names)
  from Cons.prems(1) show ?case
    by (rule set_constants_ConsE) (use Cons slot_is_reserved_step in blast)
qed simp

lemma set_constants_reserved:
  "set_constants wide c2f mpi mana names s = Some (Ok s') \<Longrightarrow> name \<in> snd ` set names \<Longrightarrow>
   constant_reserved wide s' (mpi name)"
proof (induction names arbitrary: s)
  case (Cons x names)
  from Cons.prems(1) show ?case
  proof (rule set_constants_ConsE)
    fix kind n t
    assume x: "x = (kind, n)" and t: "set_upper_to_lower wide c2f kind (mpi n) (mana n) s = Some (Ok t)"
      "set_constants wide c2f mpi mana names t = Some (Ok s')"
    have "constant_reserved wide s' (mpi n)"
      using constant_reserved_step [OF t(1)] set_constants_reserved_mono [OF t(2)]
      unfolding constant_reserved_def by blast
    then show ?thesis using Cons.IH [OF t(2)] Cons.prems(2) by (auto simp: x)
  qed
qed simp

lemma map_of_rev_in:
  assumes "x \<in> set xs"
  obtains y where "y \<in> set xs" and "fst (f y) = fst (f x)"
    and "map_of (rev (map f xs)) (fst (f x)) = Some (snd (f y))"
proof -
  have "fst (f x) \<in> fst ` set (rev (map f xs))" using assms by simp
  then obtain v where v: "map_of (rev (map f xs)) (fst (f x)) = Some v"
    by (meson map_of_eq_None_iff not_None_eq)
  then obtain y where "y \<in> set xs" "f y = (fst (f x), v)"
    using map_of_SomeD by fastforce
  then show ?thesis using that v by (metis fst_conv snd_conv)
qed

lemma length_predefined_names: "length predefined_names = 95"
  by (simp add: predefined_names_def)

lemma const_map_cong:
  "upper_to_lower_constants s = upper_to_lower_constants t \<Longrightarrow> const_map s = const_map t"
  by (intro ext) (simp add: const_map_def find_constant_def Let_def cong: option.case_cong)

lemma constants_ok_cong:
  "upper_to_lower_constants s = upper_to_lower_constants t \<Longrightarrow> num_constants s = num_constants t
   \<Longrightarrow> constants_ok s = constants_ok t"
  by (simp add: constants_ok_def)

lemma constants_ok_no_constants: "constants_ok no_constants" "const_map no_constants = Map.empty"
proof -
  have "used_cells (upper_to_lower_constants no_constants) = {}"
    by (simp add: used_cells_def no_constants_def)
  then show ok: "constants_ok no_constants" by (simp add: constants_ok_def no_constants_def)
  show "const_map no_constants = Map.empty"
    using const_map_iff [OF ok] \<open>used_cells _ = {}\<close> by (metis empty_iff not_Some_eq)
qed

lemma init_predefined_ok:
  assumes "constants_ok s" and "dom (const_map s) \<subseteq> mpi ` snd ` set predefined_names"
  obtains s' where "init_predefined_virt_ids wide c2f Comm_group mpi mana s = Some (Ok s')"
    and "constants_ok s'"
    and "const_map s' = const_map s ++ map_of (rev (map (constant_of c2f mpi mana) predefined_names))"
    and "lower_to_upper_constants s' =
           map_of (rev (map (\<lambda>x. (mana (snd x), mpi (snd x))) predefined_names))"
    and "\<forall>name\<in>snd ` set predefined_names. constant_reserved wide s' (mpi name)"
proof -
  define r where "r = s \<lparr> lower_to_upper_constants := Map.empty, fortran_constants := (\<lambda>_. Map.empty) \<rparr>"
  have r: "constants_ok r" "const_map r = const_map s"
    using assms(1) constants_ok_cong [of r s] const_map_cong [of r s] by (simp_all add: r_def)
  have "card (mpi ` snd ` set predefined_names) \<le> length predefined_names"
    by (metis List.finite_set card_image_le card_length finite_imageI le_trans)
  then have "card (dom (const_map r) \<union> mpi ` snd ` set predefined_names) \<le> 128"
    using assms(2) by (simp add: r(2) Un_absorb1 length_predefined_names)
  then obtain t where t: "set_constants wide c2f mpi mana predefined_names r = Some (Ok t)"
    "constants_ok t" "const_map t = const_map r ++ map_of (rev (map (constant_of c2f mpi mana) predefined_names))"
    using set_constants_ok [OF r(1)] by metis
  define s' where "s' = t \<lparr> g_world_group := Comm_group (mana ''COMM_WORLD'') \<rparr>"
  show ?thesis
  proof (rule that)
    show "init_predefined_virt_ids wide c2f Comm_group mpi mana s = Some (Ok s')"
      using t(1) by (simp add: init_predefined_virt_ids_def r_def s'_def)
    show "constants_ok s'" using t(2) constants_ok_cong [of s' t] by (simp add: s'_def)
    show "const_map s' = const_map s ++ map_of (rev (map (constant_of c2f mpi mana) predefined_names))"
      using t(3) const_map_cong [of s' t] by (simp add: s'_def r(2))
    show "lower_to_upper_constants s' =
        map_of (rev (map (\<lambda>x. (mana (snd x), mpi (snd x))) predefined_names))"
      using set_constants_lower [OF t(1)] by (simp add: s'_def r_def)
    show "\<forall>name\<in>snd ` set predefined_names. constant_reserved wide s' (mpi name)"
      using set_constants_reserved [OF t(1)]
      by (simp add: s'_def constant_reserved_def slot_is_reserved_def)
  qed
qed

lemma const_map_after_init:
  assumes map: "const_map s' = const_map s ++ map_of (rev (map (constant_of c2f mpi mana) predefined_names))"
    and alias_free: "\<And>a b. mpi a = mpi b \<Longrightarrow> mana a = mana b" and "name \<in> snd ` set predefined_names"
  obtains c where "const_map s' (mpi name) = Some c" and "c_lower c = mana name"
proof -
  obtain x where x: "x \<in> set predefined_names" "name = snd x" using \<open>name \<in> _\<close> by auto
  obtain y where y: "mpi (snd y) = mpi (snd x)"
    "map_of (rev (map (constant_of c2f mpi mana) predefined_names)) (mpi (snd x)) =
       Some (snd (constant_of c2f mpi mana y))"
    by (rule map_of_rev_in [OF x(1), of "constant_of c2f mpi mana"]) (unfold fst_constant_of)
  then have "const_map s' (mpi name) = Some (snd (constant_of c2f mpi mana y))"
    unfolding map x(2) by (simp only: map_add_Some_iff simp_thms)
  moreover have "c_lower (snd (constant_of c2f mpi mana y)) = mana (snd y)"
    by (simp add: constant_of_def split: prod.split)
  ultimately show ?thesis using that alias_free [OF y(1)] by (simp add: x(2))
qed

lemma lower_of_constant_after_init:
  assumes ok: "constants_ok s'"
    and map: "const_map s' = const_map s ++ map_of (rev (map (constant_of c2f mpi mana) predefined_names))"
    and alias_free: "\<And>a b. mpi a = mpi b \<Longrightarrow> mana a = mana b"
  shows "name \<in> snd ` set predefined_names \<Longrightarrow> lower_of_constant s' (mpi name) = Some (mana name)"
    and "dom (const_map s) \<subseteq> mpi ` snd ` set predefined_names \<Longrightarrow>
         key \<notin> mpi ` snd ` set predefined_names \<Longrightarrow> lower_of_constant s' key = Some key"
proof -
  have low: "lower_of_constant s' key = Some (case const_map s' key of Some c \<Rightarrow> c_lower c | None \<Rightarrow> key)" for key
    by (simp add: lower_of_constant_def find_constant_Some [OF ok])
  show "lower_of_constant s' (mpi name) = Some (mana name)" if "name \<in> snd ` set predefined_names"
    by (rule const_map_after_init [OF map alias_free that]) (simp_all add: low)
  show "lower_of_constant s' key = Some key"
    if "dom (const_map s) \<subseteq> mpi ` snd ` set predefined_names" "key \<notin> mpi ` snd ` set predefined_names"
  proof -
    have "map_of (rev (map (constant_of c2f mpi mana) predefined_names)) key = None"
      using that(2) by (auto simp: map_of_eq_None_iff image_image)
    moreover have "const_map s key = None" using that by blast
    ultimately show ?thesis by (simp add: low map map_add_def)
  qed
qed

text \<open>C1. Whatever values the two halves give to MPI's predefined constants, \<^verbatim>\<open>init_predefined_virt_ids\<close>
  returns without failing its assertion, at \<^verbatim>\<open>MPI_Init\<close> (empty tables) and at restart (tables that
  have the same upper-half values).  Afterwards every constant translates to the lower half's current
  value, and a value that is no constant translates to itself.  Two names may have the same upper-half
  value (\<^verbatim>\<open>MPI_LONG_LONG\<close> and \<^verbatim>\<open>MPI_LONG_LONG_INT\<close> in MPICH) if they have the same lower-half value.\<close>

theorem init_predefined_translates:
  assumes "constants_ok s" and "dom (const_map s) \<subseteq> mpi ` snd ` set predefined_names"
    and "\<forall>a b. mpi a = mpi b \<longrightarrow> mana a = mana b"
  shows "\<exists>s'. init_predefined_virt_ids wide c2f Comm_group mpi mana s = Some (Ok s') \<and> constants_ok s' \<and>
    (\<forall>name\<in>snd ` set predefined_names. lower_of_constant s' (mpi name) = Some (mana name)) \<and>
    (\<forall>key. key \<notin> mpi ` snd ` set predefined_names \<longrightarrow> lower_of_constant s' key = Some key)"
proof -
  obtain s' where s': "init_predefined_virt_ids wide c2f Comm_group mpi mana s = Some (Ok s')"
    "constants_ok s'"
    "const_map s' = const_map s ++ map_of (rev (map (constant_of c2f mpi mana) predefined_names))"
    using init_predefined_ok [OF assms(1,2)] by metis
  moreover have "mana a = mana b" if "mpi a = mpi b" for a b using assms(3) that by blast
  note lower_of_constant_after_init [OF s'(2,3) this]
  ultimately show ?thesis using assms(2) by blast
qed

theorem init_predefined_translates_witness:
  "\<exists>s'. init_predefined_virt_ids False (\<lambda>kind l. ucast l) id (\<lambda>n. of_nat (length n))
          (\<lambda>n. of_nat (length n) + 7) no_constants = Some (Ok s') \<and>
        lower_of_constant s' 3 = Some 10 \<and> lower_of_constant s' 1000 = Some 1000"
proof -
  define mpi :: "string \<Rightarrow> int64" where "mpi = (\<lambda>n. of_nat (length n))"
  define mana :: "string \<Rightarrow> int64" where "mana = (\<lambda>n. of_nat (length n) + 7)"
  have max: "''MAX'' \<in> snd ` set predefined_names" by code_simp
  have none: "1000 \<notin> mpi ` snd ` set predefined_names" unfolding mpi_def by code_simp
  have dom: "dom (const_map no_constants) \<subseteq> mpi ` snd ` set predefined_names"
    by (simp add: constants_ok_no_constants(2))
  have ali: "\<forall>a b. mpi a = mpi b \<longrightarrow> mana a = mana b"
    unfolding mpi_def mana_def by (intro allI impI) (rule arg_cong)
  obtain s' where s': "init_predefined_virt_ids False (\<lambda>kind l. ucast l) id mpi mana no_constants = Some (Ok s')"
    and names: "\<forall>name\<in>snd ` set predefined_names. lower_of_constant s' (mpi name) = Some (mana name)"
    and others: "\<forall>key. key \<notin> mpi ` snd ` set predefined_names \<longrightarrow> lower_of_constant s' key = Some key"
    using init_predefined_translates [where mpi = mpi and mana = mana and wide = False and Comm_group = id
        and c2f = "\<lambda>kind l. ucast l", OF constants_ok_no_constants(1) dom ali] by (elim exE conjE)
  have "lower_of_constant s' 3 = Some 10"
    using bspec [OF names max] unfolding mpi_def mana_def by simp
  moreover have "lower_of_constant s' 1000 = Some 1000" using others none by blast
  ultimately show ?thesis using s' unfolding mpi_def mana_def by (intro exI conjI)
qed

text \<open>C2. The two translations are inverse: the application gets back the value it knows for every
  constant that the lower half returns (for example the \<^verbatim>\<open>MPI_Errhandler\<close> of a communicator).\<close>

theorem predefined_round_trip:
  assumes "constants_ok s" and "dom (const_map s) \<subseteq> mpi ` snd ` set predefined_names"
    and "\<forall>a b. mpi a = mpi b \<longleftrightarrow> mana a = mana b"
    and "init_predefined_virt_ids wide c2f Comm_group mpi mana s = Some (Ok s')"
    and "name \<in> snd ` set predefined_names"
  shows "map_option (upper_of_constant s') (lower_of_constant s' (mpi name)) = Some (mpi name)"
proof -
  obtain t where t: "init_predefined_virt_ids wide c2f Comm_group mpi mana s = Some (Ok t)" "constants_ok t"
    "const_map t = const_map s ++ map_of (rev (map (constant_of c2f mpi mana) predefined_names))"
    "lower_to_upper_constants t =
       map_of (rev (map (\<lambda>x. (mana (snd x), mpi (snd x))) predefined_names))"
    using init_predefined_ok [OF assms(1,2)] .
  then have "s' = t" using assms(4) by simp
  note s' = t(2-4) [folded \<open>s' = t\<close>]
  obtain x where x: "x \<in> set predefined_names" "name = snd x" using assms(5) by auto
  let ?f = "\<lambda>x. (mana (snd x), mpi (snd x))"
  obtain y where "y \<in> set predefined_names" "fst (?f y) = fst (?f x)"
    "map_of (rev (map ?f predefined_names)) (fst (?f x)) = Some (snd (?f y))"
    using map_of_rev_in [OF x(1), of ?f] .
  then have "mana (snd y) = mana name" "lower_to_upper_constants s' (mana name) = Some (mpi (snd y))"
    unfolding s'(3) x(2) by simp_all
  moreover from this(1) have "mpi (snd y) = mpi name"
    by (rule iffD2 [OF assms(3) [THEN spec, THEN spec]])
  ultimately have "upper_of_constant s' (mana name) = mpi name"
    by (simp add: upper_of_constant_def)
  moreover have "mana a = mana b" if "mpi a = mpi b" for a b
    using assms(3) [THEN spec, THEN spec] that by (rule iffD1)
  then have "lower_of_constant s' (mpi name) = Some (mana name)"
    by (intro lower_of_constant_after_init(1) [OF s'(1,2) _ assms(5)])
  ultimately show ?thesis by simp
qed

theorem predefined_round_trip_witness:
  "\<exists>s'. init_predefined_virt_ids True (\<lambda>kind l. ucast l) id (\<lambda>n. of_nat (length n))
          (\<lambda>n. of_nat (length n) + 7) no_constants = Some (Ok s') \<and>
        map_option (upper_of_constant s') (lower_of_constant s' 3) = Some 3"
proof -
  define mpi :: "string \<Rightarrow> int64" where "mpi = (\<lambda>n. of_nat (length n))"
  define mana :: "string \<Rightarrow> int64" where "mana = (\<lambda>n. of_nat (length n) + 7)"
  have max: "''MAX'' \<in> snd ` set predefined_names" by code_simp
  have dom: "dom (const_map no_constants) \<subseteq> mpi ` snd ` set predefined_names"
    by (simp add: constants_ok_no_constants(2))
  have ali: "\<forall>a b. mpi a = mpi b \<longleftrightarrow> mana a = mana b"
    unfolding mpi_def mana_def by (simp only: add_right_cancel simp_thms)
  obtain s' where s': "init_predefined_virt_ids True (\<lambda>kind l. ucast l) id mpi mana no_constants = Some (Ok s')"
    by (rule init_predefined_ok [OF constants_ok_no_constants(1) dom])
  have "map_option (upper_of_constant s') (lower_of_constant s' (mpi ''MAX'')) = Some (mpi ''MAX'')"
    by (rule predefined_round_trip [where mpi = mpi and mana = mana, OF constants_ok_no_constants(1) dom ali s' max])
  then have "map_option (upper_of_constant s') (lower_of_constant s' 3) = Some 3"
    unfolding mpi_def by simp
  then show ?thesis using s' unfolding mpi_def mana_def by (intro exI conjI)
qed

end
