(* ===== verification/Virtual_Id.thy ===== *)
theory Virtual_Id
  imports Const_Table
begin

text \<open>
  The virtual-ID table (\<^verbatim>\<open>virtual_id.h\<close>, \<^verbatim>\<open>virtual_id.cpp\<close>).  The application never holds a handle of the
  MPI library: it holds a 32-bit virtual handle, which has a kind, the generation of a table slot and
  the index of the slot.  The table is an array of chunks of 4096 entries; free slots are linked in a
  list; slots that could give a handle the value of a predefined constant are never used.

  A pointer to an entry is the index of its slot.  A \<^verbatim>\<open>void *desc\<close> is a value of \<open>descriptor\<close>; the
  pointer to the Collective Clock in a communicator's descriptor is the gid the clock was
  made for.  \<^verbatim>\<open>uint64_t seq\<close> and \<^verbatim>\<open>size_t virt_id_live\<close> are natural numbers: they count operations of the
  process and cannot reach \<open>2 ^ 64\<close>.  \<^verbatim>\<open>calloc\<close> is taken to succeed.

  The results: the table refines a finite map from handles to entries (\<open>handle_table\<close> states the
  contract, and the interpretation \<open>vt\<close> proves it for the code), no virtual handle is ever confused
  with a predefined constant, and stale handles are detected for fifteen reuses of their slot and
  not for the sixteenth.
\<close>

subsection \<open>Data\<close>

record mana_group_desc =
  g_size :: int
  g_rank :: int
  g_global_ranks :: "int list"

record mana_comm_desc =
  cd_size :: int
  cd_rank :: int
  cd_global_ranks :: "int list"
  cart_ndims :: int
  cart_dims :: "int list"
  cart_periods :: "int list"
  gid :: int64
  clock :: int64

record mana_op_desc =
  user_fn :: int64
  commute :: int

datatype type_ctor =
    NO_CONSTRUCTOR
  | MANA_TYPE_CONTIGUOUS
  | MANA_TYPE_VECTOR
  | MANA_TYPE_HVECTOR
  | MANA_TYPE_INDEXED
  | MANA_TYPE_HINDEXED
  | MANA_TYPE_STRUCT
  | MANA_TYPE_DUP
  | MANA_TYPE_RESIZED

record mana_datatype_desc =
  constructor :: type_ctor
  td_count :: int
  blocklength :: int
  stride :: int
  hstride :: int
  td_lb :: int
  td_extent :: int
  oldtype :: mana_mpi_handle
  blocklengths :: "int list"
  displacements :: "int list"
  hdisplacements :: "int list"
  oldtypes :: "mana_mpi_handle list"
  committed :: bool
  refs :: int

datatype descriptor =
    NoDesc
  | CommDesc mana_comm_desc
  | GroupDesc mana_group_desc
  | OpDesc mana_op_desc
  | TypeDesc mana_datatype_desc

datatype mpi_req_t = UNKNOW_REQUEST | ISEND_REQUEST | IRECV_REQUEST | ISSEND_REQUEST

record mpi_nonblocking_call =
  req_type :: mpi_req_t
  sendbuf :: int64
  recvbuf :: int64
  nb_count :: int
  nb_datatype :: mana_mpi_handle
  nb_comm :: mana_mpi_handle
  remote_node :: int
  nb_tag :: int
  later_sends :: int

record mpi_status =
  st_source :: int
  st_tag :: int
  st_error :: int
  st_count :: int

record virt_id_entry =
  real_id :: mana_mpi_handle
  desc :: descriptor
  seq :: nat
  virt :: int32
  next_free :: int
  gen :: int32
  call :: mpi_nonblocking_call
  pending_prev :: "nat option"
  pending_next :: "nat option"
  collective :: bool
  completed :: bool
  status :: mpi_status

definition zero_call :: mpi_nonblocking_call where
  "zero_call = \<lparr> req_type = UNKNOW_REQUEST, sendbuf = 0, recvbuf = 0, nb_count = 0, nb_datatype = 0,
     nb_comm = 0, remote_node = 0, nb_tag = 0, later_sends = 0 \<rparr>"

definition zero_status :: mpi_status where
  "zero_status = \<lparr> st_source = 0, st_tag = 0, st_error = 0, st_count = 0 \<rparr>"

definition zero_entry :: virt_id_entry where
  "zero_entry = \<lparr> real_id = 0, desc = NoDesc, seq = 0, virt = 0, next_free = 0, gen = 0,
     call = zero_call, pending_prev = None, pending_next = None, collective = False,
     completed = False, status = zero_status \<rparr>"

definition zero_datatype_desc :: mana_datatype_desc where
  "zero_datatype_desc = \<lparr> constructor = NO_CONSTRUCTOR, td_count = 0, blocklength = 0, stride = 0,
     hstride = 0, td_lb = 0, td_extent = 0, oldtype = 0, blocklengths = [], displacements = [],
     hdisplacements = [], oldtypes = [], committed = False, refs = 0 \<rparr>"

record vtable =
  virt_id_chunks :: "nat \<Rightarrow> (nat \<Rightarrow> virt_id_entry) option"
  virt_id_free_head :: int
  virt_id_high_water :: nat
  virt_id_next_seq :: nat
  virt_id_live :: nat
  datatype_desc_pool :: "mana_datatype_desc list"

definition empty_vtable :: vtable where
  "empty_vtable = \<lparr> virt_id_chunks = (\<lambda>_. None), virt_id_free_head = -1, virt_id_high_water = 0,
     virt_id_next_seq = 0, virt_id_live = 0, datatype_desc_pool = [] \<rparr>"

subsection \<open>Entries\<close>

definition chunk_of :: "nat \<Rightarrow> nat" where
  "chunk_of slot = drop_bit 12 slot"

definition slot_entry :: "vtable \<Rightarrow> nat \<Rightarrow> virt_id_entry" where
  "slot_entry s slot =
     (case virt_id_chunks s (chunk_of slot) of
        Some chunk \<Rightarrow> chunk (slot AND (4096 - 1))
      | None \<Rightarrow> zero_entry)"

definition set_entry :: "nat \<Rightarrow> virt_id_entry \<Rightarrow> vtable \<Rightarrow> vtable" where
  "set_entry slot e s =
     s \<lparr> virt_id_chunks := (virt_id_chunks s)
           (chunk_of slot := map_option (\<lambda>chunk. chunk(slot AND (4096 - 1) := e))
                               (virt_id_chunks s (chunk_of slot))) \<rparr>"

definition handle_kind :: "int32 \<Rightarrow> int" where
  "handle_kind h = sint (signed_drop_bit 28 h)"

definition make_handle :: "nat \<Rightarrow> int32 \<Rightarrow> nat \<Rightarrow> int32" where
  "make_handle kind g slot =
     push_bit 28 (of_nat kind) OR push_bit 24 (g AND 0xf) OR of_nat slot"

subsection \<open>Lookup\<close>

definition lookup_virt_id_entry :: "bool \<Rightarrow> vtable \<Rightarrow> mana_mpi_handle \<Rightarrow> nat option" where
  "lookup_virt_id_entry wide s virt_id =
     (if wide \<and> drop_bit 32 virt_id \<noteq> 0 then None
      else let handle = ucast virt_id :: int32;
               kind = drop_bit 28 handle
           in if kind - 1 \<ge> of_nat MANA_NUM_KINDS then None
              else let slot = unat (handle AND 0xffffff)
                   in case virt_id_chunks s (chunk_of slot) of
                        None \<Rightarrow> None
                      | Some chunk \<Rightarrow>
                          if virt (chunk (slot AND (4096 - 1))) \<noteq> handle then None else Some slot)"

text \<open>\<^verbatim>\<open>get_virt_id_entry\<close> never returns on an invalid handle, and neither does a probing loop that does
  not end.\<close>

definition get_virt_id_entry :: "bool \<Rightarrow> vtable \<Rightarrow> mana_mpi_handle \<Rightarrow> nat result" where
  "get_virt_id_entry wide s virt_id =
     (case lookup_virt_id_entry wide s virt_id of Some slot \<Rightarrow> Ok slot | None \<Rightarrow> Fault Spin)"

definition get_real_id_slow :: "bool \<Rightarrow> constants \<Rightarrow> vtable \<Rightarrow> mana_mpi_handle \<Rightarrow> mana_mpi_handle result" where
  "get_real_id_slow wide ctab s virt_id =
     (case find_constant ctab (constant_key wide virt_id) of
        None \<Rightarrow> Fault Spin
      | Some (Some c) \<Rightarrow> Ok (c_lower c)
      | Some None \<Rightarrow>
          bind_result (get_virt_id_entry wide s virt_id) (\<lambda>slot. Ok (real_id (slot_entry s slot))))"

definition get_real_id :: "bool \<Rightarrow> constants \<Rightarrow> vtable \<Rightarrow> mana_mpi_handle \<Rightarrow> mana_mpi_handle result" where
  "get_real_id wide ctab s virt_id =
     (case lookup_virt_id_entry wide s virt_id of
        Some slot \<Rightarrow> Ok (real_id (slot_entry s slot))
      | None \<Rightarrow> get_real_id_slow wide ctab s virt_id)"

definition get_virt_id_desc :: "bool \<Rightarrow> constants \<Rightarrow> vtable \<Rightarrow> mana_mpi_handle \<Rightarrow> descriptor result" where
  "get_virt_id_desc wide ctab s virt_id =
     (case lookup_virt_id_entry wide s virt_id of
        Some slot \<Rightarrow> Ok (desc (slot_entry s slot))
      | None \<Rightarrow>
          (case find_constant ctab (constant_key wide virt_id) of
             None \<Rightarrow> Fault Spin
           | Some (Some c) \<Rightarrow> Ok NoDesc
           | Some None \<Rightarrow>
               bind_result (get_virt_id_entry wide s virt_id) (\<lambda>slot. Ok (desc (slot_entry s slot)))))"

subsection \<open>Allocation\<close>

function skip_reserved :: "constants \<Rightarrow> nat \<Rightarrow> nat" where
  "skip_reserved ctab slot =
     (if slot_is_reserved ctab slot then skip_reserved ctab (slot + 1) else slot)"
  by pat_completeness auto
termination
  by (relation "measure (\<lambda>(ctab, slot). length (reserved_slots ctab) - slot)")
    (auto simp: slot_is_reserved_def)

declare skip_reserved.simps [simp del]

fun make_chunks :: "nat list \<Rightarrow> vtable \<Rightarrow> vtable" where
  "make_chunks [] s = s"
| "make_chunks (chunk # chunks) s =
     make_chunks chunks
       (if virt_id_chunks s chunk \<noteq> None then s
        else s \<lparr> virt_id_chunks := (virt_id_chunks s)(chunk \<mapsto> (\<lambda>_. zero_entry)) \<rparr>)"

definition alloc_slot :: "constants \<Rightarrow> vtable \<Rightarrow> (nat \<times> vtable) result" where
  "alloc_slot ctab s =
     (if virt_id_free_head s \<ge> 0
      then let slot = nat (virt_id_free_head s)
           in Ok (slot, s \<lparr> virt_id_free_head := next_free (slot_entry s slot) \<rparr>)
      else let slot = skip_reserved ctab (virt_id_high_water s)
           in if slot > 0xffffff then Fault Abort
              else let s = make_chunks [chunk_of (virt_id_high_water s)..<chunk_of slot + 1] s
                   in Ok (slot, s \<lparr> virt_id_high_water := slot + 1 \<rparr>))"

definition add_virt_id ::
  "constants \<Rightarrow> mana_mpi_handle \<Rightarrow> descriptor \<Rightarrow> nat \<Rightarrow> vtable \<Rightarrow> (mana_mpi_handle \<times> vtable) result"
where
  "add_virt_id ctab real d kind s =
     bind_result (alloc_slot ctab s) (\<lambda>(slot, s).
       let entry = slot_entry s slot;
           handle = make_handle kind (gen entry) slot;
           n = virt_id_next_seq s + 1;
           entry = entry \<lparr> real_id := real, desc := d, seq := n,
                           call := (call entry) \<lparr> req_type := UNKNOW_REQUEST \<rparr>,
                           collective := False, completed := False, virt := handle \<rparr>;
           s = set_entry slot entry s
       in Ok (ucast handle, s \<lparr> virt_id_next_seq := n, virt_id_live := virt_id_live s + 1 \<rparr>))"

subsection \<open>Freeing and updating\<close>

definition free_desc :: "descriptor \<Rightarrow> int \<Rightarrow> vtable \<Rightarrow> vtable" where
  "free_desc d kind s =
     (if kind = int MANA_DATATYPE_KIND
      then (case d of TypeDesc t \<Rightarrow> s \<lparr> datatype_desc_pool := t # datatype_desc_pool s \<rparr> | _ \<Rightarrow> s)
      else s)"

definition free_virt_id :: "bool \<Rightarrow> mana_mpi_handle \<Rightarrow> vtable \<Rightarrow> vtable result" where
  "free_virt_id wide virt_id s =
     (case lookup_virt_id_entry wide s virt_id of
        None \<Rightarrow> Fault Abort
      | Some slot \<Rightarrow>
          let entry = slot_entry s slot;
              handle = ucast virt_id :: int32
          in if req_type (call entry) \<noteq> UNKNOW_REQUEST then Fault Assert_failed
             else let entry' = entry \<lparr> gen := gen entry + 1, virt := 0, desc := NoDesc,
                                       next_free := virt_id_free_head s \<rparr>;
                      s = free_desc (desc entry) (handle_kind handle) s;
                      s = set_entry slot entry' s
                  in Ok (s \<lparr> virt_id_free_head := uint (handle AND 0xffffff),
                             virt_id_live := virt_id_live s - 1 \<rparr>))"

definition update_virt_id :: "bool \<Rightarrow> mana_mpi_handle \<Rightarrow> mana_mpi_handle \<Rightarrow> vtable \<Rightarrow> vtable result" where
  "update_virt_id wide virt_id real s =
     (case lookup_virt_id_entry wide s virt_id of
        None \<Rightarrow> Fault Abort
      | Some slot \<Rightarrow> Ok (set_entry slot ((slot_entry s slot) \<lparr> real_id := real \<rparr>) s))"

subsection \<open>Layout of the handles\<close>

lemma unat_make_handle:
  assumes "kind < 16" and "slot < 2 ^ 24"
  shows "unat (make_handle kind g slot) = kind * 2 ^ 28 + ((unat g mod 16) * 2 ^ 24 + slot)"
proof -
  have kind: "unat (push_bit 28 (of_nat kind :: int32)) = push_bit 28 kind"
    using assms(1) by (subst unat_push_bit) (simp_all add: unat_of_nat push_bit_eq_mult)
  have slot: "unat (of_nat slot :: int32) = slot"
    using assms(2) by (simp add: unat_of_nat)
  have g: "unat (g AND 0xf) = unat g mod 16"
    using unat_and_mask [of g 4] by (simp add: mask_eq_exp_minus_1)
  have g': "unat (push_bit 24 (g AND 0xf)) = push_bit 24 (unat g mod 16)"
    by (subst unat_push_bit) (simp_all add: g push_bit_eq_mult)
  have low: "(unat g mod 16) * 2 ^ 24 + slot < 2 ^ 28"
    using assms(2) by simp
  show ?thesis
    unfolding make_handle_def unsigned_or_eq kind slot g' or.assoc nat_or_push_bit [OF assms(2)]
      nat_or_push_bit [OF low] by simp
qed

lemma unat_slot_mask: "unat ((h::'a::len word) AND 0xffffff) = unat h mod 2 ^ 24"
  using unat_and_mask [of h 24] by (simp add: mask_eq_exp_minus_1)

lemma kind_range: "(k::int32) - 1 < 6 \<longleftrightarrow> 1 \<le> unat k \<and> unat k \<le> 6"
  by (auto simp: word_less_nat_alt unat_sub_if' word_le_nat_alt)

lemma make_handle_parts:
  assumes "kind < 16" and "slot < 2 ^ 24"
  shows "unat (make_handle kind g slot) div 2 ^ 28 = kind"
    and "unat (make_handle kind g slot) mod 2 ^ 24 = slot"
    and "unat (make_handle kind g slot) div 2 ^ 24 mod 16 = unat g mod 16"
proof -
  define m where "m = unat g mod 16"
  have m: "m < 16" by (simp add: m_def)
  have u: "unat (make_handle kind g slot) = kind * 2 ^ 28 + (m * 2 ^ 24 + slot)"
    unfolding unat_make_handle [OF assms] m_def ..
  show "unat (make_handle kind g slot) div 2 ^ 28 = kind"
    unfolding u by (rule div_nat_eqI) (use m assms in simp_all)
  have "kind * 2 ^ 28 + (m * 2 ^ 24 + slot) = slot + 2 ^ 24 * (16 * kind + m)" by simp
  then show "unat (make_handle kind g slot) mod 2 ^ 24 = slot"
    unfolding u using assms(2) by (metis mod_less mod_mult_self2)
  have "(kind * 2 ^ 28 + (m * 2 ^ 24 + slot)) div 2 ^ 24 = 16 * kind + m"
    by (rule div_nat_eqI) (use m assms in simp_all)
  then show "unat (make_handle kind g slot) div 2 ^ 24 mod 16 = unat g mod 16"
    unfolding u m_def [symmetric] using m by simp
qed

lemma sint_drop_28: "unat (w::int32) < 2 ^ 31 \<Longrightarrow> sint (signed_drop_bit 28 w) = int (unat w div 2 ^ 28)"
proof -
  assume "unat w < 2 ^ 31"
  then have "uint w < 2 ^ 31"
    unfolding unat_eq_nat_uint by (metis nat_less_numeral_power_cancel_iff)
  moreover have "- (2 ^ 31) \<le> uint w" by (rule order_trans [of _ 0]) simp_all
  ultimately have "signed_take_bit 31 (uint w) = uint w"
    by (intro signed_take_bit_int_eq_self)
  then have "sint w = int (unat w)" unfolding sint_uint by simp
  then show ?thesis
    unfolding sint_signed_drop_bit_eq drop_bit_eq_div
    by (simp only: of_nat_div of_nat_power of_nat_numeral)
qed
lemma handle_kind_make_handle:
  assumes "kind < 8" and "slot < 2 ^ 24"
  shows "handle_kind (make_handle kind g slot) = int kind"
proof -
  have *: "unat (make_handle kind g slot) div 2 ^ 28 = kind"
    using make_handle_parts(1) [of kind slot g] assms by simp
  then have "unat (make_handle kind g slot) < 2 ^ 31"
    using assms(1) div_less_iff_less_mult [of "2 ^ 28" "unat (make_handle kind g slot)" 8] by simp
  then show ?thesis unfolding handle_kind_def by (simp only: sint_drop_28 *)
qed

subsection \<open>Slots and chunks\<close>

definition has_chunk :: "vtable \<Rightarrow> nat \<Rightarrow> bool" where
  "has_chunk s i \<longleftrightarrow> virt_id_chunks s (chunk_of i) \<noteq> None"

lemma chunk_index: "i AND 4095 = i mod (4096::nat)"
  using nat_and_mask [of i 12] by simp

lemma same_cell_iff: "chunk_of i = chunk_of j \<and> i AND 4095 = j AND 4095 \<longleftrightarrow> i = j"
proof
  assume "chunk_of i = chunk_of j \<and> i AND 4095 = j AND 4095"
  then have "i div 4096 = j div 4096" "i mod 4096 = j mod 4096"
    by (simp_all add: chunk_of_def drop_bit_eq_div chunk_index)
  then show "i = j" by (metis div_mult_mod_eq)
qed simp

lemma slot_entry_set_entry [table_simps]:
  "has_chunk s i \<Longrightarrow> slot_entry (set_entry i e s) j = (if j = i then e else slot_entry s j)"
  using same_cell_iff [of i j] by (auto simp: slot_entry_def set_entry_def has_chunk_def split: option.split)

lemma set_entry_fields [simp]:
  "virt_id_free_head (set_entry i e s) = virt_id_free_head s"
  "virt_id_high_water (set_entry i e s) = virt_id_high_water s"
  "virt_id_next_seq (set_entry i e s) = virt_id_next_seq s"
  "virt_id_live (set_entry i e s) = virt_id_live s"
  "datatype_desc_pool (set_entry i e s) = datatype_desc_pool s"
  by (simp_all add: set_entry_def)

lemma has_chunk_set_entry [simp]: "has_chunk (set_entry i e s) j \<longleftrightarrow> has_chunk s j"
  by (auto simp: set_entry_def has_chunk_def)

lemma has_chunk_update [simp]:
  "has_chunk (s \<lparr> virt_id_free_head := a \<rparr>) j \<longleftrightarrow> has_chunk s j"
  "has_chunk (s \<lparr> virt_id_high_water := b \<rparr>) j \<longleftrightarrow> has_chunk s j"
  "has_chunk (s \<lparr> virt_id_next_seq := c \<rparr>) j \<longleftrightarrow> has_chunk s j"
  "has_chunk (s \<lparr> virt_id_live := d \<rparr>) j \<longleftrightarrow> has_chunk s j"
  "has_chunk (s \<lparr> datatype_desc_pool := p \<rparr>) j \<longleftrightarrow> has_chunk s j"
  by (simp_all add: has_chunk_def)

lemma slot_entry_cong:
  "virt_id_chunks s = virt_id_chunks t \<Longrightarrow> slot_entry s = slot_entry t"
  by (simp add: slot_entry_def fun_eq_iff)

lemma slot_entry_update [simp]:
  "slot_entry (s \<lparr> virt_id_free_head := a \<rparr>) = slot_entry s"
  "slot_entry (s \<lparr> virt_id_high_water := b \<rparr>) = slot_entry s"
  "slot_entry (s \<lparr> virt_id_next_seq := c \<rparr>) = slot_entry s"
  "slot_entry (s \<lparr> virt_id_live := d \<rparr>) = slot_entry s"
  "slot_entry (s \<lparr> datatype_desc_pool := p \<rparr>) = slot_entry s"
  by (simp_all add: slot_entry_def fun_eq_iff)

lemma make_chunks_spec:
  "slot_entry (make_chunks cs s) = slot_entry s"
  "has_chunk (make_chunks cs s) i \<longleftrightarrow> has_chunk s i \<or> chunk_of i \<in> set cs"
  "virt_id_free_head (make_chunks cs s) = virt_id_free_head s"
  "virt_id_high_water (make_chunks cs s) = virt_id_high_water s"
  "virt_id_next_seq (make_chunks cs s) = virt_id_next_seq s"
  "virt_id_live (make_chunks cs s) = virt_id_live s"
  "datatype_desc_pool (make_chunks cs s) = datatype_desc_pool s"
proof (induction cs arbitrary: s)
  case (Cons a cs)
  {
    case 1 show ?case
      using Cons(1) by (auto simp: slot_entry_def fun_eq_iff split: option.split)
  next
    case 2 show ?case using Cons(2) by (auto simp: has_chunk_def)
  next
    case 3 show ?case using Cons(3) by simp
  next
    case 4 show ?case using Cons(4) by simp
  next
    case 5 show ?case using Cons(5) by simp
  next
    case 6 show ?case using Cons(6) by simp
  next
    case 7 show ?case using Cons(7) by simp
  }
qed simp_all

lemma skip_reserved_ge: "slot \<le> skip_reserved ctab slot"
  by (induction ctab slot rule: skip_reserved.induct) (subst skip_reserved.simps, auto)

lemma skip_reserved_free: "\<not> slot_is_reserved ctab (skip_reserved ctab slot)"
  by (induction ctab slot rule: skip_reserved.induct) (subst skip_reserved.simps, auto)

lemma skip_reserved_between:
  "slot \<le> i \<Longrightarrow> i < skip_reserved ctab slot \<Longrightarrow> slot_is_reserved ctab i"
proof (induction ctab slot rule: skip_reserved.induct)
  case (1 ctab slot)
  show ?case
  proof (cases "slot_is_reserved ctab slot")
    case True
    then have "skip_reserved ctab slot = skip_reserved ctab (slot + 1)"
      by (subst skip_reserved.simps) simp
    then show ?thesis using 1 True by (cases "slot = i") simp_all
  next
    case False
    then have "skip_reserved ctab slot = slot" by (subst skip_reserved.simps) simp
    then show ?thesis using 1 by simp
  qed
qed

subsection \<open>The invariant\<close>

text \<open>The free list as a list of slots, and the state of every slot.  \<open>out\<close> has the slots that
  \<^verbatim>\<open>alloc_slot\<close> has taken and \<^verbatim>\<open>add_virt_id\<close> has not published yet.\<close>

fun linked :: "vtable \<Rightarrow> int \<Rightarrow> nat list \<Rightarrow> bool" where
  "linked s h [] \<longleftrightarrow> h = -1"
| "linked s h (i # fl) \<longleftrightarrow> h = int i \<and> linked s (next_free (slot_entry s i)) fl"

definition live :: "vtable \<Rightarrow> nat \<Rightarrow> bool" where
  "live s i \<longleftrightarrow> virt (slot_entry s i) \<noteq> 0"

definition slot_ok :: "constants \<Rightarrow> vtable \<Rightarrow> nat \<Rightarrow> bool" where
  "slot_ok ctab s i \<longleftrightarrow> i < virt_id_high_water s \<and> has_chunk s i \<and> \<not> slot_is_reserved ctab i \<and>
     1 \<le> seq (slot_entry s i) \<and> seq (slot_entry s i) \<le> virt_id_next_seq s \<and>
     (\<exists>k\<in>{1..6}. virt (slot_entry s i) = make_handle k (gen (slot_entry s i)) i)"

definition vtable_inv :: "constants \<Rightarrow> vtable \<Rightarrow> nat list \<Rightarrow> nat set \<Rightarrow> bool" where
  "vtable_inv ctab s fl out \<longleftrightarrow>
     linked s (virt_id_free_head s) fl \<and> distinct fl \<and> virt_id_high_water s \<le> 2 ^ 24 \<and>
     (\<forall>i\<in>set fl \<union> out. i < virt_id_high_water s \<and> has_chunk s i \<and> \<not> live s i \<and>
        \<not> slot_is_reserved ctab i) \<and>
     set fl \<inter> out = {} \<and>
     (\<forall>i. live s i \<longrightarrow> slot_ok ctab s i) \<and>
     (\<forall>i<virt_id_high_water s. has_chunk s i \<and> (\<not> live s i \<longrightarrow>
        i \<in> set fl \<or> i \<in> out \<or> slot_is_reserved ctab i)) \<and>
     virt_id_live s = card {i. live s i} \<and>
     inj_on (\<lambda>i. seq (slot_entry s i)) {i. live s i}"

definition vtable_ok :: "constants \<Rightarrow> vtable \<Rightarrow> bool" where
  "vtable_ok ctab s \<longleftrightarrow> (\<exists>fl. vtable_inv ctab s fl {})"

lemma linked_cong:
  "(\<And>i. i \<in> set fl \<Longrightarrow> next_free (slot_entry s i) = next_free (slot_entry t i)) \<Longrightarrow>
   linked s h fl = linked t h fl"
  by (induction fl arbitrary: h) auto

lemma finite_live: "vtable_inv ctab s fl out \<Longrightarrow> finite {i. live s i}"
  by (rule finite_subset [of _ "{..<virt_id_high_water s}"]) (auto simp: vtable_inv_def slot_ok_def)

lemma slot_entry_empty [simp]: "slot_entry empty_vtable i = zero_entry"
  by (simp add: slot_entry_def empty_vtable_def)

lemma vtable_ok_empty: "vtable_ok ctab empty_vtable"
proof -
  have "\<not> live empty_vtable i" for i by (simp add: live_def zero_entry_def)
  then have "vtable_inv ctab empty_vtable [] {}"
    by (simp add: vtable_inv_def) (simp add: empty_vtable_def)
  then show ?thesis unfolding vtable_ok_def by blast
qed

lemma alloc_slot_inv:
  assumes inv: "vtable_inv ctab s fl {}" and alloc: "alloc_slot ctab s = Ok (i, s')"
  shows "\<exists>fl'. vtable_inv ctab s' fl' {i}" and "slot_entry s' = slot_entry s"
    and "virt_id_next_seq s' = virt_id_next_seq s"
proof -
  have "(\<exists>fl'. vtable_inv ctab s' fl' {i}) \<and> slot_entry s' = slot_entry s \<and>
    virt_id_next_seq s' = virt_id_next_seq s"
  proof (cases fl)
    case (Cons j fl')
    then have "i = j" "s' = s \<lparr> virt_id_free_head := next_free (slot_entry s j) \<rparr>"
      using inv alloc by (auto simp: vtable_inv_def alloc_slot_def Let_def)
    then have "vtable_inv ctab s' fl' {i}"
      using inv linked_cong [of fl' s s']
      by (auto simp: vtable_inv_def Cons live_def slot_ok_def)
    then show ?thesis using \<open>s' = _\<close> by auto
  next
    case Nil
    let ?i = "skip_reserved ctab (virt_id_high_water s)"
    define cs where "cs = [chunk_of (virt_id_high_water s)..<chunk_of ?i + 1]"
    have "virt_id_free_head s = -1" using inv by (simp add: vtable_inv_def Nil)
    then have i: "i = ?i" "?i < 2 ^ 24"
      and s': "s' = (make_chunks cs s) \<lparr> virt_id_high_water := ?i + 1 \<rparr>"
      using alloc unfolding cs_def by (auto simp: alloc_slot_def Let_def split: if_splits)
    note spec = make_chunks_spec [where cs = cs and s = s]
    have entry: "slot_entry s' = slot_entry s" by (simp add: s' spec)
    have chunk: "has_chunk s' k" if "k \<le> ?i" for k
    proof (cases "k < virt_id_high_water s")
      case True
      then have "has_chunk s k" using inv by (auto simp: vtable_inv_def)
      then show ?thesis using spec(2) [of k] by (simp add: s')
    next
      case False
      then have "chunk_of k \<in> set cs"
        using that by (auto simp: cs_def chunk_of_def drop_bit_eq_div intro: div_le_mono)
      then show ?thesis using spec(2) [of k] by (simp add: s')
    qed
    have ge: "virt_id_high_water s \<le> ?i" by (rule skip_reserved_ge)
    have live': "live s' = live s" by (simp add: live_def entry fun_eq_iff)
    have fields: "virt_id_high_water s' = ?i + 1" "virt_id_free_head s' = -1"
      "virt_id_live s' = virt_id_live s" "virt_id_next_seq s' = virt_id_next_seq s"
      using \<open>virt_id_free_head s = -1\<close> by (simp_all add: s' spec)
    have dead: "\<not> live s ?i"
      using inv ge by (auto simp: vtable_inv_def slot_ok_def)
    have "slot_ok ctab s' k" if "live s k" for k
      using inv ge chunk that by (auto simp: vtable_inv_def slot_ok_def entry fields)
    moreover have "has_chunk s' k \<and> (\<not> live s k \<longrightarrow> k = ?i \<or> slot_is_reserved ctab k)" if "k < ?i + 1" for k
      using inv that chunk [of k] skip_reserved_between [of "virt_id_high_water s" k ctab]
      by (cases "k < virt_id_high_water s") (auto simp: vtable_inv_def Nil less_Suc_eq)
    moreover have "\<not> slot_is_reserved ctab ?i" by (rule skip_reserved_free)
    ultimately have "vtable_inv ctab s' [] {i}"
      using inv i(2) dead chunk [of ?i] unfolding vtable_inv_def i(1)
      by (auto simp: live' entry fields)
    then show ?thesis using entry by (auto simp: s' spec)
  qed
  then show "\<exists>fl'. vtable_inv ctab s' fl' {i}" "slot_entry s' = slot_entry s"
    "virt_id_next_seq s' = virt_id_next_seq s" by auto
qed

lemma make_handle_nonzero: "1 \<le> kind \<Longrightarrow> kind < 16 \<Longrightarrow> slot < 2 ^ 24 \<Longrightarrow> make_handle kind g slot \<noteq> 0"
  using make_handle_parts(1) [of kind slot g] by force

text \<open>The three ways in which an operation changes one entry: it publishes an allocated slot, it frees a
  slot in use, or it leaves the fields that the table itself uses.\<close>

lemma publish_inv:
  assumes inv: "vtable_inv ctab s fl {i}"
    and entry: "slot_entry s' = (slot_entry s)(i := e)"
    and chunks: "\<And>j. has_chunk s' j \<longleftrightarrow> has_chunk s j"
    and fields: "virt_id_high_water s' = virt_id_high_water s" "virt_id_free_head s' = virt_id_free_head s"
      "virt_id_next_seq s' = virt_id_next_seq s + 1" "virt_id_live s' = virt_id_live s + 1"
    and e: "k \<in> {1..6}" "virt e = make_handle k (gen e) i" "seq e = virt_id_next_seq s + 1"
  shows "vtable_inv ctab s' fl {}"
proof -
  have i: "i \<notin> set fl" "\<not> live s i" "i < virt_id_high_water s" "has_chunk s i" "\<not> slot_is_reserved ctab i"
    "i < 2 ^ 24"
    using inv by (auto simp: vtable_inv_def)
  have "virt e \<noteq> 0" using e i(6) make_handle_nonzero [of k i] by simp
  then have live': "live s' j \<longleftrightarrow> j = i \<or> live s j" for j by (simp add: live_def entry)
  then have set': "{j. live s' j} = insert i {j. live s j}" by auto
  have "slot_ok ctab s' j" if "live s' j" for j
  proof (cases "j = i")
    case True
    then show ?thesis using i e by (auto simp: slot_ok_def entry fields chunks)
  next
    case False
    then have "slot_ok ctab s j" using that inv by (simp add: live' vtable_inv_def)
    then show ?thesis using False by (auto simp: slot_ok_def entry fields chunks)
  qed
  moreover have "linked s' h fl = linked s h fl" for h
    by (rule linked_cong) (use i(1) in \<open>auto simp: entry\<close>)
  moreover have "virt_id_live s' = card {j. live s' j}"
    using inv i(2) finite_live [OF inv] unfolding set' by (simp add: vtable_inv_def fields)
  moreover have "inj_on (\<lambda>j. seq (slot_entry s' j)) {j. live s' j}"
  proof -
    have old: "seq (slot_entry s j) \<noteq> seq e" if "live s j" for j
      using inv that e(3) by (auto simp: vtable_inv_def slot_ok_def)
    have inj: "inj_on (\<lambda>j. seq (slot_entry s j)) {j. live s j}" using inv by (simp add: vtable_inv_def)
    show ?thesis
      unfolding set' by (rule inj_onI) (use old inj in \<open>auto simp: entry inj_on_def split: if_splits dest: sym\<close>)
  qed
  ultimately show ?thesis
    using inv i(1,2) by (auto simp: vtable_inv_def live' fields chunks)
qed

lemma unpublish_inv:
  assumes inv: "vtable_inv ctab s fl {}" and i: "live s i"
    and entry: "slot_entry s' = (slot_entry s)(i := e)"
    and chunks: "\<And>j. has_chunk s' j \<longleftrightarrow> has_chunk s j"
    and fields: "virt_id_high_water s' = virt_id_high_water s" "virt_id_free_head s' = int i"
      "virt_id_next_seq s' = virt_id_next_seq s" "virt_id_live s' = virt_id_live s - 1"
    and e: "virt e = 0" "next_free e = virt_id_free_head s"
  shows "vtable_inv ctab s' (i # fl) {}"
proof -
  have "slot_ok ctab s i" "i \<notin> set fl" using inv i by (auto simp: vtable_inv_def)
  then have i': "i \<notin> set fl" "i < virt_id_high_water s" "has_chunk s i" "\<not> slot_is_reserved ctab i"
    by (auto simp: slot_ok_def)
  have live': "live s' j \<longleftrightarrow> j \<noteq> i \<and> live s j" for j by (simp add: live_def entry e)
  then have set': "{j. live s' j} = {j. live s j} - {i}" by auto
  have "linked s' h fl = linked s h fl" for h
    by (rule linked_cong) (use i'(1) in \<open>auto simp: entry\<close>)
  moreover have "slot_ok ctab s' j" if "live s' j" for j
  proof -
    have "j \<noteq> i" "slot_ok ctab s j" using that inv by (simp_all add: live' vtable_inv_def)
    then show ?thesis by (auto simp: slot_ok_def entry fields chunks)
  qed
  moreover have "virt_id_live s' = card {j. live s' j}"
    using inv i unfolding set' by (simp add: vtable_inv_def fields)
  moreover have "inj_on (\<lambda>j. seq (slot_entry s' j)) {j. live s' j}"
    using inv unfolding set' by (auto simp: vtable_inv_def inj_on_def entry)
  ultimately show ?thesis
    using inv i' by (auto simp: vtable_inv_def live' fields chunks entry e)
qed

lemma update_entry_inv:
  assumes inv: "vtable_inv ctab s fl {}"
    and entry: "slot_entry s' = (slot_entry s)(i := e)"
    and chunks: "\<And>j. has_chunk s' j \<longleftrightarrow> has_chunk s j"
    and fields: "virt_id_high_water s' = virt_id_high_water s" "virt_id_free_head s' = virt_id_free_head s"
      "virt_id_next_seq s' = virt_id_next_seq s" "virt_id_live s' = virt_id_live s"
    and e: "virt e = virt (slot_entry s i)" "next_free e = next_free (slot_entry s i)"
      "gen e = gen (slot_entry s i)" "seq e = seq (slot_entry s i)"
  shows "vtable_inv ctab s' fl {}"
proof -
  have same: "virt (slot_entry s' j) = virt (slot_entry s j)" "next_free (slot_entry s' j) = next_free (slot_entry s j)"
    "gen (slot_entry s' j) = gen (slot_entry s j)" "seq (slot_entry s' j) = seq (slot_entry s j)" for j
    by (simp_all add: entry e)
  have "linked s' h fl = linked s h fl" for h
    by (rule linked_cong) (simp add: same)
  moreover have "live s' = live s" "slot_ok ctab s' = slot_ok ctab s"
    by (auto simp: fun_eq_iff live_def slot_ok_def same fields chunks)
  ultimately show ?thesis using inv by (simp add: vtable_inv_def same fields chunks)
qed

subsection \<open>The table as a map from handles to entries\<close>

definition handle_map :: "vtable \<Rightarrow> int32 \<rightharpoonup> virt_id_entry" where
  "handle_map s h = map_option (slot_entry s) (lookup_virt_id_entry False s (ucast h))"

lemma lookup_handle_iff:
  "lookup_virt_id_entry wide s (ucast h) = Some i \<longleftrightarrow>
     1 \<le> unat h div 2 ^ 28 \<and> unat h div 2 ^ 28 \<le> 6 \<and> i = unat h mod 2 ^ 24 \<and> has_chunk s i \<and>
     virt (slot_entry s i) = h"
proof -
  have kind: "(6::int32) \<le> drop_bit 28 h - 1 \<longleftrightarrow> \<not> (1 \<le> unat h div 2 ^ 28 \<and> unat h div 2 ^ 28 \<le> 6)"
    unfolding not_less [symmetric] kind_range unat_drop_bit ..
  show ?thesis
    unfolding lookup_virt_id_entry_def Let_def ucast_handle unat_slot_mask of_nat_numeral kind
    by (auto simp: has_chunk_def slot_entry_def split: option.splits)
qed

lemma lookup_any:
  "lookup_virt_id_entry wide s v =
     (if wide \<and> drop_bit 32 v \<noteq> 0 then None else lookup_virt_id_entry wide s (ucast (ucast v :: int32)))"
  unfolding lookup_virt_id_entry_def ucast_handle by (simp only: simp_thms if_False)

lemma slot_ok_handle:
  assumes "vtable_inv ctab s fl out" and "live s i"
  obtains k where "k \<in> {1..6}" and "virt (slot_entry s i) = make_handle k (gen (slot_entry s i)) i"
    and "i < 2 ^ 24" and "has_chunk s i" and "\<not> slot_is_reserved ctab i"
proof -
  have ok: "slot_ok ctab s i" "virt_id_high_water s \<le> 2 ^ 24" using assms by (auto simp: vtable_inv_def)
  then obtain k where "k \<in> {1..6}" "virt (slot_entry s i) = make_handle k (gen (slot_entry s i)) i"
    unfolding slot_ok_def by blast
  then show ?thesis using that ok unfolding slot_ok_def by (meson less_le_trans)
qed

lemma lookup_live_iff:
  assumes "vtable_inv ctab s fl out"
  shows "lookup_virt_id_entry wide s (ucast h) = Some i \<longleftrightarrow> live s i \<and> virt (slot_entry s i) = h"
proof
  assume "lookup_virt_id_entry wide s (ucast h) = Some i"
  then show "live s i \<and> virt (slot_entry s i) = h"
    unfolding lookup_handle_iff live_def by auto
next
  assume *: "live s i \<and> virt (slot_entry s i) = h"
  obtain k where k: "k \<in> {1..6}" "virt (slot_entry s i) = make_handle k (gen (slot_entry s i)) i"
    "i < 2 ^ 24" "has_chunk s i"
    using slot_ok_handle [OF assms] * by metis
  then show "lookup_virt_id_entry wide s (ucast h) = Some i"
    using * make_handle_parts [of k i] unfolding lookup_handle_iff by auto
qed

lemma handle_map_iff:
  assumes "vtable_inv ctab s fl out"
  shows "handle_map s h = Some e \<longleftrightarrow> h \<noteq> 0 \<and> (\<exists>i. slot_entry s i = e \<and> virt e = h)"
  using lookup_live_iff [OF assms, of False h] by (auto simp: handle_map_def live_def)

lemma handle_map_add:
  assumes inv: "vtable_inv ctab s fl out" and inv': "vtable_inv ctab s' fl' out'"
    and entry: "slot_entry s' = (slot_entry s)(i := e)" and i: "\<not> live s i" "virt e \<noteq> 0"
  shows "handle_map s (virt e) = None" and "handle_map s' = (handle_map s)(virt e \<mapsto> e)"
proof -
  have "live s' i" by (simp add: live_def entry i)
  then obtain k where k: "k \<in> {1..6}" "virt e = make_handle k (gen e) i" "i < 2 ^ 24"
    using slot_ok_handle [OF inv', of i] by (auto simp: entry)
  have other: "virt (slot_entry s j) \<noteq> virt e" for j
  proof
    assume eq: "virt (slot_entry s j) = virt e"
    then have "live s j" using i(2) by (simp add: live_def)
    then obtain k' where k': "k' \<in> {1..6}" "virt (slot_entry s j) = make_handle k' (gen (slot_entry s j)) j"
      "j < 2 ^ 24"
      using slot_ok_handle [OF inv] by metis
    then have "j = i"
      using eq k make_handle_parts(2) [of k i "gen e"] make_handle_parts(2) [of k' j "gen (slot_entry s j)"]
      by simp
    then show False using i \<open>live s j\<close> by simp
  qed
  then show "handle_map s (virt e) = None"
    using handle_map_iff [OF inv, of "virt e"] by (metis not_Some_eq)
  have "handle_map s' h = Some e' \<longleftrightarrow> ((handle_map s)(virt e \<mapsto> e)) h = Some e'" for h e'
  proof (cases "h = virt e")
    case True
    then show ?thesis using other i(2) by (auto simp: handle_map_iff [OF inv'] entry split: if_splits)
  next
    case False
    then have "(\<exists>j. slot_entry s' j = e' \<and> virt e' = h) \<longleftrightarrow> (\<exists>j. slot_entry s j = e' \<and> virt e' = h)" if "h \<noteq> 0"
      using i that unfolding entry live_def by (metis fun_upd_other fun_upd_same)
    then show ?thesis using False by (auto simp: handle_map_iff [OF inv] handle_map_iff [OF inv'])
  qed
  then show "handle_map s' = (handle_map s)(virt e \<mapsto> e)"
    by (intro ext) (metis option.exhaust)
qed

lemma handle_map_remove:
  assumes inv: "vtable_inv ctab s fl out" and inv': "vtable_inv ctab s' fl' out'"
    and entry: "slot_entry s' = (slot_entry s)(i := e)" and i: "live s i" "virt e = 0"
  shows "handle_map s' = (handle_map s)(virt (slot_entry s i) := None)"
proof -
  let ?h = "virt (slot_entry s i)"
  have old: "slot_entry s = (slot_entry s')(i := slot_entry s i)" by (simp add: entry)
  have "\<not> live s' i" "?h \<noteq> 0" using i by (simp_all add: live_def entry)
  then have "handle_map s' ?h = None" "handle_map s = (handle_map s')(?h \<mapsto> slot_entry s i)"
    using handle_map_add [OF inv' inv old] by blast+
  then show ?thesis by (simp add: fun_upd_idem)
qed

lemma handle_map_change:
  assumes inv: "vtable_inv ctab s fl out" and inv': "vtable_inv ctab s' fl' out'"
    and entry: "slot_entry s' = (slot_entry s)(i := e)" and i: "live s i" "virt e = virt (slot_entry s i)"
  shows "handle_map s' = (handle_map s)(virt e \<mapsto> e)"
proof -
  have e: "virt e \<noteq> 0" using i by (simp add: live_def)
  have uniq: "virt (slot_entry s j) = virt e \<longleftrightarrow> j = i" for j
    using lookup_live_iff [OF inv, of False "virt e"] i e unfolding live_def by (metis option.inject)
  have "handle_map s' h = Some e' \<longleftrightarrow> ((handle_map s)(virt e \<mapsto> e)) h = Some e'" for h e'
  proof (cases "h = virt e")
    case True
    then show ?thesis using uniq e by (auto simp: handle_map_iff [OF inv'] entry split: if_splits)
  next
    case False
    then have "(\<exists>j. slot_entry s' j = e' \<and> virt e' = h) \<longleftrightarrow> (\<exists>j. slot_entry s j = e' \<and> virt e' = h)"
      unfolding entry using i(2) by (metis fun_upd_other fun_upd_same)
    then show ?thesis using False by (auto simp: handle_map_iff [OF inv] handle_map_iff [OF inv'])
  qed
  then show ?thesis by (intro ext) (metis option.exhaust)
qed

subsection \<open>The operations on the map\<close>

definition new_entry :: "mana_mpi_handle \<Rightarrow> descriptor \<Rightarrow> nat \<Rightarrow> int32 \<Rightarrow> virt_id_entry \<Rightarrow> virt_id_entry" where
  "new_entry real d n h e = e \<lparr> real_id := real, desc := d, seq := n,
     call := (call e) \<lparr> req_type := UNKNOW_REQUEST \<rparr>, collective := False, completed := False, virt := h \<rparr>"

lemma add_virt_id_spec:
  assumes inv: "vtable_inv ctab s fl {}" and add: "add_virt_id ctab real d kind s = Ok (v, s')"
    and kind: "kind \<in> {1..6}"
  obtains i fl' where "vtable_inv ctab s' fl' {}" and "\<not> live s i" and "i < 2 ^ 24"
    and "\<not> slot_is_reserved ctab i"
    and "v = ucast (make_handle kind (gen (slot_entry s i)) i)"
    and "slot_entry s' = (slot_entry s)(i := new_entry real d (virt_id_next_seq s + 1)
           (make_handle kind (gen (slot_entry s i)) i) (slot_entry s i))"
    and "virt_id_next_seq s' = virt_id_next_seq s + 1"
proof -
  obtain i t where t: "alloc_slot ctab s = Ok (i, t)"
    using add by (auto simp: add_virt_id_def bind_result_Ok_iff)
  note alloc = alloc_slot_inv [OF inv t]
  obtain fl' where fl': "vtable_inv ctab t fl' {i}" using alloc(1) by blast
  let ?h = "make_handle kind (gen (slot_entry s i)) i"
  let ?e = "new_entry real d (virt_id_next_seq s + 1) ?h (slot_entry s i)"
  have v: "v = ucast ?h"
    and s': "s' = (set_entry i ?e t) \<lparr> virt_id_next_seq := virt_id_next_seq s + 1,
                                        virt_id_live := virt_id_live t + 1 \<rparr>"
    using add alloc by (simp_all add: add_virt_id_def t Let_def new_entry_def)
  have i: "has_chunk t i" "\<not> live t i" "i < 2 ^ 24" "\<not> slot_is_reserved ctab i"
    using fl' by (auto simp: vtable_inv_def)
  have entry: "slot_entry s' = (slot_entry t)(i := ?e)"
    using i(1) by (simp add: s' fun_eq_iff table_simps)
  have "vtable_inv ctab s' fl' {}"
    by (rule publish_inv [OF fl' entry, of kind]) (use kind alloc in \<open>simp_all add: s' new_entry_def\<close>)
  then show ?thesis
    using that [of fl' i] i v entry alloc by (simp add: live_def s')
qed

lemma add_virt_id_map:
  assumes ok: "vtable_ok ctab s" and add: "add_virt_id ctab real d kind s = Ok (v, s')" and kind: "kind \<in> {1..6}"
  obtains h e where "v = ucast h" and "vtable_ok ctab s'" and "handle_map s h = None"
    and "handle_map s' = (handle_map s)(h \<mapsto> e)" and "handle_kind h = int kind"
    and "virt e = h" and "real_id e = real" and "desc e = d" and "seq e = virt_id_next_seq s + 1"
    and "req_type (call e) = UNKNOW_REQUEST" and "\<not> collective e" and "\<not> completed e"
proof -
  obtain fl where inv: "vtable_inv ctab s fl {}" using ok by (auto simp: vtable_ok_def)
  obtain i fl' where i: "vtable_inv ctab s' fl' {}" "\<not> live s i" "i < 2 ^ 24" "\<not> slot_is_reserved ctab i"
    "v = ucast (make_handle kind (gen (slot_entry s i)) i)"
    "slot_entry s' = (slot_entry s)(i := new_entry real d (virt_id_next_seq s + 1)
       (make_handle kind (gen (slot_entry s i)) i) (slot_entry s i))"
    by (rule add_virt_id_spec [OF inv add kind])
  let ?h = "make_handle kind (gen (slot_entry s i)) i"
  let ?e = "new_entry real d (virt_id_next_seq s + 1) ?h (slot_entry s i)"
  have "virt ?e \<noteq> 0" using kind i(3) make_handle_nonzero [of kind i] by (simp add: new_entry_def)
  note map = handle_map_add [OF inv i(1,6,2) this]
  have "handle_kind ?h = int kind" using kind i(3) by (simp add: handle_kind_make_handle)
  then show ?thesis
    using that [of ?h ?e] i(1,5) map by (auto simp: new_entry_def vtable_ok_def)
qed

lemma free_virt_id_map:
  assumes ok: "vtable_ok ctab s" and h: "handle_map s h = Some e" "req_type (call e) = UNKNOW_REQUEST"
  obtains s' where "free_virt_id wide (ucast h) s = Ok s'" and "vtable_ok ctab s'"
    and "handle_map s' = (handle_map s)(h := None)"
    and "virt_id_next_seq s' = virt_id_next_seq s"
    and "virt_id_free_head s' = int (unat h mod 2 ^ 24)"
proof -
  obtain fl where inv: "vtable_inv ctab s fl {}" using ok by (auto simp: vtable_ok_def)
  obtain i where i: "slot_entry s i = e" "virt e = h" "live s i"
    using h(1) handle_map_iff [OF inv] by (auto simp: live_def)
  then have look: "lookup_virt_id_entry wide s (ucast h) = Some i" using lookup_live_iff [OF inv] by simp
  then have i_eq: "unat h mod 2 ^ 24 = i" and chunk_i: "has_chunk s i"
    unfolding lookup_handle_iff by blast+
  have "uint (h AND 0xffffff) = int i" unfolding uint_nat unat_slot_mask i_eq ..
  note slot = this chunk_i
  let ?e = "e \<lparr> gen := gen e + 1, virt := 0, desc := NoDesc, next_free := virt_id_free_head s \<rparr>"
  let ?t = "free_desc (desc e) (handle_kind h) s"
  define s' where "s' = (set_entry i ?e ?t) \<lparr> virt_id_free_head := int i, virt_id_live := virt_id_live s - 1 \<rparr>"
  have t: "virt_id_chunks ?t = virt_id_chunks s" "virt_id_free_head ?t = virt_id_free_head s"
    "virt_id_high_water ?t = virt_id_high_water s" "virt_id_next_seq ?t = virt_id_next_seq s"
    "virt_id_live ?t = virt_id_live s"
    by (auto simp: free_desc_def split: descriptor.split)
  have free: "free_virt_id wide (ucast h) s = Ok s'"
    using h(2) by (simp add: free_virt_id_def look Let_def i(1) s'_def ucast_handle slot t)
  have chunk: "has_chunk ?t j = has_chunk s j" for j by (simp add: has_chunk_def t)
  have entry: "slot_entry s' = (slot_entry s)(i := ?e)"
    using slot(2) slot_entry_cong [OF t(1)] by (simp add: s'_def fun_eq_iff table_simps chunk)
  have inv': "vtable_inv ctab s' (i # fl) {}"
    by (rule unpublish_inv [OF inv i(3) entry]) (simp_all add: s'_def t chunk)
  show ?thesis
    using that [OF free] inv' handle_map_remove [OF inv inv' entry i(3)] i
    unfolding i_eq by (auto simp: vtable_ok_def s'_def t)
qed

subsection \<open>The contract of a handle table\<close>

text \<open>What the wrappers rely on: \<open>add\<close> returns a handle that is not in use and changes no other handle;
  \<open>free\<close> removes one idle handle and changes no other.\<close>

fun add_all :: "('a \<Rightarrow> 's \<Rightarrow> ('h \<times> 's) result) \<Rightarrow> 'a list \<Rightarrow> 's \<Rightarrow> ('h list \<times> 's) result" where
  "add_all add [] s = Ok ([], s)"
| "add_all add (a # as) s =
     bind_result (add a s) (\<lambda>(h, s). bind_result (add_all add as s) (\<lambda>(hs, s). Ok (h # hs, s)))"

fun free_all :: "('h \<Rightarrow> 's \<Rightarrow> 's result) \<Rightarrow> 'h list \<Rightarrow> 's \<Rightarrow> 's result" where
  "free_all free [] s = Ok s"
| "free_all free (h # hs) s = bind_result (free h s) (free_all free hs)"

locale handle_table =
  fixes ok :: "'s \<Rightarrow> bool"
    and look :: "'s \<Rightarrow> 'h \<Rightarrow> 'e option"
    and add :: "'a \<Rightarrow> 's \<Rightarrow> ('h \<times> 's) result"
    and free :: "'h \<Rightarrow> 's \<Rightarrow> 's result"
    and valid :: "'a \<Rightarrow> bool"
    and holds :: "'a \<Rightarrow> 'e \<Rightarrow> bool"
    and idle :: "'e \<Rightarrow> bool"
  assumes add_law: "ok s \<Longrightarrow> valid a \<Longrightarrow> add a s = Ok (h, s') \<Longrightarrow>
      ok s' \<and> look s h = None \<and> (\<exists>e. holds a e \<and> idle e \<and> look s' = (look s)(h \<mapsto> e))"
    and free_law: "ok s \<Longrightarrow> look s h = Some e \<Longrightarrow> idle e \<Longrightarrow>
      \<exists>s'. free h s = Ok s' \<and> ok s' \<and> look s' = (look s)(h := None)"
begin

lemma add_all_ok:
  "ok s \<Longrightarrow> list_all valid as \<Longrightarrow> add_all add as s = Ok (hs, s') \<Longrightarrow> ok s'"
proof (induction as arbitrary: s hs)
  case (Cons a as)
  then show ?case using add_law by (fastforce simp: bind_result_Ok_iff)
qed simp

text \<open>The handles of objects in use differ, and making new objects changes no older one.\<close>

lemma add_all_fresh:
  "ok s \<Longrightarrow> list_all valid as \<Longrightarrow> add_all add as s = Ok (hs, s') \<Longrightarrow>
   distinct hs \<and> set hs \<inter> dom (look s) = {} \<and> (\<forall>h. h \<notin> set hs \<longrightarrow> look s' h = look s h) \<and>
   list_all2 (\<lambda>a h. \<exists>e. look s' h = Some e \<and> holds a e \<and> idle e) as hs"
proof (induction as arbitrary: s hs)
  case Nil
  then show ?case by simp
next
  case (Cons a as)
  obtain h t hs' where t: "add a s = Ok (h, t)" "add_all add as t = Ok (hs', s')" "hs = h # hs'"
    using Cons.prems(3) by (auto simp: bind_result_Ok_iff)
  have valid: "valid a" "list_all valid as" using Cons.prems(2) by simp_all
  obtain e where e: "ok t" "look s h = None" "holds a e" "idle e" "look t = (look s)(h \<mapsto> e)"
    using add_law [OF Cons.prems(1) valid(1) t(1)] by blast
  have IH: "distinct hs'" "set hs' \<inter> dom (look t) = {}" "\<forall>h. h \<notin> set hs' \<longrightarrow> look s' h = look t h"
    "list_all2 (\<lambda>a h. \<exists>e. look s' h = Some e \<and> holds a e \<and> idle e) as hs'"
    using Cons.IH [OF e(1) valid(2) t(2)] by blast+
  have "h \<notin> set hs'" using IH(2) e(5) by auto
  then show ?case using IH e by (auto simp: t(3))
qed

text \<open>Freeing what was made leaves the table as it was.\<close>

lemma free_all_restores:
  "ok s \<Longrightarrow> distinct hs \<Longrightarrow> \<forall>h\<in>set hs. \<exists>e. look s h = Some e \<and> idle e \<Longrightarrow>
   \<exists>s'. free_all free hs s = Ok s' \<and> ok s' \<and> look s' = (\<lambda>h. if h \<in> set hs then None else look s h)"
proof (induction hs arbitrary: s)
  case Nil
  then show ?case by simp
next
  case (Cons h hs)
  obtain e where "look s h = Some e" "idle e" using Cons.prems(3) by auto
  then obtain t where t: "free h s = Ok t" "ok t" "look t = (look s)(h := None)"
    using free_law [OF Cons.prems(1)] by blast
  have "\<forall>x\<in>set hs. \<exists>e. look t x = Some e \<and> idle e"
    using Cons.prems(2,3) by (auto simp: t(3))
  then obtain s' where "free_all free hs t = Ok s'" "ok s'"
    "look s' = (\<lambda>x. if x \<in> set hs then None else look t x)"
    using Cons.IH [OF t(2)] Cons.prems(2) by auto
  then show ?case by (intro exI [of _ s']) (auto simp: t fun_eq_iff)
qed

lemma add_all_free_all:
  assumes "ok s" and "list_all valid as" and "add_all add as s = Ok (hs, t)"
  shows "\<exists>s'. free_all free hs t = Ok s' \<and> ok s' \<and> look s' = look s"
proof -
  note fresh = add_all_fresh [OF assms]
  have "\<forall>h\<in>set hs. \<exists>e. look t h = Some e \<and> idle e"
  proof
    fix h assume "h \<in> set hs"
    then obtain i where "i < length hs" "h = hs ! i" by (auto simp: in_set_conv_nth)
    then show "\<exists>e. look t h = Some e \<and> idle e"
      using fresh list_all2_nthD2 [of _ as hs i] by blast
  qed
  then obtain s' where s': "free_all free hs t = Ok s'" "ok s'"
    "look s' = (\<lambda>h. if h \<in> set hs then None else look t h)"
    using free_all_restores [OF add_all_ok [OF assms]] fresh by blast
  have "look s x = None" if "x \<in> set hs" for x using fresh that by blast
  then have "look s' = look s" using fresh by (auto simp: s'(3) fun_eq_iff)
  then show ?thesis using s' by blast
qed

end

definition add_handle :: "constants \<Rightarrow> mana_mpi_handle \<times> descriptor \<times> nat \<Rightarrow> vtable \<Rightarrow> (int32 \<times> vtable) result" where
  "add_handle ctab = (\<lambda>(real, d, kind) s.
     bind_result (add_virt_id ctab real d kind s) (\<lambda>(v, s). Ok (ucast v, s)))"

interpretation vt: handle_table "vtable_ok ctab" handle_map "add_handle ctab"
  "\<lambda>h. free_virt_id wide (ucast h)" "\<lambda>(real, d, kind). kind \<in> {1..6}"
  "\<lambda>(real, d, kind) e. real_id e = real \<and> desc e = d \<and> handle_kind (virt e) = int kind"
  "\<lambda>e. req_type (call e) = UNKNOW_REQUEST"
  for ctab wide
proof (unfold_locales, goal_cases)
  case (1 s a h s')
  obtain real d kind where a: "a = (real, d, kind)" by (cases a)
  obtain v where v: "add_virt_id ctab real d kind s = Ok (v, s')" "h = ucast v"
    using 1(3) by (auto simp: add_handle_def a bind_result_Ok_iff)
  have kind: "kind \<in> {1..6}" using 1(2) by (simp add: a)
  show ?case
    by (rule add_virt_id_map [OF 1(1) v(1) kind]) (use a v(2) in \<open>auto simp: ucast_handle\<close>)
next
  case (2 s h e)
  then show ?case by (metis free_virt_id_map)
qed

subsection \<open>Properties of the table\<close>

lemma lookup_handle_map:
  "lookup_virt_id_entry wide s (ucast h) = lookup_virt_id_entry False s (ucast h)"
  "handle_map s h = Some e \<Longrightarrow> \<exists>i. lookup_virt_id_entry wide s (ucast h) = Some i \<and> slot_entry s i = e"
  "lookup_virt_id_entry wide s (ucast h) = None \<longleftrightarrow> handle_map s h = None"
proof -
  show eq: "lookup_virt_id_entry wide s (ucast h) = lookup_virt_id_entry False s (ucast h)"
    unfolding lookup_virt_id_entry_def ucast_handle by (simp only: simp_thms if_False)
  show "handle_map s h = Some e \<Longrightarrow> \<exists>i. lookup_virt_id_entry wide s (ucast h) = Some i \<and> slot_entry s i = e"
    unfolding eq handle_map_def by auto
  show "lookup_virt_id_entry wide s (ucast h) = None \<longleftrightarrow> handle_map s h = None"
    unfolding eq handle_map_def by simp
qed

lemma handle_map_real_desc:
  assumes "handle_map s h = Some e"
  shows "get_real_id wide ctab s (ucast h) = Ok (real_id e)"
    and "get_virt_id_desc wide ctab s (ucast h) = Ok (desc e)"
  using lookup_handle_map(2) [OF assms, of wide] by (auto simp: get_real_id_def get_virt_id_desc_def)

text \<open>C3. A new virtual handle is not in use, translates to the real handle it was made for, and leaves
  every other handle as it was.\<close>

theorem add_virt_id_fresh:
  assumes "vtable_ok ctab s" and "kind \<in> {1..6}" and "add_virt_id ctab real d kind s = Ok (v, s')"
  shows "vtable_ok ctab s' \<and> lookup_virt_id_entry wide s v = None \<and>
    get_real_id wide ctab s' v = Ok real \<and> get_virt_id_desc wide ctab s' v = Ok d \<and>
    (\<forall>h. ucast h \<noteq> v \<longrightarrow> handle_map s' h = handle_map s h)"
proof -
  obtain h e where h: "v = ucast h" "vtable_ok ctab s'" "handle_map s h = None"
    "handle_map s' = (handle_map s)(h \<mapsto> e)" "real_id e = real" "desc e = d"
    by (rule add_virt_id_map [OF assms(1,3,2)])
  then have e: "handle_map s' h = Some e" by simp
  show ?thesis
    using h(2,3,4) handle_map_real_desc [OF e] lookup_handle_map(3) [of wide s h]
    unfolding h(1,5,6) by auto
qed

lemma add_first:
  "\<exists>s'. add_virt_id no_constants 0x44000000 NoDesc 5 empty_vtable = Ok (0x50000000, s')"
  by (simp add: add_virt_id_def alloc_slot_def empty_vtable_def skip_reserved.simps slot_is_reserved_def
      no_constants_def make_handle_def Let_def slot_entry_def zero_entry_def chunk_of_def)

theorem add_virt_id_fresh_witness:
  "\<exists>s'. add_virt_id no_constants 0x44000000 NoDesc 5 empty_vtable = Ok (0x50000000, s') \<and>
        vtable_ok no_constants s' \<and> get_real_id True no_constants s' 0x50000000 = Ok 0x44000000"
proof -
  obtain s' where s': "add_virt_id no_constants 0x44000000 NoDesc 5 empty_vtable = Ok (0x50000000, s')"
    using add_first by blast
  have "(5::nat) \<in> {1..6}" by simp
  then show ?thesis using s' add_virt_id_fresh [OF vtable_ok_empty _ s', of True] by blast
qed

text \<open>C4. Freeing a handle of an object with no pending call makes that handle invalid, and no other;
  freeing an invalid handle aborts, and freeing a request whose call is still in the log of pending
  calls fails the assertion.\<close>

theorem free_virt_id_exact:
  assumes "vtable_ok ctab s"
  shows "case handle_map s h of
      None \<Rightarrow> free_virt_id wide (ucast h) s = Fault Abort
    | Some e \<Rightarrow>
        if req_type (call e) \<noteq> UNKNOW_REQUEST then free_virt_id wide (ucast h) s = Fault Assert_failed
        else (\<exists>s'. free_virt_id wide (ucast h) s = Ok s' \<and> vtable_ok ctab s' \<and>
               handle_map s' = (handle_map s)(h := None))"
proof (cases "handle_map s h")
  case None
  then show ?thesis using lookup_handle_map(3) [of wide s h] by (simp add: free_virt_id_def)
next
  case (Some e)
  then obtain i where "lookup_virt_id_entry wide s (ucast h) = Some i" "slot_entry s i = e"
    using lookup_handle_map(2) by blast
  then have "req_type (call e) \<noteq> UNKNOW_REQUEST \<Longrightarrow> free_virt_id wide (ucast h) s = Fault Assert_failed"
    by (simp add: free_virt_id_def Let_def)
  moreover have "\<exists>s'. free_virt_id wide (ucast h) s = Ok s' \<and> vtable_ok ctab s' \<and>
      handle_map s' = (handle_map s)(h := None)" if "req_type (call e) = UNKNOW_REQUEST"
    by (rule free_virt_id_map [OF assms Some that, of wide]) blast
  ultimately show ?thesis using Some by simp
qed

theorem free_virt_id_exact_witness:
  "free_virt_id True 0x50000000 empty_vtable = Fault Abort \<and>
   (\<exists>s s'. add_virt_id no_constants 0x44000000 NoDesc 5 empty_vtable = Ok (0x50000000, s) \<and>
      free_virt_id True 0x50000000 s = Ok s' \<and> handle_map s' 0x50000000 = None)"
proof -
  obtain s where s: "add_virt_id no_constants 0x44000000 NoDesc 5 empty_vtable = Ok (0x50000000, s)"
    using add_first by blast
  have k: "(5::nat) \<in> {1..6}" by simp
  obtain h e where h: "0x50000000 = (ucast h :: int64)" "vtable_ok no_constants s"
    "handle_map s = (handle_map empty_vtable)(h \<mapsto> e)" "req_type (call e) = UNKNOW_REQUEST"
    by (rule add_virt_id_map [OF vtable_ok_empty s k])
  have "handle_map empty_vtable h = None"
    by (simp add: handle_map_def lookup_virt_id_entry_def empty_vtable_def Let_def)
  then have "free_virt_id True (ucast h) empty_vtable = Fault Abort"
    using free_virt_id_exact [OF vtable_ok_empty [of no_constants], where h = h and wide = True] by simp
  moreover have "\<exists>s'. free_virt_id True (ucast h) s = Ok s' \<and> handle_map s' h = None"
    using free_virt_id_exact [OF h(2), where h = h and wide = True] h(3,4) by auto
  moreover have "ucast (0x50000000 :: int32) = (0x50000000 :: int64)" by simp
  then have "h = 0x50000000" using h(1) ucast_handle(2) [of h] ucast_handle(2) [of "0x50000000"] by metis
  ultimately show ?thesis using s h(1) by metis
qed

lemma constant_reserved_lookup:
  assumes inv: "vtable_inv ctab s fl out" and reserved: "constant_reserved wide ctab (constant_key wide v)"
  shows "lookup_virt_id_entry wide s v = None"
proof (rule ccontr)
  assume "lookup_virt_id_entry wide s v \<noteq> None"
  define h where "h = (ucast v :: int32)"
  obtain i where high: "wide \<longrightarrow> drop_bit 32 v = 0" and look: "lookup_virt_id_entry wide s (ucast h) = Some i"
    using \<open>_ \<noteq> None\<close> unfolding lookup_any [of wide s v] h_def by (auto split: if_splits)
  have i: "1 \<le> unat h div 2 ^ 28" "unat h div 2 ^ 28 \<le> 6" "i = unat h mod 2 ^ 24"
    using look unfolding lookup_handle_iff by blast+
  have "\<not> slot_is_reserved ctab i"
    using look lookup_live_iff [OF inv] slot_ok_handle [OF inv] by metis
  have narrow: "(if wide then constant_key wide v else ucast (ucast (constant_key wide v) :: int32)) = ucast h"
    using high ucast_ucast_low [of v] by (auto simp: constant_key_def ucast_scast_32 h_def)
  have "(ucast (drop_bit 28 (ucast h :: int64)) :: int32) - 1 < 6"
    unfolding kind_range unat_ucast_drop_bit using i by simp
  then have "handle_like wide (constant_key wide v)"
    using narrow ucast_handle(1) [of h] by (cases wide) (simp_all add: handle_like_def Let_def)
  then have "slot_is_reserved ctab (unat ((ucast h :: int64) AND 0xffffff))"
    using reserved unfolding constant_reserved_def narrow by blast
  then have "slot_is_reserved ctab i" unfolding unat_slot_mask unat_ucast_64 i(3) .
  then show False using \<open>\<not> slot_is_reserved ctab i\<close> by blast
qed

text \<open>C5. No predefined constant is taken for a virtual handle: whatever handles are in use, looking up
  a constant finds no entry, and the constant translates to the lower half's value.\<close>

theorem constant_is_not_virtual:
  assumes "constants_ok c" and "dom (const_map c) \<subseteq> mpi ` snd ` set predefined_names"
    and "\<forall>a b. mpi a = mpi b \<longrightarrow> mana a = mana b"
    and "init_predefined_virt_ids wide c2f Comm_group mpi mana c = Some (Ok ctab)"
    and "vtable_ok ctab s" and "name \<in> snd ` set predefined_names" and "constant_key wide v = mpi name"
  shows "lookup_virt_id_entry wide s v = None \<and> get_real_id wide ctab s v = Ok (mana name)"
proof -
  obtain t where t: "init_predefined_virt_ids wide c2f Comm_group mpi mana c = Some (Ok t)" "constants_ok t"
    "const_map t = const_map c ++ map_of (rev (map (constant_of c2f mpi mana) predefined_names))"
    "\<forall>name\<in>snd ` set predefined_names. constant_reserved wide t (mpi name)"
    by (rule init_predefined_ok [OF assms(1,2)])
  have t_eq: "t = ctab" using t(1) assms(4) by simp
  have "mana a = mana b" if "mpi a = mpi b" for a b using assms(3) that by blast
  then obtain k where k: "const_map ctab (mpi name) = Some k" "c_lower k = mana name"
    using const_map_after_init [OF t(3) _ assms(6)] unfolding t_eq by metis
  obtain fl where "vtable_inv ctab s fl {}" using assms(5) by (auto simp: vtable_ok_def)
  then have none: "lookup_virt_id_entry wide s v = None"
    using constant_reserved_lookup t(4) assms(6,7) unfolding t_eq by metis
  then show ?thesis
    using k find_constant_Some [OF t(2)] unfolding t_eq
    by (simp add: get_real_id_def get_real_id_slow_def assms(7))
qed

theorem constant_is_not_virtual_witness:
  "\<exists>ctab. init_predefined_virt_ids True (\<lambda>kind l. ucast l) id (\<lambda>n. of_nat (length n))
            (\<lambda>n. of_nat (length n) + 7) no_constants = Some (Ok ctab) \<and>
          get_real_id True ctab empty_vtable 3 = Ok 10"
proof -
  define mpi :: "string \<Rightarrow> int64" where "mpi = (\<lambda>n. of_nat (length n))"
  define mana :: "string \<Rightarrow> int64" where "mana = (\<lambda>n. of_nat (length n) + 7)"
  have max: "''MAX'' \<in> snd ` set predefined_names" by code_simp
  have dom: "dom (const_map no_constants) \<subseteq> mpi ` snd ` set predefined_names"
    by (simp add: constants_ok_no_constants(2))
  have ali: "\<forall>a b. mpi a = mpi b \<longrightarrow> mana a = mana b"
    unfolding mpi_def mana_def by (intro allI impI) (rule arg_cong)
  obtain ctab where c: "init_predefined_virt_ids True (\<lambda>kind l. ucast l) id mpi mana no_constants = Some (Ok ctab)"
    by (rule init_predefined_ok [OF constants_ok_no_constants(1) dom])
  have "constant_key True 3 = mpi ''MAX''" by (simp add: constant_key_def mpi_def)
  note constant_is_not_virtual [where mpi = mpi and mana = mana, OF constants_ok_no_constants(1) dom ali c
      vtable_ok_empty max this]
  then have "get_real_id True ctab empty_vtable 3 = Ok 10" by (simp add: mana_def)
  then show ?thesis using c unfolding mpi_def mana_def by (intro exI conjI)
qed

subsection \<open>Stale handles\<close>

text \<open>Sequences of additions and frees.\<close>

datatype table_op = AddOp mana_mpi_handle descriptor nat | FreeOp int32

fun table_step :: "bool \<Rightarrow> constants \<Rightarrow> table_op \<Rightarrow> vtable \<Rightarrow> vtable result" where
  "table_step wide ctab (AddOp real d kind) s = bind_result (add_virt_id ctab real d kind s) (\<lambda>(v, s). Ok s)"
| "table_step wide ctab (FreeOp h) s = free_virt_id wide (ucast h) s"

fun table_run :: "bool \<Rightarrow> constants \<Rightarrow> table_op list \<Rightarrow> vtable \<Rightarrow> vtable result" where
  "table_run wide ctab [] s = Ok s"
| "table_run wide ctab (x # xs) s = bind_result (table_step wide ctab x s) (table_run wide ctab xs)"

fun op_valid :: "table_op \<Rightarrow> bool" where
  "op_valid (AddOp real d kind) \<longleftrightarrow> kind \<in> {1..6}"
| "op_valid (FreeOp h) \<longleftrightarrow> True"

fun frees_slot :: "nat \<Rightarrow> table_op \<Rightarrow> bool" where
  "frees_slot i (AddOp real d kind) \<longleftrightarrow> False"
| "frees_slot i (FreeOp h) \<longleftrightarrow> unat h mod 2 ^ 24 = i"

lemma free_virt_id_gen:
  fixes h :: int32
  assumes inv: "vtable_inv ctab s fl {}" and free: "free_virt_id wide (ucast h) s = Ok s'"
  shows "gen (slot_entry s' j) = gen (slot_entry s j) + (if unat h mod 2 ^ 24 = j then 1 else 0)"
proof -
  obtain i where look: "lookup_virt_id_entry wide s (ucast h) = Some i"
    using free by (auto simp: free_virt_id_def split: option.splits)
  have i: "i = unat h mod 2 ^ 24" "has_chunk s i" using look unfolding lookup_handle_iff by blast+
  let ?t = "free_desc (desc (slot_entry s i)) (handle_kind h) s"
  have t: "virt_id_chunks ?t = virt_id_chunks s"
    by (auto simp: free_desc_def split: descriptor.split)
  have chunk: "has_chunk ?t k = has_chunk s k" for k by (simp add: has_chunk_def t)
  have "slot_entry s' = (slot_entry s)(i := (slot_entry s i) \<lparr> gen := gen (slot_entry s i) + 1, virt := 0,
      desc := NoDesc, next_free := virt_id_free_head s \<rparr>)"
    using free i(2) slot_entry_cong [OF t]
    by (auto simp: free_virt_id_def look Let_def ucast_handle fun_eq_iff table_simps chunk split: if_splits)
  then show ?thesis using i(1) by auto
qed

lemma table_step_gen:
  assumes ok: "vtable_ok ctab s" and op: "op_valid x" and step: "table_step wide ctab x s = Ok s'"
  shows "vtable_ok ctab s' \<and> gen (slot_entry s' i) = gen (slot_entry s i) + (if frees_slot i x then 1 else 0)"
proof -
  obtain fl where inv: "vtable_inv ctab s fl {}" using ok by (auto simp: vtable_ok_def)
  show ?thesis
  proof (cases x)
    case (AddOp real d kind)
    then obtain v where add: "add_virt_id ctab real d kind s = Ok (v, s')" and kind: "kind \<in> {1..6}"
      using step op by (auto simp: bind_result_Ok_iff)
    show ?thesis
      by (rule add_virt_id_spec [OF inv add kind]) (auto simp: AddOp vtable_ok_def new_entry_def)
  next
    case (FreeOp h)
    then have free: "free_virt_id wide (ucast h) s = Ok s'" using step by simp
    then obtain i' where "lookup_virt_id_entry wide s (ucast h) = Some i'"
      "req_type (call (slot_entry s i')) = UNKNOW_REQUEST"
      by (auto simp: free_virt_id_def Let_def split: option.splits if_splits)
    then have e: "handle_map s h = Some (slot_entry s i')" "req_type (call (slot_entry s i')) = UNKNOW_REQUEST"
      unfolding handle_map_def lookup_handle_map(1) [of wide] by simp_all
    have "vtable_ok ctab s'"
      by (rule free_virt_id_map [OF ok e, where wide = wide]) (use free in simp)
    then show ?thesis using free_virt_id_gen [OF inv free, of i] by (simp add: FreeOp)
  qed
qed

lemma table_run_gen:
  "vtable_ok ctab s \<Longrightarrow> list_all op_valid xs \<Longrightarrow> table_run wide ctab xs s = Ok s' \<Longrightarrow>
   vtable_ok ctab s' \<and> gen (slot_entry s' i) = gen (slot_entry s i) + of_nat (length (filter (frees_slot i) xs))"
proof (induction xs arbitrary: s)
  case (Cons x xs)
  then obtain t where t: "table_step wide ctab x s = Ok t" "table_run wide ctab xs t = Ok s'"
    by (auto simp: bind_result_Ok_iff)
  have "vtable_ok ctab t" "gen (slot_entry t i) = gen (slot_entry s i) + (if frees_slot i x then 1 else 0)"
    using table_step_gen [OF Cons.prems(1) _ t(1)] Cons.prems(2) by simp_all
  then show ?case using Cons.IH [OF _ _ t(2)] Cons.prems(2) by simp
qed simp

lemma generations_differ:
  assumes "1 \<le> n" and "n \<le> 15"
  shows "unat (g + of_nat n :: int32) mod 16 \<noteq> unat g mod 16"
proof -
  have "unat (g + of_nat n) mod 16 = (unat g + n) mod 2 ^ 32 mod 16"
    using assms by (simp add: unat_word_ariths unat_of_nat)
  also have "\<dots> = (unat g + n) mod 16" by (rule mod_mod_cancel) simp
  also have "\<dots> \<noteq> unat g mod 16"
  proof
    assume "(unat g + n) mod 16 = unat g mod 16"
    then have "16 dvd n" by (metis add_diff_cancel_left' le_add1 mod_eq_dvd_iff_nat)
    then show False using assms by (auto dest: dvd_imp_le)
  qed
  finally show ?thesis .
qed

text \<open>C6. A freed handle stays invalid whatever the application makes and frees afterwards, as long as
  its slot is freed fewer than fifteen more times.\<close>

theorem stale_handle_detected:
  assumes "vtable_ok ctab s" and "list_all op_valid xs" and "table_run wide ctab (FreeOp h # xs) s = Ok s'"
    and "length (filter (frees_slot (unat h mod 2 ^ 24)) xs) < 15"
  shows "lookup_virt_id_entry wide s' (ucast h) = None"
proof (rule ccontr)
  let ?i = "unat h mod 2 ^ 24" and ?n = "length (filter (frees_slot (unat h mod 2 ^ 24)) xs)"
  assume "lookup_virt_id_entry wide s' (ucast h) \<noteq> None"
  then obtain j where look': "lookup_virt_id_entry wide s' (ucast h) = Some j" by blast
  obtain fl where inv: "vtable_inv ctab s fl {}" using assms(1) by (auto simp: vtable_ok_def)
  obtain i where look: "lookup_virt_id_entry wide s (ucast h) = Some i"
    using assms(3) by (auto simp: bind_result_Ok_iff free_virt_id_def split: option.splits)
  have run: "vtable_ok ctab s'" "gen (slot_entry s' ?i) = gen (slot_entry s ?i) + of_nat (?n + 1)"
    using table_run_gen [OF assms(1) _ assms(3), of ?i] assms(2) by (simp_all add: algebra_simps)
  obtain fl' where inv': "vtable_inv ctab s' fl' {}" using run(1) by (auto simp: vtable_ok_def)
  have ij: "i = ?i" "j = ?i" using look look' unfolding lookup_handle_iff by blast+
  obtain k where k: "k \<in> {1..6}" "h = make_handle k (gen (slot_entry s ?i)) ?i" "?i < 2 ^ 24"
    using slot_ok_handle [OF inv, of ?i] look unfolding lookup_live_iff [OF inv] ij(1) by metis
  obtain k' where k': "k' \<in> {1..6}" "h = make_handle k' (gen (slot_entry s' ?i)) ?i"
    using slot_ok_handle [OF inv', of ?i] look' unfolding lookup_live_iff [OF inv'] ij(2) by metis
  have "unat (gen (slot_entry s ?i)) mod 16 = unat (gen (slot_entry s' ?i)) mod 16"
  proof -
    have "k < 16" "k' < 16" using k(1) k'(1) by simp_all
    then show ?thesis
      using make_handle_parts(3) [of k ?i "gen (slot_entry s ?i)", folded k(2)]
        make_handle_parts(3) [of k' ?i "gen (slot_entry s' ?i)", folded k'(2)] k(3) by simp
  qed
  then show False using generations_differ [of "?n + 1" "gen (slot_entry s ?i)"] assms(4) run(2) by simp
qed

text \<open>One object is freed and another of the same kind is made, again and again.\<close>

fun recycle ::
  "bool \<Rightarrow> constants \<Rightarrow> mana_mpi_handle \<Rightarrow> nat \<Rightarrow> nat \<Rightarrow> mana_mpi_handle \<Rightarrow> vtable \<Rightarrow> (mana_mpi_handle \<times> vtable) result"
where
  "recycle wide ctab real kind 0 h s = Ok (h, s)"
| "recycle wide ctab real kind (Suc n) h s =
     bind_result (free_virt_id wide h s) (\<lambda>s.
       bind_result (add_virt_id ctab real NoDesc kind s) (\<lambda>(h, s). recycle wide ctab real kind n h s))"

lemma free_add_same_slot:
  assumes ok: "vtable_ok ctab s" and h: "handle_map s (make_handle k g i) = Some e"
    and idle: "req_type (call e) = UNKNOW_REQUEST" and g: "gen (slot_entry s i) = g"
    and k: "k \<in> {1..6}" and i: "i < 2 ^ 24"
  obtains s1 s2 e' where "free_virt_id wide (ucast (make_handle k g i)) s = Ok s1"
    and "add_virt_id ctab real NoDesc k s1 = Ok (ucast (make_handle k (g + 1) i), s2)"
    and "vtable_ok ctab s2" and "handle_map s2 (make_handle k (g + 1) i) = Some e'"
    and "req_type (call e') = UNKNOW_REQUEST" and "real_id e' = real" and "gen (slot_entry s2 i) = g + 1"
proof -
  obtain fl where inv: "vtable_inv ctab s fl {}" using ok by (auto simp: vtable_ok_def)
  have slot: "unat (make_handle k g i) mod 2 ^ 24 = i"
    using make_handle_parts(2) [of k i g] k i by simp
  obtain s1 where s1: "free_virt_id wide (ucast (make_handle k g i)) s = Ok s1" "vtable_ok ctab s1"
    "virt_id_free_head s1 = int i"
    by (rule free_virt_id_map [OF ok h idle, where wide = wide]) (simp only: slot)
  have g1: "gen (slot_entry s1 i) = g + 1" using free_virt_id_gen [OF inv s1(1), of i] slot g by simp
  define v where "v = (ucast (make_handle k (g + 1) i) :: int64)"
  obtain s2 where s2: "add_virt_id ctab real NoDesc k s1 = Ok (v, s2)"
    using s1(3) by (simp add: add_virt_id_def alloc_slot_def Let_def g1 v_def)
  obtain h' e' where h': "v = ucast h'" "vtable_ok ctab s2" "handle_map s2 = (handle_map s1)(h' \<mapsto> e')"
    "real_id e' = real" "req_type (call e') = UNKNOW_REQUEST"
    by (rule add_virt_id_map [OF s1(2) s2 k])
  have "h' = make_handle k (g + 1) i" using h'(1) ucast_handle(2) unfolding v_def by metis
  moreover have "gen (slot_entry s2 i) = g + 1"
    using table_step_gen [OF s1(2), of "AddOp real NoDesc k" False s2 i] s2 k g1 by simp
  ultimately show ?thesis using that [OF s1(1) s2 [unfolded v_def] h'(2)] h' by simp
qed

lemma recycle_run:
  assumes "vtable_ok ctab s" and "handle_map s (make_handle k g i) = Some e"
    and "req_type (call e) = UNKNOW_REQUEST" and "gen (slot_entry s i) = g" and "k \<in> {1..6}" and "i < 2 ^ 24"
  shows "\<exists>s' e'. recycle wide ctab real k n (ucast (make_handle k g i)) s =
      Ok (ucast (make_handle k (g + of_nat n) i), s') \<and>
    handle_map s' (make_handle k (g + of_nat n) i) = Some e' \<and> (0 < n \<longrightarrow> real_id e' = real)"
  using assms
proof (induction n arbitrary: s g e)
  case 0
  then show ?case by auto
next
  case (Suc n)
  obtain s1 s2 e' where s: "free_virt_id wide (ucast (make_handle k g i)) s = Ok s1"
    "add_virt_id ctab real NoDesc k s1 = Ok (ucast (make_handle k (g + 1) i), s2)"
    "vtable_ok ctab s2" "handle_map s2 (make_handle k (g + 1) i) = Some e'"
    "req_type (call e') = UNKNOW_REQUEST" "real_id e' = real" "gen (slot_entry s2 i) = g + 1"
    by (rule free_add_same_slot [OF Suc.prems])
  have g: "g + 1 + of_nat n = g + of_nat (Suc n)" by simp
  obtain s' e'' where "recycle wide ctab real k n (ucast (make_handle k (g + 1) i)) s2 =
      Ok (ucast (make_handle k (g + of_nat (Suc n)) i), s')"
    "handle_map s' (make_handle k (g + of_nat (Suc n)) i) = Some e''" "0 < n \<longrightarrow> real_id e'' = real"
    using Suc.IH [OF s(3,4,5,7) Suc.prems(5,6)] unfolding g by blast
  moreover have "real_id e'' = real" if "n = 0"
    using calculation s(4,6) that by simp
  ultimately show ?case using s(1,2) by auto
qed

lemma first_object:
  obtains s e where "add_virt_id no_constants real NoDesc 5 empty_vtable = Ok (0x50000000, s)"
    and "vtable_ok no_constants s" and "handle_map s (make_handle 5 0 0) = Some e"
    and "req_type (call e) = UNKNOW_REQUEST" and "gen (slot_entry s 0) = 0" and "real_id e = real"
proof -
  have first: "\<exists>s. add_virt_id no_constants real NoDesc 5 empty_vtable = Ok (0x50000000, s)"
    by (simp add: add_virt_id_def alloc_slot_def empty_vtable_def skip_reserved.simps slot_is_reserved_def
        no_constants_def make_handle_def Let_def slot_entry_def zero_entry_def chunk_of_def)
  then obtain s where s: "add_virt_id no_constants real NoDesc 5 empty_vtable = Ok (0x50000000, s)" ..
  have k: "(5::nat) \<in> {1..6}" by simp
  obtain h e where h: "0x50000000 = (ucast h :: int64)" "vtable_ok no_constants s"
    "handle_map s = (handle_map empty_vtable)(h \<mapsto> e)" "real_id e = real" "req_type (call e) = UNKNOW_REQUEST"
    by (rule add_virt_id_map [OF vtable_ok_empty s k])
  have c: "ucast (make_handle 5 0 0) = (0x50000000 :: int64)" by (simp add: make_handle_def)
  have "h = make_handle 5 0 0" using h(1) c ucast_handle(2) by metis
  moreover have "gen (slot_entry s 0) = 0"
    using table_step_gen [OF vtable_ok_empty [of no_constants], of "AddOp real NoDesc 5" False s 0] s
    by (simp add: zero_entry_def)
  ultimately show ?thesis using that [OF s h(2)] h by simp
qed

lemma make_first_handle: "make_handle 5 0 0 = 0x50000000"
  by (simp add: make_handle_def)

theorem stale_handle_detected_witness:
  "\<exists>s s'. add_virt_id no_constants 7 NoDesc 5 empty_vtable = Ok (0x50000000, s) \<and>
     table_run True no_constants [FreeOp 0x50000000, AddOp 8 NoDesc 5] s = Ok s' \<and>
     lookup_virt_id_entry True s' (ucast (0x50000000 :: int32)) = None"
proof -
  obtain s e where s: "add_virt_id no_constants 7 NoDesc 5 empty_vtable = Ok (0x50000000, s)"
    "vtable_ok no_constants s" "handle_map s (make_handle 5 0 0) = Some e"
    "req_type (call e) = UNKNOW_REQUEST" "gen (slot_entry s 0) = 0"
    by (rule first_object)
  obtain s1 s2 where "free_virt_id True (ucast (make_handle 5 0 0)) s = Ok s1"
    "add_virt_id no_constants 8 NoDesc 5 s1 = Ok (ucast (make_handle 5 (0 + 1) 0), s2)"
    by (rule free_add_same_slot [OF s(2-5)]) simp_all
  then have run: "table_run True no_constants [FreeOp (make_handle 5 0 0), AddOp 8 NoDesc 5] s = Ok s2" by simp
  have "lookup_virt_id_entry True s2 (ucast (make_handle 5 0 0)) = None"
    by (rule stale_handle_detected [OF s(2) _ run]) simp_all
  then show ?thesis using s(1) run unfolding make_first_handle by blast
qed

text \<open>C7. The generation of a slot has four bits, so a freed handle comes back: when an object is freed
  and another of its kind is made sixteen times in a row, the sixteenth has the handle of the first,
  and the application's stale handle then names the new object.\<close>

theorem sixteenth_reuse_recurs:
  assumes "vtable_ok ctab s" and "handle_map s h = Some e" and "req_type (call e) = UNKNOW_REQUEST"
    and "handle_kind h = int kind"
  shows "\<exists>s'. recycle wide ctab real kind 16 (ucast h) s = Ok (ucast h, s') \<and>
              get_real_id wide ctab s' (ucast h) = Ok real"
proof -
  obtain fl where inv: "vtable_inv ctab s fl {}" using assms(1) by (auto simp: vtable_ok_def)
  obtain i where i: "slot_entry s i = e" "virt e = h" "live s i"
    using assms(2) handle_map_iff [OF inv] by (auto simp: live_def)
  obtain k where k: "k \<in> {1..6}" "h = make_handle k (gen (slot_entry s i)) i" "i < 2 ^ 24"
    using slot_ok_handle [OF inv i(3)] i(1,2) by metis
  have "kind = k" using assms(4) handle_kind_make_handle [of k i] k by simp
  let ?g = "gen (slot_entry s i)"
  have "unat (?g + 16) mod 16 = (unat ?g + 16) mod 2 ^ 32 mod 16" by (simp add: unat_word_ariths)
  also have "\<dots> = (unat ?g + 16) mod 16" by (rule mod_mod_cancel) simp
  finally have "unat (?g + 16) mod 16 = unat ?g mod 16" by simp
  then have "unat (make_handle k (?g + 16) i) = unat h"
    using k unat_make_handle [of k i ?g] unat_make_handle [of k i "?g + 16"] by simp
  then have same: "make_handle k (?g + of_nat 16) i = h" by (simp add: word_unat_eq_iff)
  obtain s' e' where "recycle wide ctab real k 16 (ucast h) s = Ok (ucast h, s')"
    "handle_map s' h = Some e'" "real_id e' = real"
    using recycle_run [OF assms(1) assms(2) [unfolded k(2)] assms(3) refl k(1,3), of wide real 16]
    unfolding same by (auto simp flip: k(2))
  then show ?thesis using handle_map_real_desc(1) \<open>kind = k\<close> by blast
qed

theorem sixteenth_reuse_recurs_witness:
  "\<exists>s s'. add_virt_id no_constants 7 NoDesc 5 empty_vtable = Ok (0x50000000, s) \<and>
     recycle True no_constants 8 5 16 (ucast (0x50000000 :: int32)) s = Ok (ucast (0x50000000 :: int32), s') \<and>
     get_real_id True no_constants s' (ucast (0x50000000 :: int32)) = Ok 8"
proof -
  obtain s e where s: "add_virt_id no_constants 7 NoDesc 5 empty_vtable = Ok (0x50000000, s)"
    "vtable_ok no_constants s" "handle_map s (make_handle 5 0 0) = Some e"
    "req_type (call e) = UNKNOW_REQUEST" "gen (slot_entry s 0) = 0"
    by (rule first_object)
  have "handle_kind (make_handle 5 0 0) = int 5" by (rule handle_kind_make_handle) simp_all
  from sixteenth_reuse_recurs [OF s(2-4) this, of True 8] s(1) show ?thesis
    unfolding make_first_handle by blast
qed



end
