(* ===== verification/Lower_Calls.thy ===== *)
theory Lower_Calls
  imports Virtual_Id
begin

text \<open>
  Calls to the MPI library of the lower half.  The library is not part of the repository, so it is a
  parameter: a function \<open>lh\<close> that takes the name of an MPI function without its prefix (as
  \<^verbatim>\<open>NEXT_FUNC\<close> does), its input arguments and the library's state, and gives the return code, the output
  arguments and the new state.  The state type \<open>'l\<close> is arbitrary.  \<^verbatim>\<open>JUMP_TO_LOWER_HALF\<close> and
  \<^verbatim>\<open>RETURN_TO_UPPER_HALF\<close> switch the thread register and have no effect on the data modelled here.
\<close>

datatype lval =
    VInt int
  | VHandle mana_mpi_handle
  | VPtr int64
  | VInts "int list"
  | VHandles "mana_mpi_handle list"
  | VStatus mpi_status

type_synonym 'l lower = "string \<Rightarrow> lval list \<Rightarrow> 'l \<Rightarrow> (int \<times> lval list) \<times> 'l"

abbreviation (input) MPI_SUCCESS :: int where "MPI_SUCCESS \<equiv> 0"

text \<open>Output arguments by position; a missing output reads as zero.\<close>

fun the_int :: "lval list \<Rightarrow> nat \<Rightarrow> int" where
  "the_int (VInt n # vs) 0 = n"
| "the_int (v # vs) (Suc k) = the_int vs k"
| "the_int _ _ = 0"

fun the_handle :: "lval list \<Rightarrow> nat \<Rightarrow> mana_mpi_handle" where
  "the_handle (VHandle h # vs) 0 = h"
| "the_handle (v # vs) (Suc k) = the_handle vs k"
| "the_handle _ _ = 0"

fun the_ints :: "lval list \<Rightarrow> nat \<Rightarrow> int list" where
  "the_ints (VInts ns # vs) 0 = ns"
| "the_ints (v # vs) (Suc k) = the_ints vs k"
| "the_ints _ _ = []"

fun the_status :: "lval list \<Rightarrow> nat \<Rightarrow> mpi_status" where
  "the_status (VStatus st # vs) 0 = st"
| "the_status (v # vs) (Suc k) = the_status vs k"
| "the_status _ _ = zero_status"

fun the_ptr :: "lval list \<Rightarrow> nat \<Rightarrow> int64" where
  "the_ptr (VPtr p # vs) 0 = p"
| "the_ptr (v # vs) (Suc k) = the_ptr vs k"
| "the_ptr _ _ = 0"

fun the_handles :: "lval list \<Rightarrow> nat \<Rightarrow> mana_mpi_handle list" where
  "the_handles (VHandles hs # vs) 0 = hs"
| "the_handles (v # vs) (Suc k) = the_handles vs k"
| "the_handles _ _ = []"

text \<open>An output argument that was initialized before the call keeps its value if the library does not
  write it.\<close>

definition out_int :: "int \<Rightarrow> lval list \<Rightarrow> nat \<Rightarrow> int" where
  "out_int old outs k = (if k < length outs then the_int outs k else old)"

definition out_handle :: "mana_mpi_handle \<Rightarrow> lval list \<Rightarrow> nat \<Rightarrow> mana_mpi_handle" where
  "out_handle old outs k = (if k < length outs then the_handle outs k else old)"

end
