(* ===== verification/Collective_Clock.thy ===== *)
theory Collective_Clock
  imports Lower_Calls
begin

text \<open>
  The Collective Clock (\<^verbatim>\<open>seq_num.cpp\<close>) on one process: a clock per communicator counts the collective
  calls of this process, and a drain before a checkpoint lets each process run until its counts reach
  the targets.  The processes share counts through DMTCP's key-value database (KVDB) at the
  coordinator.  DMTCP is not part of the repository: the KVDB is a record \<open>kvdb\<close> of its requests on
  a state of an arbitrary type, and \<open>kvdb_ok\<close> states what DMTCP documents of them.

  Sequence numbers and targets are integers; they count calls of the process and stay below \<open>2 ^ 63\<close>.
  The clocks (an \<^verbatim>\<open>unordered_map\<close>) are an association list in the order in which a loop visits
  them.  The names of the databases and keys are the constructors of \<open>kv_db\<close> and \<open>kv_key\<close>; the
  theory \<open>Kvdb_Names\<close> has their strings and shows that different ones have different strings.
\<close>

subsection \<open>The key-value database\<close>

datatype kv_db =
    CommSeqMax nat        \<comment> \<open>\<^verbatim>\<open>comm-seq-max\<close>, by attempt\<close>
  | CriticalSection nat
  | Converge nat
  | TargetsRaised nat
  | RaisedGids nat

datatype kv_key =
    GidKey int64
  | RoundKey nat
  | EntryKey nat int      \<comment> \<open>\<^verbatim>\<open>raised_entry_key\<close>: the round and the index in its list\<close>

record 'k kvdb =
  kv_get :: "kv_db \<Rightarrow> kv_key \<Rightarrow> 'k \<Rightarrow> int option"
  kv_set :: "kv_db \<Rightarrow> kv_key \<Rightarrow> int \<Rightarrow> 'k \<Rightarrow> 'k"
  kv_max :: "kv_db \<Rightarrow> kv_key \<Rightarrow> int \<Rightarrow> 'k \<Rightarrow> 'k"
  kv_incrby :: "kv_db \<Rightarrow> kv_key \<Rightarrow> int \<Rightarrow> 'k \<Rightarrow> int \<times> 'k"   \<comment> \<open>the value before, and the new state\<close>
  kv_or :: "kv_db \<Rightarrow> kv_key \<Rightarrow> bool \<Rightarrow> 'k \<Rightarrow> 'k"

definition kv_val :: "'k kvdb \<Rightarrow> kv_db \<Rightarrow> kv_key \<Rightarrow> 'k \<Rightarrow> int" where
  "kv_val kv d k s = (case kv_get kv d k s of Some v \<Rightarrow> v | None \<Rightarrow> 0)"

text \<open>What DMTCP documents: a request changes the value of its own key only; \<^verbatim>\<open>MAX\<close> keeps the larger
  value, \<^verbatim>\<open>INCRBY\<close> adds to the value and \<^verbatim>\<open>OR\<close> makes it nonzero, from zero for a new key.\<close>

definition kvdb_ok :: "'k kvdb \<Rightarrow> bool" where
  "kvdb_ok kv \<longleftrightarrow>
     (\<forall>d k v s d' k'. kv_get kv d' k' (kv_set kv d k v s) =
        (if d' = d \<and> k' = k then Some v else kv_get kv d' k' s)) \<and>
     (\<forall>d k v s d' k'. kv_get kv d' k' (kv_max kv d k v s) =
        (if d' = d \<and> k' = k then Some (case kv_get kv d k s of None \<Rightarrow> v | Some w \<Rightarrow> max w v)
         else kv_get kv d' k' s)) \<and>
     (\<forall>d k v s d' k'. kv_get kv d' k' (snd (kv_incrby kv d k v s)) =
        (if d' = d \<and> k' = k then Some (kv_val kv d k s + v) else kv_get kv d' k' s)) \<and>
     (\<forall>d k v s. fst (kv_incrby kv d k v s) = kv_val kv d k s) \<and>
     (\<forall>d k v s d' k'. kv_get kv d' k' (kv_or kv d k v s) =
        (if d' = d \<and> k' = k then Some (if v \<or> kv_val kv d k s \<noteq> 0 then 1 else 0)
         else kv_get kv d' k' s))"

subsection \<open>The clocks of a process\<close>

datatype phase_t = IS_READY | IN_CS

record comm_clock =
  ck_seq :: int
  ck_target :: int

record pending_free =
  pf_gid :: int64
  pf_real_comm :: mana_mpi_handle
  pf_request :: mana_mpi_handle

type_synonym clock_list = "(int64 \<times> comm_clock) list"

record cc =
  ckpt_pending :: bool
  current_phase :: phase_t
  clocks :: clock_list
  raised_clocks :: "int64 list"
  added_clock :: bool
  targets_version :: nat
  pending_frees :: "pending_free list"

definition seq_num_init :: "cc \<Rightarrow> cc" where
  "seq_num_init s = s \<lparr> ckpt_pending := False \<rparr>"

definition seq_num_reset :: "cc \<Rightarrow> cc" where
  "seq_num_reset s = s \<lparr> ckpt_pending := False \<rparr>"

fun check_seq_nums_list :: "clock_list \<Rightarrow> bool" where
  "check_seq_nums_list [] = True"
| "check_seq_nums_list ((g, c) # cs) = (if ck_target c > ck_seq c then False else check_seq_nums_list cs)"

definition check_seq_nums :: "cc \<Rightarrow> bool" where
  "check_seq_nums s = check_seq_nums_list (clocks s)"

definition add_comm_clock :: "int64 \<Rightarrow> cc \<Rightarrow> cc result" where
  "add_comm_clock g s =
     (if map_of (clocks s) g \<noteq> None then Fault Assert_failed
      else Ok (s \<lparr> clocks := clocks s @ [(g, \<lparr> ck_seq = 0, ck_target = 0 \<rparr>)],
                   added_clock := (if ckpt_pending s then True else added_clock s) \<rparr>))"

text \<open>\<^verbatim>\<open>wait_while_targets_reached\<close> returns when this holds no more.\<close>

definition must_wait :: "cc \<Rightarrow> bool" where
  "must_wait s \<longleftrightarrow> ckpt_pending s \<and> check_seq_nums s"

fun update_clock :: "int64 \<Rightarrow> (comm_clock \<Rightarrow> comm_clock) \<Rightarrow> clock_list \<Rightarrow> clock_list" where
  "update_clock g f [] = []"
| "update_clock g f ((h, c) # cs) = (if h = g then (h, f c) # cs else (h, c) # update_clock g f cs)"

text \<open>\<^verbatim>\<open>begin_critical_section\<close> after its wait.  \<open>d\<close> is the gid and the size of the communicator, or
  \<open>None\<close> if the call is not counted or the handle is invalid.\<close>

definition begin_critical_section :: "(int64 \<times> int) option \<Rightarrow> cc \<Rightarrow> cc" where
  "begin_critical_section d s =
     (let s = s \<lparr> current_phase := IN_CS \<rparr>
      in case d of
           None \<Rightarrow> s
         | Some (g, n) \<Rightarrow>
             (case map_of (clocks s) g of
                None \<Rightarrow> s
              | Some c \<Rightarrow>
                  let c = c \<lparr> ck_seq := ck_seq c + 1 \<rparr>
                  in if ckpt_pending s \<and> ck_seq c > ck_target c
                     then s \<lparr> clocks := update_clock g (\<lambda>_. c \<lparr> ck_target := ck_seq c \<rparr>) (clocks s),
                              raised_clocks := (if n > 1 then raised_clocks s @ [g] else raised_clocks s) \<rparr>
                     else s \<lparr> clocks := update_clock g (\<lambda>_. c) (clocks s) \<rparr>))"

text \<open>\<^verbatim>\<open>commit_finish\<close> up to its wait.\<close>

definition commit_finish_phase :: "cc \<Rightarrow> cc" where
  "commit_finish_phase s = s \<lparr> current_phase := IS_READY \<rparr>"

subsection \<open>Sharing sequence numbers and targets\<close>

definition upload_seq :: "'k kvdb \<Rightarrow> nat \<Rightarrow> int64 \<Rightarrow> int \<Rightarrow> 'k \<Rightarrow> 'k" where
  "upload_seq kv a g n = kv_max kv (CommSeqMax a) (GidKey g) n"

fun upload_seq_num :: "'k kvdb \<Rightarrow> nat \<Rightarrow> clock_list \<Rightarrow> 'k \<Rightarrow> 'k" where
  "upload_seq_num kv a [] db = db"
| "upload_seq_num kv a ((g, c) # cs) db = upload_seq_num kv a cs (upload_seq kv a g (ck_seq c) db)"

fun download_clocks :: "'k kvdb \<Rightarrow> nat \<Rightarrow> 'k \<Rightarrow> clock_list \<Rightarrow> clock_list" where
  "download_clocks kv a db [] = []"
| "download_clocks kv a db ((g, c) # cs) =
     (g, case kv_get kv (CommSeqMax a) (GidKey g) db of Some v \<Rightarrow> c \<lparr> ck_target := v \<rparr> | None \<Rightarrow> c)
       # download_clocks kv a db cs"

definition download_targets :: "'k kvdb \<Rightarrow> nat \<Rightarrow> 'k \<Rightarrow> cc \<Rightarrow> cc" where
  "download_targets kv a db s =
     s \<lparr> clocks := download_clocks kv a db (clocks s), targets_version := targets_version s + 1 \<rparr>"

fun upload_raised :: "'k kvdb \<Rightarrow> nat \<Rightarrow> clock_list \<Rightarrow> int64 list \<Rightarrow> int64 list \<Rightarrow> 'k \<Rightarrow> int64 list \<times> 'k" where
  "upload_raised kv a cs [] gids db = (gids, db)"
| "upload_raised kv a cs (g # gs) gids db =
     (case map_of cs g of
        None \<Rightarrow> upload_raised kv a cs gs gids db
      | Some c \<Rightarrow>
          if g \<in> set gids then upload_raised kv a cs gs gids db
          else upload_raised kv a cs gs (gids @ [g]) (upload_seq kv a g (ck_seq c) db))"

fun set_entries :: "'k kvdb \<Rightarrow> nat \<Rightarrow> nat \<Rightarrow> int \<Rightarrow> int64 list \<Rightarrow> 'k \<Rightarrow> 'k" where
  "set_entries kv a r i [] db = db"
| "set_entries kv a r i (g # gs) db =
     set_entries kv a r (i + 1) gs (kv_set kv (RaisedGids a) (EntryKey r i) (sint g) db)"

definition upload_raised_targets :: "'k kvdb \<Rightarrow> nat \<Rightarrow> nat \<Rightarrow> cc \<Rightarrow> 'k \<Rightarrow> cc \<times> 'k" where
  "upload_raised_targets kv a r s db =
     (let (gids, db) = upload_raised kv a (clocks s) (raised_clocks s) [] db;
          (first, db) = kv_incrby kv (TargetsRaised a) (RoundKey r) (int (length gids)) db
      in (s \<lparr> raised_clocks := [] \<rparr>, set_entries kv a r first gids db))"

text \<open>The loop of \<^verbatim>\<open>download_raised_targets\<close>: \<open>i\<close> counts up to \<open>raised\<close>, and \<open>seen\<close> has the gids
  already downloaded.  A missing entry or value fails the assertion.\<close>

function download_listed ::
  "'k kvdb \<Rightarrow> nat \<Rightarrow> nat \<Rightarrow> 'k \<Rightarrow> int \<Rightarrow> int \<Rightarrow> int64 list \<Rightarrow> clock_list \<Rightarrow> clock_list result"
where
  "download_listed kv a r db i raised seen cs =
     (if i \<ge> raised then Ok cs
      else case kv_get kv (RaisedGids a) (EntryKey r i) db of
             None \<Rightarrow> Fault Assert_failed
           | Some v \<Rightarrow>
               let g = word_of_int v :: int64
               in if map_of cs g = None \<or> g \<in> set seen
                  then download_listed kv a r db (i + 1) raised seen cs
                  else case kv_get kv (CommSeqMax a) (GidKey g) db of
                         None \<Rightarrow> Fault Assert_failed
                       | Some t \<Rightarrow> download_listed kv a r db (i + 1) raised (g # seen)
                                     (update_clock g (\<lambda>c. c \<lparr> ck_target := t \<rparr>) cs))"
  by pat_completeness auto
termination
  by (relation "measure (\<lambda>(kv, a, r, db, i, raised, seen, cs). nat (raised - i))") auto

declare download_listed.simps [simp del]

definition download_raised_targets :: "'k kvdb \<Rightarrow> nat \<Rightarrow> nat \<Rightarrow> 'k \<Rightarrow> int \<Rightarrow> cc \<Rightarrow> cc result" where
  "download_raised_targets kv a r db raised s =
     (if raised \<ge> int (length (clocks s)) then Ok (download_targets kv a db s)
      else bind_result (download_listed kv a r db 0 raised [] (clocks s)) (\<lambda>cs.
             Ok (s \<lparr> clocks := cs, targets_version := targets_version s + 1 \<rparr>)))"

subsection \<open>One drain attempt on one process\<close>

text \<open>The code between two global barriers, on the state of the process and the KVDB.\<close>

definition share_upload :: "'k kvdb \<Rightarrow> nat \<Rightarrow> cc \<Rightarrow> 'k \<Rightarrow> cc \<times> 'k" where
  "share_upload kv a s db =
     (let s = s \<lparr> ckpt_pending := True, raised_clocks := [], added_clock := False \<rparr>
      in (s, upload_seq_num kv a (clocks s) db))"

definition share_download :: "'k kvdb \<Rightarrow> nat \<Rightarrow> 'k \<Rightarrow> cc \<Rightarrow> cc" where
  "share_download kv a db s = download_targets kv a db s"

text \<open>A round up to its barrier.  The first result is \<^verbatim>\<open>target_reached\<close>, the second \<^verbatim>\<open>cs\<close>.\<close>

definition drain_round :: "'k kvdb \<Rightarrow> nat \<Rightarrow> nat \<Rightarrow> cc \<Rightarrow> 'k \<Rightarrow> bool \<times> bool \<times> cc \<times> 'k" where
  "drain_round kv a r s db =
     (let s = (if added_clock s then (download_targets kv a db s) \<lparr> added_clock := False \<rparr> else s);
          (s, db) = upload_raised_targets kv a r s db;
          target_reached = check_seq_nums s;
          in_cs = (current_phase s = IN_CS);
          db = snd (kv_incrby kv (Converge a) (RoundKey r) (if target_reached then 1 else 0) db);
          db = kv_or kv (CriticalSection a) (RoundKey r) in_cs db
      in (target_reached, in_cs, s, db))"

datatype round_end = Drained | Next_round bool   \<comment> \<open>whether a target was raised\<close>

text \<open>A round after its barrier: all reads must succeed.\<close>

definition drain_decide :: "'k kvdb \<Rightarrow> nat \<Rightarrow> nat \<Rightarrow> int \<Rightarrow> 'k \<Rightarrow> cc \<Rightarrow> (round_end \<times> cc) result" where
  "drain_decide kv a r world_size db s =
     (case (kv_get kv (Converge a) (RoundKey r) db, kv_get kv (CriticalSection a) (RoundKey r) db,
            kv_get kv (TargetsRaised a) (RoundKey r) db) of
        (Some num_converged, Some in_cs, Some raised) \<Rightarrow>
          if in_cs = 0 \<and> num_converged = world_size \<and> raised = 0 then Ok (Drained, s)
          else if raised > 0
          then bind_result (download_raised_targets kv a r db raised s) (\<lambda>s. Ok (Next_round True, s))
          else Ok (Next_round False, s)
      | _ \<Rightarrow> Fault Assert_failed)"

abbreviation (input) MAX_DRAIN_ROUNDS :: nat where "MAX_DRAIN_ROUNDS \<equiv> 200"

subsection \<open>Freeing communicators\<close>

definition start_comm_free_barrier ::
  "'l lower \<Rightarrow> int64 \<Rightarrow> mana_mpi_handle \<Rightarrow> cc \<Rightarrow> 'l \<Rightarrow> int \<times> cc \<times> 'l"
where
  "start_comm_free_barrier lh g real s l =
     (let ((retval, outs), l) = lh ''Ibarrier'' [VHandle real] l;
          f = \<lparr> pf_gid = g, pf_real_comm = real, pf_request = the_handle outs 0 \<rparr>
      in (retval, if retval = MPI_SUCCESS then s \<lparr> pending_frees := pending_frees s @ [f] \<rparr> else s, l))"

partial_function (option) test_until ::
  "'l lower \<Rightarrow> bool \<Rightarrow> mana_mpi_handle \<Rightarrow> 'l \<Rightarrow> (int \<times> bool \<times> mana_mpi_handle \<times> 'l) option"
where
  "test_until lh wait request l =
     (case lh ''Test'' [VHandle request] l of ((retval, outs), l') \<Rightarrow>
        if retval = MPI_SUCCESS \<and> wait \<and> the_int outs 1 = 0
        then test_until lh wait (the_handle outs 0) l'
        else Some (retval, the_int outs 1 \<noteq> 0, the_handle outs 0, l'))"

definition erase_clock :: "int64 \<Rightarrow> clock_list \<Rightarrow> clock_list" where
  "erase_clock g cs = filter (\<lambda>(h, c). h \<noteq> g) cs"

definition finish_free ::
  "'l lower \<Rightarrow> bool \<Rightarrow> pending_free \<Rightarrow> cc \<Rightarrow> 'l \<Rightarrow> (bool \<times> pending_free \<times> cc \<times> 'l) result option"
where
  "finish_free lh wait f s l =
     (case test_until lh wait (pf_request f) l of
        None \<Rightarrow> None
      | Some (retval, flag, request, l) \<Rightarrow>
          let (retval, l) = (if retval = MPI_SUCCESS \<and> flag
                             then (case lh ''Comm_free'' [VHandle (pf_real_comm f)] l of ((rc, outs), l) \<Rightarrow> (rc, l))
                             else (retval, l))
          in if retval \<noteq> MPI_SUCCESS then Some (Fault Assert_failed)
             else Some (Ok (flag, f \<lparr> pf_request := request \<rparr>,
                            if flag then s \<lparr> clocks := erase_clock (pf_gid f) (clocks s) \<rparr> else s, l)))"

fun test_frees ::
  "'l lower \<Rightarrow> pending_free list \<Rightarrow> cc \<Rightarrow> 'l \<Rightarrow> (pending_free list \<times> cc \<times> 'l) result option"
where
  "test_frees lh [] s l = Some (Ok ([], s, l))"
| "test_frees lh (f # fs) s l =
     (case finish_free lh False f s l of
        None \<Rightarrow> None
      | Some (Inl e) \<Rightarrow> Some (Inl e)
      | Some (Inr (flag, f', s', l')) \<Rightarrow>
          (case test_frees lh fs s' l' of
             Some (Inr (fs', s'', l'')) \<Rightarrow> Some (Ok (if flag then fs' else f' # fs', s'', l''))
           | x \<Rightarrow> x))"

definition test_comm_free_barriers :: "'l lower \<Rightarrow> cc \<Rightarrow> 'l \<Rightarrow> (cc \<times> 'l) result option" where
  "test_comm_free_barriers lh s l =
     (case test_frees lh (pending_frees s) s l of
        None \<Rightarrow> None
      | Some (Inl e) \<Rightarrow> Some (Inl e)
      | Some (Inr (fs, s', l')) \<Rightarrow> Some (Ok (s' \<lparr> pending_frees := fs \<rparr>, l')))"

fun finish_frees :: "'l lower \<Rightarrow> pending_free list \<Rightarrow> cc \<Rightarrow> 'l \<Rightarrow> (cc \<times> 'l) result option" where
  "finish_frees lh [] s l = Some (Ok (s, l))"
| "finish_frees lh (f # fs) s l =
     (case finish_free lh True f s l of
        None \<Rightarrow> None
      | Some (Inl e) \<Rightarrow> Some (Inl e)
      | Some (Inr (flag, f', s', l')) \<Rightarrow> finish_frees lh fs s' l')"

definition complete_comm_free_barriers :: "'l lower \<Rightarrow> cc \<Rightarrow> 'l \<Rightarrow> (cc \<times> 'l) result option" where
  "complete_comm_free_barriers lh s l =
     (case finish_frees lh (pending_frees s) s l of
        None \<Rightarrow> None
      | Some (Inl e) \<Rightarrow> Some (Inl e)
      | Some (Inr (s', l')) \<Rightarrow> Some (Ok (s' \<lparr> pending_frees := [] \<rparr>, l')))"

subsection \<open>Laws of the key-value database\<close>

lemma kvdb_laws:
  assumes "kvdb_ok kv"
  shows kv_get_set: "kv_get kv d' k' (kv_set kv d k v s) =
      (if d' = d \<and> k' = k then Some v else kv_get kv d' k' s)"
    and kv_get_max: "kv_get kv d' k' (kv_max kv d k v s) =
      (if d' = d \<and> k' = k then Some (case kv_get kv d k s of None \<Rightarrow> v | Some w \<Rightarrow> max w v)
       else kv_get kv d' k' s)"
    and kv_get_incrby: "kv_get kv d' k' (snd (kv_incrby kv d k v s)) =
      (if d' = d \<and> k' = k then Some (kv_val kv d k s + v) else kv_get kv d' k' s)"
    and kv_old_incrby: "fst (kv_incrby kv d k v s) = kv_val kv d k s"
    and kv_get_or: "kv_get kv d' k' (kv_or kv d k b s) =
      (if d' = d \<and> k' = k then Some (if b \<or> kv_val kv d k s \<noteq> 0 then 1 else 0) else kv_get kv d' k' s)"
  using assms unfolding kvdb_ok_def by simp_all

text \<open>The views of the database that the proofs use: the highest sequence number uploaded for a gid, and
  the gids in the list of a round.\<close>

definition kvm :: "'k kvdb \<Rightarrow> nat \<Rightarrow> int64 \<Rightarrow> 'k \<Rightarrow> int" where
  "kvm kv a g db = kv_val kv (CommSeqMax a) (GidKey g) db"

definition raised_count :: "'k kvdb \<Rightarrow> nat \<Rightarrow> nat \<Rightarrow> 'k \<Rightarrow> int" where
  "raised_count kv a r db = kv_val kv (TargetsRaised a) (RoundKey r) db"

definition listed :: "'k kvdb \<Rightarrow> nat \<Rightarrow> 'k \<Rightarrow> nat \<Rightarrow> int64 set" where
  "listed kv a db r = {g. \<exists>i. 0 \<le> i \<and> i < raised_count kv a r db \<and>
     kv_get kv (RaisedGids a) (EntryKey r i) db = Some (sint g)}"

lemma upload_seq_get:
  assumes "kvdb_ok kv"
  shows "kv_get kv d k (upload_seq kv a g n db) =
    (if d = CommSeqMax a \<and> k = GidKey g
     then Some (case kv_get kv d k db of None \<Rightarrow> n | Some w \<Rightarrow> max w n) else kv_get kv d k db)"
  by (auto simp: upload_seq_def kv_get_max [OF assms])

lemma upload_seq_kvm:
  assumes "kvdb_ok kv" and "0 \<le> n"
  shows "kvm kv a h db \<le> kvm kv a h (upload_seq kv a g n db)" and "n \<le> kvm kv a g (upload_seq kv a g n db)"
    and "h \<noteq> g \<Longrightarrow> kvm kv a h (upload_seq kv a g n db) = kvm kv a h db"
    and "kv_get kv (CommSeqMax a) (GidKey g) (upload_seq kv a g n db) \<noteq> None"
  using assms(2) by (auto simp: kvm_def kv_val_def upload_seq_get [OF assms(1)] split: option.split)

lemma upload_seq_num_other:
  assumes "kvdb_ok kv" and "d \<noteq> CommSeqMax a"
  shows "kv_get kv d k (upload_seq_num kv a cs db) = kv_get kv d k db"
  using assms(2) by (induction cs arbitrary: db) (auto simp: upload_seq_get [OF assms(1)])

lemma upload_seq_num_mono:
  assumes "kvdb_ok kv" and "\<forall>(g, c)\<in>set cs. 0 \<le> ck_seq c"
  shows "kvm kv a h db \<le> kvm kv a h (upload_seq_num kv a cs db)"
  using assms(2)
proof (induction cs arbitrary: db)
  case (Cons x cs)
  obtain g c where x: "x = (g, c)" by (cases x)
  have "kvm kv a h db \<le> kvm kv a h (upload_seq kv a g (ck_seq c) db)"
    using Cons.prems by (intro upload_seq_kvm(1) [OF assms(1)]) (simp add: x)
  also have "\<dots> \<le> kvm kv a h (upload_seq_num kv a (x # cs) db)"
    using Cons by (simp add: x)
  finally show ?case .
qed simp

lemma upload_seq_num_covers:
  assumes "kvdb_ok kv" and "\<forall>(g, c)\<in>set cs. 0 \<le> ck_seq c" and "(g, c) \<in> set cs"
  shows "ck_seq c \<le> kvm kv a g (upload_seq_num kv a cs db)"
  using assms(2,3)
proof (induction cs arbitrary: db)
  case (Cons x cs)
  have nn: "\<forall>(g, c)\<in>set cs. 0 \<le> ck_seq c" using Cons.prems by simp
  show ?case
  proof (cases "x = (g, c)")
    case True
    have "ck_seq c \<le> kvm kv a g (upload_seq kv a g (ck_seq c) db)"
      using Cons.prems True by (intro upload_seq_kvm(2) [OF assms(1)]) simp
    also have "\<dots> \<le> kvm kv a g (upload_seq_num kv a (x # cs) db)"
      using upload_seq_num_mono [OF assms(1) nn] by (simp add: True)
    finally show ?thesis .
  next
    case False
    then show ?thesis using Cons.IH [OF nn] Cons.prems(2) by (cases x) auto
  qed
qed simp

lemma upload_seq_num_present:
  assumes "kvdb_ok kv" and "kv_get kv (CommSeqMax a) (GidKey h) db \<noteq> None \<or> h \<in> fst ` set cs"
  shows "kv_get kv (CommSeqMax a) (GidKey h) (upload_seq_num kv a cs db) \<noteq> None"
  using assms(2)
proof (induction cs arbitrary: db)
  case (Cons x cs)
  obtain g c where x: "x = (g, c)" by (cases x)
  have "kv_get kv (CommSeqMax a) (GidKey h) (upload_seq kv a g (ck_seq c) db) \<noteq> None \<or> h \<in> fst ` set cs"
    using Cons.prems by (auto simp: x upload_seq_get [OF assms(1)])
  then show ?case using Cons.IH by (simp add: x)
qed simp

lemma upload_seq_num_unchanged:
  assumes "kvdb_ok kv" and "h \<notin> fst ` set cs"
  shows "kvm kv a h (upload_seq_num kv a cs db) = kvm kv a h db"
  using assms(2)
  by (induction cs arbitrary: db) (auto simp: kvm_def kv_val_def upload_seq_get [OF assms(1)])

text \<open>The upload of raised clocks is the upload of the clocks of a list of gids without duplicates.\<close>

fun raised_gids :: "clock_list \<Rightarrow> int64 list \<Rightarrow> int64 list \<Rightarrow> int64 list" where
  "raised_gids cs [] gids = []"
| "raised_gids cs (g # gs) gids =
     (if map_of cs g = None \<or> g \<in> set gids then raised_gids cs gs gids
      else g # raised_gids cs gs (gids @ [g]))"

lemma upload_raised_eq:
  "upload_raised kv a cs gs gids db =
     (gids @ raised_gids cs gs gids,
      upload_seq_num kv a (map (\<lambda>g. (g, the (map_of cs g))) (raised_gids cs gs gids)) db)"
  by (induction cs gs gids arbitrary: db rule: raised_gids.induct) (auto split: option.splits)

lemma set_raised_gids: "set (raised_gids cs gs gids) = {g \<in> set gs. map_of cs g \<noteq> None} - set gids"
  by (induction cs gs gids rule: raised_gids.induct) auto

lemma raised_gids_clock:
  "g \<in> set (raised_gids cs gs gids) \<Longrightarrow> (g, the (map_of cs g)) \<in> set cs"
  by (auto simp: set_raised_gids intro: map_of_SomeD)

subsection \<open>Clocks\<close>

lemma check_seq_nums_iff: "check_seq_nums s \<longleftrightarrow> (\<forall>(g, c)\<in>set (clocks s). ck_target c \<le> ck_seq c)"
proof -
  have "check_seq_nums_list cs \<longleftrightarrow> (\<forall>(g, c)\<in>set cs. ck_target c \<le> ck_seq c)" for cs
    by (induction cs) (auto split: if_splits)
  then show ?thesis by (simp add: check_seq_nums_def)
qed

lemma map_of_update_clock:
  "map_of (update_clock g f cs) h = (if h = g then map_option f (map_of cs g) else map_of cs h)"
  by (induction cs) auto

lemma keys_update_clock [simp]: "map fst (update_clock g f cs) = map fst cs"
  by (induction cs) auto

lemma map_of_download_clocks:
  "map_of (download_clocks kv a db cs) h =
     map_option (\<lambda>c. case kv_get kv (CommSeqMax a) (GidKey h) db of Some v \<Rightarrow> c \<lparr> ck_target := v \<rparr> | None \<Rightarrow> c)
       (map_of cs h)"
  by (induction cs) (auto split: option.split)

lemma keys_download_clocks [simp]: "map fst (download_clocks kv a db cs) = map fst cs"
  by (induction cs) auto

lemma map_of_erase_clock: "map_of (erase_clock g cs) h = (if h = g then None else map_of cs h)"
  unfolding erase_clock_def by (induction cs) auto

end
