(* ===== verification/Drain_Round.thy ===== *)
theory Drain_Round
  imports Collective_Clock
begin

text \<open>
  What the exchange of one drain round does to the key-value database: the upload of the raised
  targets, the counters, and the download after the barrier.
\<close>

section \<open>The database during a round\<close>

definition conv :: "'k kvdb \<Rightarrow> nat \<Rightarrow> nat \<Rightarrow> 'k \<Rightarrow> int" where
  "conv kv a r db = kv_val kv (Converge a) (RoundKey r) db"

definition store_ok :: "'k kvdb \<Rightarrow> nat \<Rightarrow> 'k \<Rightarrow> bool" where
  "store_ok kv a db \<longleftrightarrow> (\<forall>g. 0 \<le> kvm kv a g db) \<and> (\<forall>r. 0 \<le> raised_count kv a r db) \<and>
     (\<forall>r i. 0 \<le> i \<and> i < raised_count kv a r db \<longrightarrow>
        (\<exists>g. kv_get kv (RaisedGids a) (EntryKey r i) db = Some (sint (g :: int64)) \<and>
             kv_get kv (CommSeqMax a) (GidKey g) db \<noteq> None))"

lemma store_ok_entry:
  assumes "store_ok kv a db" and "0 \<le> i" and "i < raised_count kv a r db"
  shows "\<exists>g. kv_get kv (RaisedGids a) (EntryKey r i) db = Some (sint (g :: int64)) \<and>
             kv_get kv (CommSeqMax a) (GidKey g) db \<noteq> None"
  using assms by (simp add: store_ok_def)

text \<open>What a process may change in the database in round \<open>r\<close>.\<close>

definition store_step :: "'k kvdb \<Rightarrow> nat \<Rightarrow> nat \<Rightarrow> 'k \<Rightarrow> 'k \<Rightarrow> bool" where
  "store_step kv a r db db' \<longleftrightarrow>
     (\<forall>g. kvm kv a g db \<le> kvm kv a g db') \<and>
     (\<forall>g. kv_get kv (CommSeqMax a) (GidKey g) db \<noteq> None \<longrightarrow> kv_get kv (CommSeqMax a) (GidKey g) db' \<noteq> None) \<and>
     (\<forall>g. kvm kv a g db' \<noteq> kvm kv a g db \<longrightarrow> g \<in> listed kv a db' r) \<and>
     listed kv a db r \<subseteq> listed kv a db' r \<and>
     (\<forall>r'. r' \<noteq> r \<longrightarrow> listed kv a db' r' = listed kv a db r') \<and>
     (\<forall>d r'. d \<in> {Converge a, CriticalSection a, TargetsRaised a} \<and> r' \<noteq> r \<longrightarrow>
        kv_get kv d (RoundKey r') db' = kv_get kv d (RoundKey r') db)"

lemma set_entries_get:
  assumes "kvdb_ok kv"
  shows "kv_get kv d k (set_entries kv a r i gs db) =
    (case k of
       EntryKey r' j \<Rightarrow> if d = RaisedGids a \<and> r' = r \<and> i \<le> j \<and> j < i + int (length gs)
                        then Some (sint (gs ! nat (j - i))) else kv_get kv d k db
     | _ \<Rightarrow> kv_get kv d k db)"
proof (induction gs arbitrary: i db)
  case Nil
  then show ?case by (auto split: kv_key.split)
next
  case (Cons g gs)
  have "nat (j - i) = Suc (nat (j - (i + 1)))" if "i + 1 \<le> j" for j using that by simp
  then show ?case
    using Cons by (auto simp: kv_get_set [OF assms] nth_Cons split: kv_key.split)
qed

lemma upload_raised_targets_spec:
  assumes kv: "kvdb_ok kv" and nn: "\<forall>(g, c)\<in>set (clocks s). 0 \<le> ck_seq c"
    and up: "upload_raised_targets kv a r s db = (s', db')"
  defines "gids \<equiv> raised_gids (clocks s) (raised_clocks s) []"
  shows "s' = s \<lparr> raised_clocks := [] \<rparr>"
    and "kv_get kv (CommSeqMax a) (GidKey g) db' =
         kv_get kv (CommSeqMax a) (GidKey g)
           (upload_seq_num kv a (map (\<lambda>g. (g, the (map_of (clocks s) g))) gids) db)"
    and "kv_get kv (TargetsRaised a) (RoundKey r') db' =
         (if r' = r then Some (raised_count kv a r db + int (length gids))
          else kv_get kv (TargetsRaised a) (RoundKey r') db)"
    and "kv_get kv (RaisedGids a) (EntryKey r' j) db' =
         (if r' = r \<and> raised_count kv a r db \<le> j \<and> j < raised_count kv a r db + int (length gids)
          then Some (sint (gids ! nat (j - raised_count kv a r db)))
          else kv_get kv (RaisedGids a) (EntryKey r' j) db)"
    and "d = Converge a \<or> d = CriticalSection a \<Longrightarrow> kv_get kv d k db' = kv_get kv d k db"
proof -
  define db1 where "db1 = upload_seq_num kv a (map (\<lambda>g. (g, the (map_of (clocks s) g))) gids) db"
  define db2 where "db2 = snd (kv_incrby kv (TargetsRaised a) (RoundKey r) (int (length gids)) db1)"
  have first: "fst (kv_incrby kv (TargetsRaised a) (RoundKey r) (int (length gids)) db1) = raised_count kv a r db"
    by (simp add: kv_old_incrby [OF kv] raised_count_def kv_val_def db1_def upload_seq_num_other [OF kv])
  have val: "kv_val kv (TargetsRaised a) (RoundKey r) db1 = raised_count kv a r db"
    by (simp add: raised_count_def kv_val_def db1_def upload_seq_num_other [OF kv])
  have s': "s' = s \<lparr> raised_clocks := [] \<rparr>" and db': "db' = set_entries kv a r (raised_count kv a r db) gids db2"
    using up first unfolding upload_raised_targets_def upload_raised_eq
    by (auto simp: db2_def db1_def gids_def Let_def split: prod.splits)
  show "s' = s \<lparr> raised_clocks := [] \<rparr>" by (fact s')
  show "kv_get kv (CommSeqMax a) (GidKey g) db' = kv_get kv (CommSeqMax a) (GidKey g)
           (upload_seq_num kv a (map (\<lambda>g. (g, the (map_of (clocks s) g))) gids) db)"
    by (simp add: db' set_entries_get [OF kv] db2_def kv_get_incrby [OF kv] db1_def)
  show "kv_get kv (TargetsRaised a) (RoundKey r') db' =
         (if r' = r then Some (raised_count kv a r db + int (length gids))
          else kv_get kv (TargetsRaised a) (RoundKey r') db)"
    by (simp add: db' set_entries_get [OF kv] db2_def kv_get_incrby [OF kv] val)
       (simp add: db1_def upload_seq_num_other [OF kv])
  show "kv_get kv (RaisedGids a) (EntryKey r' j) db' =
         (if r' = r \<and> raised_count kv a r db \<le> j \<and> j < raised_count kv a r db + int (length gids)
          then Some (sint (gids ! nat (j - raised_count kv a r db)))
          else kv_get kv (RaisedGids a) (EntryKey r' j) db)"
    by (simp add: db' set_entries_get [OF kv] db2_def kv_get_incrby [OF kv])
       (simp add: db1_def upload_seq_num_other [OF kv])
  show "kv_get kv d k db' = kv_get kv d k db" if "d = Converge a \<or> d = CriticalSection a"
    using that by (auto simp: db' set_entries_get [OF kv] db2_def kv_get_incrby [OF kv] db1_def
        upload_seq_num_other [OF kv] split: kv_key.split)
qed

lemma upload_raised_targets_kvm:
  assumes kv: "kvdb_ok kv" and nn: "\<forall>(g, c)\<in>set (clocks s). 0 \<le> ck_seq c"
    and up: "upload_raised_targets kv a r s db = (s', db')"
  shows "kvm kv a g db \<le> kvm kv a g db'"
    and "kvm kv a g db' \<noteq> kvm kv a g db \<Longrightarrow> g \<in> set (raised_gids (clocks s) (raised_clocks s) [])"
    and "g \<in> set (raised_clocks s) \<Longrightarrow> map_of (clocks s) g = Some c \<Longrightarrow> ck_seq c \<le> kvm kv a g db'"
    and "kv_get kv (CommSeqMax a) (GidKey g) db \<noteq> None \<or> g \<in> set (raised_gids (clocks s) (raised_clocks s) []) \<Longrightarrow>
         kv_get kv (CommSeqMax a) (GidKey g) db' \<noteq> None"
proof -
  define cs where "cs = map (\<lambda>g. (g, the (map_of (clocks s) g))) (raised_gids (clocks s) (raised_clocks s) [])"
  have fst_cs: "fst ` set cs = set (raised_gids (clocks s) (raised_clocks s) [])"
    by (force simp: cs_def)
  have nn': "\<forall>(g, c)\<in>set cs. 0 \<le> ck_seq c"
    using nn by (force simp: cs_def dest: raised_gids_clock)
  have get: "kv_get kv (CommSeqMax a) (GidKey g) db' = kv_get kv (CommSeqMax a) (GidKey g) (upload_seq_num kv a cs db)"
    using upload_raised_targets_spec(2) [OF kv nn up] by (simp add: cs_def)
  have eq: "kvm kv a g db' = kvm kv a g (upload_seq_num kv a cs db)"
    by (simp add: kvm_def kv_val_def get)
  show "kvm kv a g db \<le> kvm kv a g db'"
    unfolding eq by (rule upload_seq_num_mono [OF kv nn'])
  show "g \<in> set (raised_gids (clocks s) (raised_clocks s) [])" if "kvm kv a g db' \<noteq> kvm kv a g db"
    using that upload_seq_num_unchanged [OF kv] unfolding eq fst_cs [symmetric] by blast
  show "ck_seq c \<le> kvm kv a g db'" if "g \<in> set (raised_clocks s)" "map_of (clocks s) g = Some c"
    unfolding eq
  proof (rule upload_seq_num_covers [OF kv nn'])
    show "(g, c) \<in> set cs" using that by (auto simp: cs_def set_raised_gids image_iff)
  qed
  show "kv_get kv (CommSeqMax a) (GidKey g) db' \<noteq> None"
    if "kv_get kv (CommSeqMax a) (GidKey g) db \<noteq> None \<or> g \<in> set (raised_gids (clocks s) (raised_clocks s) [])"
    unfolding get by (rule upload_seq_num_present [OF kv]) (use that in \<open>simp add: fst_cs\<close>)
qed

lemma upload_raised_targets_listed:
  assumes kv: "kvdb_ok kv" and nn: "\<forall>(g, c)\<in>set (clocks s). 0 \<le> ck_seq c"
    and up: "upload_raised_targets kv a r s db = (s', db')" and ok: "store_ok kv a db"
  shows "listed kv a db' r = listed kv a db r \<union> set (raised_gids (clocks s) (raised_clocks s) [])"
    and "r' \<noteq> r \<Longrightarrow> listed kv a db' r' = listed kv a db r'"
    and "store_ok kv a db'"
proof -
  define gids where "gids = raised_gids (clocks s) (raised_clocks s) []"
  define n where "n = raised_count kv a r db"
  note spec = upload_raised_targets_spec [OF kv nn up, folded gids_def n_def]
  have n: "0 \<le> n" using ok by (simp add: store_ok_def n_def)
  have cnt: "raised_count kv a r' db' = (if r' = r then n + int (length gids) else raised_count kv a r' db)" for r'
    by (simp add: raised_count_def kv_val_def spec(3))
  show "r' \<noteq> r \<Longrightarrow> listed kv a db' r' = listed kv a db r'"
    by (simp add: listed_def cnt spec(4))
  have "listed kv a db' r = listed kv a db r \<union> set gids"
  proof (intro set_eqI iffI)
    fix g assume "g \<in> listed kv a db' r"
    then obtain i where i: "0 \<le> i" "i < n + int (length gids)"
        "kv_get kv (RaisedGids a) (EntryKey r i) db' = Some (sint g)"
      by (auto simp: listed_def cnt)
    show "g \<in> listed kv a db r \<union> set gids"
    proof (cases "i < n")
      case True
      then show ?thesis using i by (auto simp: listed_def spec(4) n_def)
    next
      case False
      then have "g = gids ! nat (i - n)" "nat (i - n) < length gids" using i
        by (auto simp: spec(4) dest!: signed_word_eqI)
      then show ?thesis by simp
    qed
  next
    fix g assume "g \<in> listed kv a db r \<union> set gids"
    then show "g \<in> listed kv a db' r"
    proof
      assume "g \<in> listed kv a db r"
      then obtain i where "0 \<le> i" "i < n" "kv_get kv (RaisedGids a) (EntryKey r i) db = Some (sint g)"
        by (auto simp: listed_def n_def)
      then have "0 \<le> i \<and> i < raised_count kv a r db' \<and>
          kv_get kv (RaisedGids a) (EntryKey r i) db' = Some (sint g)"
        by (simp add: cnt spec(4))
      then show ?thesis unfolding listed_def by blast
    next
      assume "g \<in> set gids"
      then obtain k where k: "k < length gids" "gids ! k = g" by (auto simp: in_set_conv_nth)
      have "0 \<le> n + int k \<and> n + int k < raised_count kv a r db' \<and>
          kv_get kv (RaisedGids a) (EntryKey r (n + int k)) db' = Some (sint g)"
        using n k by (simp add: cnt spec(4))
      then show ?thesis unfolding listed_def by blast
    qed
  qed
  then show "listed kv a db' r = listed kv a db r \<union> set (raised_gids (clocks s) (raised_clocks s) [])"
    by (simp add: gids_def)
  have present: "kv_get kv (CommSeqMax a) (GidKey g) db' \<noteq> None"
    if "kv_get kv (CommSeqMax a) (GidKey g) db \<noteq> None \<or> g \<in> set gids" for g
    using upload_raised_targets_kvm(4) [OF kv nn up] that by (simp add: gids_def)
  have "\<exists>g. kv_get kv (RaisedGids a) (EntryKey r' i) db' = Some (sint (g :: int64)) \<and>
      kv_get kv (CommSeqMax a) (GidKey g) db' \<noteq> None" if i: "0 \<le> i" "i < raised_count kv a r' db'" for r' i
  proof (cases "r' = r \<and> n \<le> i")
    case True
    then have "i - n < int (length gids)" "0 \<le> i - n" using that by (simp_all add: cnt)
    then have "nat (i - n) < length gids" by linarith
    then have "gids ! nat (i - n) \<in> set gids" by simp
    then show ?thesis using True that present [of "gids ! nat (i - n)"]
      by (intro exI [of _ "gids ! nat (i - n)"]) (simp add: spec(4) cnt)
  next
    case False
    then have lt: "i < raised_count kv a r' db" using i by (auto simp: cnt n_def split: if_splits)
    obtain g where "kv_get kv (RaisedGids a) (EntryKey r' i) db = Some (sint (g :: int64))"
        "kv_get kv (CommSeqMax a) (GidKey g) db \<noteq> None"
      using store_ok_entry [OF ok i(1) lt] by blast
    then show ?thesis using False present [of g] by (intro exI [of _ g]) (auto simp: spec(4))
  qed
  moreover have "0 \<le> kvm kv a g db'" for g
    using order_trans [OF _ upload_raised_targets_kvm(1) [OF kv nn up]] ok by (simp add: store_ok_def)
  moreover have "0 \<le> raised_count kv a r' db'" for r'
    using n ok by (simp add: cnt store_ok_def)
  ultimately show "store_ok kv a db'" by (simp add: store_ok_def)
qed

text \<open>The clocks of a process when it contributes to a round: a new clock gets its target first.\<close>

definition round_clocks :: "'k kvdb \<Rightarrow> nat \<Rightarrow> 'k \<Rightarrow> cc \<Rightarrow> clock_list" where
  "round_clocks kv a db s = (if added_clock s then download_clocks kv a db (clocks s) else clocks s)"

lemma seq_nonneg_download:
  assumes "\<forall>(g, c)\<in>set cs. 0 \<le> ck_seq c"
  shows "\<forall>(g, c)\<in>set (download_clocks kv a db cs). 0 \<le> ck_seq c"
  using assms by (induction cs) (auto split: option.splits)

lemma drain_round_spec:
  assumes kv: "kvdb_ok kv" and nn: "\<forall>(g, c)\<in>set (clocks s). 0 \<le> ck_seq c" and ok: "store_ok kv a db"
    and rnd: "drain_round kv a r s db = (t, c, s', db')"
  shows "ckpt_pending s' = ckpt_pending s" and "current_phase s' = current_phase s"
    and "clocks s' = round_clocks kv a db s" and "raised_clocks s' = []" and "\<not> added_clock s'"
    and "t = check_seq_nums s'" and "c = (current_phase s = IN_CS)"
    and "store_step kv a r db db'" and "store_ok kv a db'"
    and "\<forall>g d. g \<in> set (raised_clocks s) \<and> map_of (clocks s') g = Some d \<longrightarrow>
           ck_seq d \<le> kvm kv a g db' \<and> g \<in> listed kv a db' r"
    and "kv_get kv (Converge a) (RoundKey r) db' = Some (conv kv a r db + (if t then 1 else 0))"
    and "kv_get kv (CriticalSection a) (RoundKey r) db' =
           Some (if c \<or> kv_val kv (CriticalSection a) (RoundKey r) db \<noteq> 0 then 1 else 0)"
    and "\<exists>n\<ge>0. kv_get kv (TargetsRaised a) (RoundKey r) db' = Some (raised_count kv a r db + n)"
proof -
  define s1 where "s1 = (if added_clock s then (download_targets kv a db s) \<lparr> added_clock := False \<rparr> else s)"
  have s1: "clocks s1 = round_clocks kv a db s" "\<not> added_clock s1" "ckpt_pending s1 = ckpt_pending s"
      "current_phase s1 = current_phase s" "raised_clocks s1 = raised_clocks s"
    by (simp_all add: s1_def download_targets_def round_clocks_def)
  have nn1: "\<forall>(g, c)\<in>set (clocks s1). 0 \<le> ck_seq c"
    using nn by (simp add: s1 round_clocks_def seq_nonneg_download)
  obtain s2 db2 where up: "upload_raised_targets kv a r s1 db = (s2, db2)" by fastforce
  note u = upload_raised_targets_spec [OF kv nn1 up]
  note m = upload_raised_targets_kvm [OF kv nn1 up]
  note l = upload_raised_targets_listed [OF kv nn1 up ok]
  have res: "s' = s2" "t = check_seq_nums s2" "c = (current_phase s2 = IN_CS)"
    and db': "db' = kv_or kv (CriticalSection a) (RoundKey r) c
            (snd (kv_incrby kv (Converge a) (RoundKey r) (if t then 1 else 0) db2))"
    using rnd up unfolding drain_round_def s1_def by (auto simp: Let_def)
  have get: "kv_get kv d k db' = kv_get kv d k db2"
    if "(d, k) \<notin> {(Converge a, RoundKey r), (CriticalSection a, RoundKey r)}" for d k
    using that by (auto simp: db' kv_get_or [OF kv] kv_get_incrby [OF kv])
  have kvm': "kvm kv a g db' = kvm kv a g db2" for g by (simp add: kvm_def kv_val_def get)
  have cnt': "raised_count kv a r' db' = raised_count kv a r' db2" for r'
    by (simp add: raised_count_def kv_val_def get)
  have listed': "listed kv a db' r' = listed kv a db2 r'" for r' by (simp add: listed_def get cnt')
  show "ckpt_pending s' = ckpt_pending s" "current_phase s' = current_phase s"
      "clocks s' = round_clocks kv a db s" "raised_clocks s' = []" "\<not> added_clock s'"
      "t = check_seq_nums s'" "c = (current_phase s = IN_CS)"
    using s1 u(1) res by simp_all
  show "store_step kv a r db db'"
    unfolding store_step_def kvm' listed'
    using m(1,2,4) l(1,2) u(3,5) by (auto simp: get)
  show "store_ok kv a db'"
    using l(3) unfolding store_ok_def by (simp add: kvm' cnt' get)
  show "\<forall>g d. g \<in> set (raised_clocks s) \<and> map_of (clocks s') g = Some d \<longrightarrow>
           ck_seq d \<le> kvm kv a g db' \<and> g \<in> listed kv a db' r"
    using m(3) l(1) u(1) by (simp add: kvm' listed' res s1 set_raised_gids)
  show "kv_get kv (Converge a) (RoundKey r) db' = Some (conv kv a r db + (if t then 1 else 0))"
    by (simp add: db' kv_get_or [OF kv] kv_get_incrby [OF kv] conv_def kv_val_def u(5))
  show "kv_get kv (CriticalSection a) (RoundKey r) db' =
           Some (if c \<or> kv_val kv (CriticalSection a) (RoundKey r) db \<noteq> 0 then 1 else 0)"
    by (simp add: db' kv_get_or [OF kv] kv_val_def kv_get_incrby [OF kv] u(5))
  show "\<exists>n\<ge>0. kv_get kv (TargetsRaised a) (RoundKey r) db' = Some (raised_count kv a r db + n)"
    by (simp add: get u(3))
qed

text \<open>The download of a round's list gives each listed clock its value in the database, and leaves the
  others alone.  No assertion fails, since each entry and its value were set before the barrier.\<close>

definition listed_from :: "'k kvdb \<Rightarrow> nat \<Rightarrow> 'k \<Rightarrow> nat \<Rightarrow> int \<Rightarrow> int64 set" where
  "listed_from kv a db r i = {g. \<exists>j. i \<le> j \<and> j < raised_count kv a r db \<and>
     kv_get kv (RaisedGids a) (EntryKey r j) db = Some (sint g)}"

lemma listed_from_step:
  assumes "i < raised_count kv a r db" and "kv_get kv (RaisedGids a) (EntryKey r i) db = Some (sint g)"
  shows "listed_from kv a db r i = insert g (listed_from kv a db r (i + 1))"
proof (intro set_eqI iffI)
  fix h assume "h \<in> listed_from kv a db r i"
  then obtain j where j: "i \<le> j" "j < raised_count kv a r db"
      "kv_get kv (RaisedGids a) (EntryKey r j) db = Some (sint h)"
    by (auto simp: listed_from_def)
  show "h \<in> insert g (listed_from kv a db r (i + 1))"
  proof (cases "j = i")
    case True
    then show ?thesis using j assms by (auto dest!: signed_word_eqI)
  next
    case False
    then have "i + 1 \<le> j" using j by simp
    then show ?thesis using j unfolding listed_from_def by blast
  qed
next
  fix h assume "h \<in> insert g (listed_from kv a db r (i + 1))"
  then show "h \<in> listed_from kv a db r i"
  proof
    assume "h = g"
    then show ?thesis using assms unfolding listed_from_def by blast
  next
    assume "h \<in> listed_from kv a db r (i + 1)"
    then obtain j where j: "i + 1 \<le> j" "j < raised_count kv a r db"
        "kv_get kv (RaisedGids a) (EntryKey r j) db = Some (sint h)"
      by (auto simp: listed_from_def)
    then have "i \<le> j" by simp
    then show ?thesis using j unfolding listed_from_def by blast
  qed
qed

lemma download_listed_spec:
  assumes ok: "store_ok kv a db" and "0 \<le> i"
    and "\<forall>g c. g \<in> set seen \<and> map_of cs g = Some c \<longrightarrow> ck_target c = kvm kv a g db"
  shows "\<exists>cs'. download_listed kv a r db i (raised_count kv a r db) seen cs = Ok cs' \<and>
    map fst cs' = map fst cs \<and>
    (\<forall>g. map_of cs' g =
       (if g \<in> listed_from kv a db r i
        then map_option (\<lambda>c. c \<lparr> ck_target := kvm kv a g db \<rparr>) (map_of cs g) else map_of cs g))"
  using assms(2,3)
proof (induction "nat (raised_count kv a r db - i)" arbitrary: i seen cs rule: less_induct)
  case less
  let ?f = "\<lambda>g c. c \<lparr> ck_target := kvm kv a g db \<rparr>"
  show ?case
  proof (cases "raised_count kv a r db \<le> i")
    case True
    then have "listed_from kv a db r i = {}" by (auto simp: listed_from_def)
    then show ?thesis using True by (simp add: download_listed.simps [of kv a r db i])
  next
    case False
    then have lt: "i < raised_count kv a r db" by simp
    obtain g :: int64 where g: "kv_get kv (RaisedGids a) (EntryKey r i) db = Some (sint g)"
        "kv_get kv (CommSeqMax a) (GidKey g) db \<noteq> None"
      using store_ok_entry [OF ok less(2) lt] by blast
    obtain v where v: "kv_get kv (CommSeqMax a) (GidKey g) db = Some v" using g(2) by blast
    have kvm: "kvm kv a g db = v" by (simp add: kvm_def kv_val_def v)
    note lf = listed_from_step [OF lt g(1)]
    have less': "nat (raised_count kv a r db - (i + 1)) < nat (raised_count kv a r db - i)" "0 \<le> i + 1"
      using lt less(2) by simp_all
    show ?thesis
    proof (cases "map_of cs g = None \<or> g \<in> set seen")
      case True
      have "map_of cs g = map_option (?f g) (map_of cs g)"
        using True less(3) by (cases "map_of cs g") auto
      then show ?thesis
        using less(1) [OF less' less(3)] True lt g(1)
        by (auto simp: download_listed.simps [of kv a r db i] lf)
    next
      case False
      define cs1 where "cs1 = update_clock g (?f g) cs"
      have cs1: "map_of cs1 h = (if h = g then map_option (?f g) (map_of cs g) else map_of cs h)" for h
        by (simp add: cs1_def map_of_update_clock)
      have "\<forall>h c. h \<in> set (g # seen) \<and> map_of cs1 h = Some c \<longrightarrow> ck_target c = kvm kv a h db"
        using less(3) by (auto simp: cs1)
      from less(1) [OF less' this] obtain cs' where
        "download_listed kv a r db (i + 1) (raised_count kv a r db) (g # seen) cs1 = Ok cs'"
        "map fst cs' = map fst cs"
        "\<forall>h. map_of cs' h = (if h \<in> listed_from kv a db r (i + 1) then map_option (?f h) (map_of cs1 h) else map_of cs1 h)"
        by (auto simp: cs1_def)
      moreover have "download_listed kv a r db i (raised_count kv a r db) seen cs =
          download_listed kv a r db (i + 1) (raised_count kv a r db) (g # seen) cs1"
        using False lt g(1) v by (auto simp: download_listed.simps [of kv a r db i] cs1_def kvm)
      ultimately show ?thesis
        by (auto simp: lf cs1 option.map_comp comp_def)
    qed
  qed
qed

lemma listed_from_0 [simp]: "listed_from kv a db r 0 = listed kv a db r"
  by (simp add: listed_from_def listed_def)

text \<open>After the barrier of a round a process has the current target for each raised clock, whether it
  downloads the list or all targets.\<close>

lemma download_raised_targets_spec:
  assumes ok: "store_ok kv a db"
  shows "\<exists>cs v. download_raised_targets kv a r db (raised_count kv a r db) s = Ok (s \<lparr> clocks := cs, targets_version := v \<rparr>) \<and>
    map fst cs = map fst (clocks s) \<and>
    (\<forall>g c'. map_of cs g = Some c' \<longrightarrow>
       (\<exists>c. map_of (clocks s) g = Some c \<and> (c' = c \<and> g \<notin> listed kv a db r \<or> c' = c \<lparr> ck_target := kvm kv a g db \<rparr> \<or>
          c' = c \<and> kv_get kv (CommSeqMax a) (GidKey g) db = None)))"
proof (cases "raised_count kv a r db \<ge> int (length (clocks s))")
  case True
  have "\<exists>c. map_of (clocks s) g = Some c \<and> (c' = c \<and> g \<notin> listed kv a db r \<or> c' = c \<lparr> ck_target := kvm kv a g db \<rparr> \<or>
          c' = c \<and> kv_get kv (CommSeqMax a) (GidKey g) db = None)"
    if "map_of (download_clocks kv a db (clocks s)) g = Some c'" for g c'
    using that by (auto simp: map_of_download_clocks kvm_def kv_val_def split: option.splits)
  then show ?thesis
    using True unfolding download_raised_targets_def download_targets_def
    by (intro exI [of _ "download_clocks kv a db (clocks s)"] exI [of _ "targets_version s + 1"]) simp
next
  case False
  obtain cs' where cs': "download_listed kv a r db 0 (raised_count kv a r db) [] (clocks s) = Ok cs'"
    "map fst cs' = map fst (clocks s)"
    "\<forall>g. map_of cs' g = (if g \<in> listed kv a db r
        then map_option (\<lambda>c. c \<lparr> ck_target := kvm kv a g db \<rparr>) (map_of (clocks s) g) else map_of (clocks s) g)"
    using download_listed_spec [OF ok, of 0 "[]" "clocks s" r] by auto
  then show ?thesis
    using False unfolding download_raised_targets_def
    by (intro exI [of _ cs'] exI [of _ "targets_version s + 1"]) (auto split: if_splits)
qed

end
