(* ===== verification/Drain_Protocol.thy ===== *)
theory Drain_Protocol
  imports Drain_Round
begin

text \<open>
  The drain of the collective calls over a whole job: the step relation of a job of \<open>N\<close> processes,
  whose application threads enter and leave critical sections while the checkpoint threads run one
  attempt of \<^verbatim>\<open>drain_mpi_collective\<close>, and its invariant.  A finished drain leaves no process in a
  collective call and equal sequence numbers for each communicator.  A section under \<^verbatim>\<open>seq_num_lock\<close> is
  one step; the requests to the key-value database in it commute with those of other processes.
\<close>

section \<open>The job\<close>

text \<open>The program counter of a checkpoint thread in one attempt of \<^verbatim>\<open>drain_mpi_collective\<close>.  \<open>Sharing\<close>
  holds the lock; \<open>At_round r w\<close> is the head of the loop with \<open>w\<close> rounds without a raise; \<open>At_barrier\<close> keeps
  also the locals \<^verbatim>\<open>target_reached\<close> and \<^verbatim>\<open>cs\<close>.\<close>

datatype ckpt_pc =
    Not_started
  | Sharing
  | At_round nat nat
  | At_barrier nat nat bool bool
  | Drained_at nat
  | Gave_up nat

record 'k job =
  procs :: "nat \<Rightarrow> cc"
  pcs :: "nat \<Rightarrow> ckpt_pc"
  store :: 'k

text \<open>The rounds a process has contributed to, and the rounds whose barrier it has passed.\<close>

fun contributed :: "ckpt_pc \<Rightarrow> nat" where
  "contributed Not_started = 0"
| "contributed Sharing = 0"
| "contributed (At_round r w) = r"
| "contributed (At_barrier r w t c) = Suc r"
| "contributed (Drained_at r) = Suc r"
| "contributed (Gave_up r) = r"

fun passed :: "ckpt_pc \<Rightarrow> nat" where
  "passed Not_started = 0"
| "passed Sharing = 0"
| "passed (At_round r w) = r"
| "passed (At_barrier r w t c) = r"
| "passed (Drained_at r) = Suc r"
| "passed (Gave_up r) = r"

definition shared :: "ckpt_pc \<Rightarrow> bool" where
  "shared pc \<longleftrightarrow> pc \<noteq> Not_started \<and> pc \<noteq> Sharing"

inductive job_step :: "'k kvdb \<Rightarrow> nat \<Rightarrow> nat \<Rightarrow> (int64 \<Rightarrow> int) \<Rightarrow> 'k job \<Rightarrow> 'k job \<Rightarrow> bool"
  for kv :: "'k kvdb" and a :: nat and N :: nat and csize :: "int64 \<Rightarrow> int"
where
  Begin_call: "\<lbrakk> p < N; pcs j p \<noteq> Sharing; current_phase (procs j p) = IS_READY; \<not> must_wait (procs j p);
       d = None \<or> d = Some (g, csize g) \<rbrakk> \<Longrightarrow>
     job_step kv a N csize j (j \<lparr> procs := (procs j) (p := begin_critical_section d (procs j p)) \<rparr>)"
| Finish_call: "\<lbrakk> p < N; current_phase (procs j p) = IN_CS \<rbrakk> \<Longrightarrow>
     job_step kv a N csize j (j \<lparr> procs := (procs j) (p := commit_finish_phase (procs j p)) \<rparr>)"
| Add_clock: "\<lbrakk> p < N; pcs j p \<noteq> Sharing; current_phase (procs j p) = IN_CS; add_comm_clock g (procs j p) = Ok s';
       1 < csize g \<or> (\<forall>q<N. map_of (clocks (procs j q)) g = None) \<rbrakk> \<Longrightarrow>
     job_step kv a N csize j (j \<lparr> procs := (procs j) (p := s') \<rparr>)"
| Free_clock: "\<lbrakk> p < N; pcs j p \<noteq> Sharing \<rbrakk> \<Longrightarrow>
     job_step kv a N csize j
       (j \<lparr> procs := (procs j) (p := (procs j p) \<lparr> clocks := erase_clock g (clocks (procs j p)) \<rparr>) \<rparr>)"
| Share: "\<lbrakk> p < N; pcs j p = Not_started; share_upload kv a (procs j p) (store j) = (s', db') \<rbrakk> \<Longrightarrow>
     job_step kv a N csize j
       (j \<lparr> procs := (procs j) (p := s'), pcs := (pcs j) (p := Sharing), store := db' \<rparr>)"
| Shared: "\<lbrakk> p < N; pcs j p = Sharing; \<forall>q<N. pcs j q \<noteq> Not_started \<rbrakk> \<Longrightarrow>
     job_step kv a N csize j
       (j \<lparr> procs := (procs j) (p := share_download kv a (store j) (procs j p)), pcs := (pcs j) (p := At_round 0 0) \<rparr>)"
| Contribute: "\<lbrakk> p < N; pcs j p = At_round r w; w < MAX_DRAIN_ROUNDS;
       drain_round kv a r (procs j p) (store j) = (t, c, s', db') \<rbrakk> \<Longrightarrow>
     job_step kv a N csize j
       (j \<lparr> procs := (procs j) (p := s'), pcs := (pcs j) (p := At_barrier r w t c), store := db' \<rparr>)"
| Drained: "\<lbrakk> p < N; pcs j p = At_barrier r w t c; \<forall>q<N. r < contributed (pcs j q);
       drain_decide kv a r (int N) (store j) (procs j p) = Ok (round_end.Drained, s') \<rbrakk> \<Longrightarrow>
     job_step kv a N csize j (j \<lparr> procs := (procs j) (p := s'), pcs := (pcs j) (p := Drained_at r) \<rparr>)"
| Next: "\<lbrakk> p < N; pcs j p = At_barrier r w t c; \<forall>q<N. r < contributed (pcs j q);
       drain_decide kv a r (int N) (store j) (procs j p) = Ok (Next_round b, s') \<rbrakk> \<Longrightarrow>
     job_step kv a N csize j
       (j \<lparr> procs := (procs j) (p := s'), pcs := (pcs j) (p := At_round (Suc r) (if b then 0 else Suc w)) \<rparr>)"
| Give_up: "\<lbrakk> p < N; pcs j p = At_round r w; MAX_DRAIN_ROUNDS \<le> w \<rbrakk> \<Longrightarrow>
     job_step kv a N csize j
       (j \<lparr> procs := (procs j) (p := (procs j p) \<lparr> ckpt_pending := False \<rparr>), pcs := (pcs j) (p := Gave_up r) \<rparr>)"

section \<open>The invariant\<close>

text \<open>A process takes part in the attempt from its upload until it gives up.\<close>

definition active :: "ckpt_pc \<Rightarrow> bool" where
  "active pc \<longleftrightarrow> pc \<noteq> Not_started \<and> (\<forall>r. pc \<noteq> Gave_up r)"

definition informed :: "ckpt_pc \<Rightarrow> bool" where
  "informed pc \<longleftrightarrow> active pc \<and> pc \<noteq> Sharing"

text \<open>The rounds whose lists the process has still to read.\<close>

fun unread :: "ckpt_pc \<Rightarrow> nat set" where
  "unread (At_round r w) = {r}"
| "unread (At_barrier r w t c) = {r, Suc r}"
| "unread (Drained_at r) = {r, Suc r}"
| "unread _ = {}"

text \<open>A process that reached its targets outside a critical section.\<close>

fun settled :: "ckpt_pc \<Rightarrow> bool" where
  "settled (At_barrier r w t c) = (t \<and> \<not> c)"
| "settled (Drained_at r) = True"
| "settled _ = False"

definition clock_ok :: "'k kvdb \<Rightarrow> nat \<Rightarrow> 'k \<Rightarrow> cc \<Rightarrow> ckpt_pc \<Rightarrow> int64 \<Rightarrow> comm_clock \<Rightarrow> bool" where
  "clock_ok kv a db s pc g c \<longleftrightarrow>
     (active pc \<longrightarrow> ck_seq c \<le> kvm kv a g db \<or> g \<in> set (raised_clocks s)) \<and>
     (pc = Sharing \<longrightarrow> kv_get kv (CommSeqMax a) (GidKey g) db \<noteq> None) \<and>
     (informed pc \<longrightarrow> ck_target c \<le> kvm kv a g db \<or> g \<in> set (raised_clocks s) \<and> ck_target c \<le> ck_seq c) \<and>
     (informed pc \<longrightarrow> kvm kv a g db \<le> ck_target c \<or> added_clock s \<or> (\<exists>r\<in>unread pc. g \<in> listed kv a db r))"

definition proc_ok :: "'k kvdb \<Rightarrow> nat \<Rightarrow> (int64 \<Rightarrow> int) \<Rightarrow> 'k \<Rightarrow> cc \<Rightarrow> ckpt_pc \<Rightarrow> bool" where
  "proc_ok kv a csize db s pc \<longleftrightarrow>
     distinct (map fst (clocks s)) \<and>
     (\<forall>g c. map_of (clocks s) g = Some c \<longrightarrow> 0 \<le> ck_seq c \<and> 0 \<le> ck_target c) \<and>
     (active pc \<longrightarrow> ckpt_pending s) \<and>
     (\<forall>g c. map_of (clocks s) g = Some c \<and> 1 < csize g \<longrightarrow> clock_ok kv a db s pc g c) \<and>
     (settled pc \<longrightarrow> current_phase s = IS_READY \<and> check_seq_nums s \<and> raised_clocks s = [] \<and> \<not> added_clock s)"

lemma clock_ok_frame [simp]:
  "clock_ok kv a db (s \<lparr> current_phase := x \<rparr>) = clock_ok kv a db s"
  "clock_ok kv a db (s \<lparr> clocks := cs \<rparr>) = clock_ok kv a db s"
  "clock_ok kv a db (s \<lparr> clocks := cs, targets_version := v \<rparr>) = clock_ok kv a db s"
  by (simp_all add: clock_ok_def fun_eq_iff)

lemma clock_ok_drained: "clock_ok kv a db s (At_barrier r w t c) = clock_ok kv a db s (Drained_at r)"
  by (simp add: clock_ok_def active_def informed_def fun_eq_iff)

lemma clocks_all:
  assumes "distinct (map fst cs)"
  shows "(\<forall>(g, c)\<in>set cs. P g c) \<longleftrightarrow> (\<forall>g c. map_of cs g = Some c \<longrightarrow> P g c)"
  using map_of_eq_Some_iff [OF assms] by auto

lemma proc_okD:
  assumes "proc_ok kv a csize db s pc"
  shows proc_ok_distinct: "distinct (map fst (clocks s))"
    and proc_ok_nonneg: "map_of (clocks s) g = Some c \<Longrightarrow> 0 \<le> ck_seq c \<and> 0 \<le> ck_target c"
    and proc_ok_pending: "active pc \<Longrightarrow> ckpt_pending s"
    and proc_ok_clock: "map_of (clocks s) g = Some c \<Longrightarrow> 1 < csize g \<Longrightarrow> clock_ok kv a db s pc g c"
    and proc_ok_settled: "settled pc \<Longrightarrow> current_phase s = IS_READY \<and> check_seq_nums s \<and> raised_clocks s = [] \<and> \<not> added_clock s"
    and proc_ok_seqs: "\<forall>(g, c)\<in>set (clocks s). 0 \<le> ck_seq c"
    and proc_ok_check: "check_seq_nums s \<longleftrightarrow> (\<forall>g c. map_of (clocks s) g = Some c \<longrightarrow> ck_target c \<le> ck_seq c)"
proof -
  have d: "distinct (map fst (clocks s))"
    and n: "\<forall>g c. map_of (clocks s) g = Some c \<longrightarrow> 0 \<le> ck_seq c \<and> 0 \<le> ck_target c"
    using assms by (simp_all add: proc_ok_def)
  show "distinct (map fst (clocks s))" by (fact d)
  show "map_of (clocks s) g = Some c \<Longrightarrow> 0 \<le> ck_seq c \<and> 0 \<le> ck_target c" using n by blast
  show "\<forall>(g, c)\<in>set (clocks s). 0 \<le> ck_seq c" using n by (simp add: clocks_all [OF d])
  show "check_seq_nums s \<longleftrightarrow> (\<forall>g c. map_of (clocks s) g = Some c \<longrightarrow> ck_target c \<le> ck_seq c)"
    by (simp add: check_seq_nums_iff clocks_all [OF d])
qed (use assms in \<open>simp_all add: proc_ok_def\<close>)

subsection \<open>Steps of the application\<close>

lemma must_wait_settled:
  assumes "proc_ok kv a csize db s pc" and "settled pc"
  shows "must_wait s" and "current_phase s = IS_READY"
  using proc_ok_settled [OF assms] proc_ok_pending [OF assms(1)] assms(2)
  by (cases pc; simp add: must_wait_def active_def)+

lemma proc_ok_begin:
  assumes ok: "proc_ok kv a csize db s pc" and pc: "pc \<noteq> Sharing" and nw: "\<not> must_wait s"
    and d: "d = None \<or> d = Some (g, csize g)"
  shows "proc_ok kv a csize db (begin_critical_section d s) pc"
proof -
  have ns: "\<not> settled pc" using must_wait_settled(1) [OF ok] nw by blast
  show ?thesis
  proof (cases "d = None \<or> map_of (clocks s) g = None")
    case True
    then have "begin_critical_section d s = s \<lparr> current_phase := IN_CS \<rparr>"
      using d by (auto simp: begin_critical_section_def)
    then show ?thesis using ok ns by (simp add: proc_ok_def)
  next
    case False
    then obtain c where c: "map_of (clocks s) g = Some c" and d': "d = Some (g, csize g)" using d by auto
    define s' where "s' = begin_critical_section d s"
    define up where "up \<longleftrightarrow> ckpt_pending s \<and> ck_seq c + 1 > ck_target c"
    define c' where "c' = c \<lparr> ck_seq := ck_seq c + 1, ck_target := if up then ck_seq c + 1 else ck_target c \<rparr>"
    have s': "map fst (clocks s') = map fst (clocks s)" "ckpt_pending s' = ckpt_pending s" "added_clock s' = added_clock s"
        "set (raised_clocks s') = set (raised_clocks s) \<union> (if up \<and> 1 < csize g then {g} else {})"
        "map_of (clocks s') h = (if h = g then Some c' else map_of (clocks s) h)" for h
      unfolding s'_def begin_critical_section_def d' c'_def up_def
      by (simp_all add: c map_of_update_clock Let_def)
    have nn: "0 \<le> ck_seq c \<and> 0 \<le> ck_target c" using proc_ok_nonneg [OF ok c] .
    have "clock_ok kv a db s' pc g c'" if "1 < csize g"
      using proc_ok_clock [OF ok c that] proc_ok_pending [OF ok] pc that
      unfolding clock_ok_def s' by (auto simp: c'_def up_def informed_def)
    moreover have "clock_ok kv a db s' pc h e" if "map_of (clocks s) h = Some e" "1 < csize h" "h \<noteq> g" for h e
      using proc_ok_clock [OF ok that(1,2)] that(3) unfolding clock_ok_def s' by auto
    ultimately have "\<forall>h e. map_of (clocks s') h = Some e \<and> 1 < csize h \<longrightarrow> clock_ok kv a db s' pc h e"
      by (auto simp: s'(5))
    moreover have "\<forall>h e. map_of (clocks s') h = Some e \<longrightarrow> 0 \<le> ck_seq e \<and> 0 \<le> ck_target e"
      using proc_ok_nonneg [OF ok] nn by (auto simp: s'(5) c'_def)
    ultimately show ?thesis
      using ok ns unfolding proc_ok_def s'_def [symmetric] by (simp add: s'(1,2))
  qed
qed

lemma proc_ok_finish:
  assumes "proc_ok kv a csize db s pc"
  shows "proc_ok kv a csize db (commit_finish_phase s) pc"
  using assms by (simp add: proc_ok_def commit_finish_phase_def check_seq_nums_def)

lemma proc_ok_add:
  assumes ok: "proc_ok kv a csize db s pc" and "store_ok kv a db" and pc: "pc \<noteq> Sharing"
    and "current_phase s = IN_CS" and add: "add_comm_clock g s = Ok s'"
  shows "proc_ok kv a csize db s' pc"
proof -
  have new: "map_of (clocks s) g = None" and s': "s' = s \<lparr> clocks := clocks s @ [(g, \<lparr> ck_seq = 0, ck_target = 0 \<rparr>)],
      added_clock := (if ckpt_pending s then True else added_clock s) \<rparr>"
    using add by (auto simp: add_comm_clock_def split: if_splits)
  have get: "map_of (clocks s') h = (if h = g then Some \<lparr> ck_seq = 0, ck_target = 0 \<rparr> else map_of (clocks s) h)" for h
    using new by (auto simp: s' map_add_def split: option.split)
  have "clock_ok kv a db s' pc g \<lparr> ck_seq = 0, ck_target = 0 \<rparr>"
    using assms(2) proc_ok_pending [OF ok] pc by (auto simp: clock_ok_def store_ok_def s' informed_def)
  moreover have "clock_ok kv a db s' pc h c" if "map_of (clocks s) h = Some c" "1 < csize h" for h c
    using proc_ok_clock [OF ok that] by (auto simp: clock_ok_def s')
  ultimately have "\<forall>h c. map_of (clocks s') h = Some c \<and> 1 < csize h \<longrightarrow> clock_ok kv a db s' pc h c"
    by (auto simp: get)
  moreover have "\<forall>h c. map_of (clocks s') h = Some c \<longrightarrow> 0 \<le> ck_seq c \<and> 0 \<le> ck_target c"
    using proc_ok_nonneg [OF ok] by (auto simp: get)
  moreover have "distinct (map fst (clocks s'))"
    using proc_ok_distinct [OF ok] new by (auto simp: s' map_of_eq_None_iff)
  moreover have "\<not> settled pc" using must_wait_settled(2) [OF ok] assms(4) by auto
  ultimately show ?thesis using ok unfolding proc_ok_def by (simp add: s')
qed

lemma proc_ok_erase:
  assumes ok: "proc_ok kv a csize db s pc"
  shows "proc_ok kv a csize db (s \<lparr> clocks := erase_clock g (clocks s) \<rparr>) pc"
proof -
  have "distinct (map fst (erase_clock g (clocks s)))"
    using proc_ok_distinct [OF ok] by (simp add: erase_clock_def distinct_map_filter)
  moreover have "check_seq_nums s \<Longrightarrow> check_seq_nums (s \<lparr> clocks := erase_clock g (clocks s) \<rparr>)"
    by (auto simp: check_seq_nums_iff erase_clock_def)
  ultimately show ?thesis
    using ok unfolding proc_ok_def by (simp add: map_of_erase_clock)
qed

subsection \<open>Steps of the drain\<close>

lemma proc_ok_share:
  assumes kv: "kvdb_ok kv" and ok: "proc_ok kv a csize db s Not_started"
    and up: "share_upload kv a s db = (s', db')"
  shows "proc_ok kv a csize db' s' Sharing"
proof -
  have s': "s' = s \<lparr> ckpt_pending := True, raised_clocks := [], added_clock := False \<rparr>"
    and db': "db' = upload_seq_num kv a (clocks s) db"
    using up by (auto simp: share_upload_def)
  have "clock_ok kv a db' s' Sharing g c" if "map_of (clocks s) g = Some c" for g c
    using upload_seq_num_covers [OF kv proc_ok_seqs [OF ok] map_of_SomeD [OF that]]
      upload_seq_num_present [OF kv, of a g db "clocks s"] map_of_SomeD [OF that]
    by (force simp: clock_ok_def informed_def db')
  then show ?thesis using ok unfolding proc_ok_def by (simp add: s')
qed

text \<open>The upload of one process keeps the invariant of the others that have not downloaded yet.\<close>

lemma proc_ok_shared_by_other:
  assumes kv: "kvdb_ok kv" and ok: "proc_ok kv a csize db s pc" and pc: "\<not> informed pc"
    and cs: "\<forall>(g, c)\<in>set cs. 0 \<le> ck_seq c"
  shows "proc_ok kv a csize (upload_seq_num kv a cs db) s pc"
proof -
  have "clock_ok kv a (upload_seq_num kv a cs db) s pc g c" if "map_of (clocks s) g = Some c" "1 < csize g" for g c
    using proc_ok_clock [OF ok that] pc order_trans [OF _ upload_seq_num_mono [OF kv cs]]
      upload_seq_num_present [OF kv, of a g db cs]
    by (auto simp: clock_ok_def)
  then show ?thesis using ok unfolding proc_ok_def by simp
qed

lemma proc_ok_download:
  assumes ok: "proc_ok kv a csize db s Sharing" and st: "store_ok kv a db"
  shows "proc_ok kv a csize db (share_download kv a db s) (At_round 0 0)"
proof -
  let ?s = "share_download kv a db s"
  have s: "clocks ?s = download_clocks kv a db (clocks s)" "ckpt_pending ?s = ckpt_pending s"
      "raised_clocks ?s = raised_clocks s"
    by (simp_all add: share_download_def download_targets_def)
  have nn: "0 \<le> v" if "kv_get kv (CommSeqMax a) (GidKey g) db = Some v" for g v
    using st that by (auto simp: store_ok_def kvm_def kv_val_def dest: spec [of _ g])
  have "clock_ok kv a db ?s (At_round 0 0) g c" if gc: "map_of (clocks ?s) g = Some c" "1 < csize g" for g c
  proof -
    obtain e where e: "map_of (clocks s) g = Some e" using gc(1) by (auto simp: s map_of_download_clocks)
    then show ?thesis
      using proc_ok_clock [OF ok e gc(2)] gc(1)
      by (auto simp: s map_of_download_clocks clock_ok_def kvm_def kv_val_def active_def)
  qed
  moreover have "0 \<le> ck_seq c \<and> 0 \<le> ck_target c" if "map_of (clocks ?s) g = Some c" for g c
    using that proc_ok_nonneg [OF ok] nn by (auto simp: s map_of_download_clocks split: option.splits)
  ultimately show ?thesis
    using ok unfolding proc_ok_def by (simp add: s active_def)
qed

text \<open>A contribution to round \<open>r\<close>: the process itself, and any other process that still reads the list of
  round \<open>r\<close>.\<close>

lemma proc_ok_contribute:
  assumes kv: "kvdb_ok kv" and ok: "proc_ok kv a csize db s (At_round r w)" and st: "store_ok kv a db"
    and rnd: "drain_round kv a r s db = (t, c, s', db')"
  shows "proc_ok kv a csize db' s' (At_barrier r w t c)"
proof -
  note R = drain_round_spec [OF kv proc_ok_seqs [OF ok] st rnd]
  have step: "\<forall>g. kvm kv a g db \<le> kvm kv a g db'" "\<forall>g. kvm kv a g db' \<noteq> kvm kv a g db \<longrightarrow> g \<in> listed kv a db' r"
      "listed kv a db r \<subseteq> listed kv a db' r"
    using R(8) by (simp_all add: store_step_def)
  have nn: "0 \<le> v" if "kv_get kv (CommSeqMax a) (GidKey g) db = Some v" for g v
    using st that by (auto simp: store_ok_def kvm_def kv_val_def dest: spec [of _ g])
  have old: "\<exists>e. map_of (clocks s) g = Some e \<and> ck_seq d = ck_seq e \<and> 0 \<le> ck_seq d \<and> 0 \<le> ck_target d \<and>
      (ck_target d = ck_target e \<and> (added_clock s \<longrightarrow> kvm kv a g db \<le> ck_target d) \<or> ck_target d = kvm kv a g db)"
    if gd: "map_of (clocks s') g = Some d" for g d
  proof -
    obtain e where e: "map_of (clocks s) g = Some e"
      and d: "d = (if added_clock s then (case kv_get kv (CommSeqMax a) (GidKey g) db of
                     Some v \<Rightarrow> e \<lparr> ck_target := v \<rparr> | None \<Rightarrow> e) else e)"
      using gd unfolding R(3) round_clocks_def by (auto simp: map_of_download_clocks split: if_splits)
    show ?thesis
      using proc_ok_nonneg [OF ok e] nn [of g] e d
      by (cases "added_clock s"; cases "kv_get kv (CommSeqMax a) (GidKey g) db") (simp_all add: kvm_def kv_val_def)
  qed
  have "clock_ok kv a db' s' (At_barrier r w t c) g d" if gd: "map_of (clocks s') g = Some d" "1 < csize g" for g d
  proof -
    obtain e where e: "map_of (clocks s) g = Some e" "ck_seq d = ck_seq e"
      "ck_target d = ck_target e \<and> (added_clock s \<longrightarrow> kvm kv a g db \<le> ck_target d) \<or> ck_target d = kvm kv a g db"
      using old [OF gd(1)] by blast
    have le: "kvm kv a g db \<le> kvm kv a g db'" using step(1) by blast
    have raised: "ck_seq d \<le> kvm kv a g db'" if "g \<in> set (raised_clocks s)" using R(10) that gd(1) by blast
    have eq: "kvm kv a g db' = kvm kv a g db" if "g \<notin> listed kv a db' r" using step(2) that by blast
    have mem: "g \<in> listed kv a db' r" if "g \<in> listed kv a db r" using step(3) that by blast
    show ?thesis
      using proc_ok_clock [OF ok e(1) gd(2)] e(2,3) le raised eq mem
      unfolding clock_ok_def by (cases "g \<in> listed kv a db' r") (auto simp: active_def informed_def)
  qed
  moreover have "distinct (map fst (clocks s'))"
    using proc_ok_distinct [OF ok] by (simp add: R(3) round_clocks_def)
  moreover have "ckpt_pending s'" using proc_ok_pending [OF ok] by (simp add: R(1) active_def)
  moreover have "current_phase s' = IS_READY" if "\<not> c"
    using that R(2,7) by (cases "current_phase s") auto
  ultimately show ?thesis
    using old R(4,5,6) unfolding proc_ok_def by auto
qed

lemma proc_ok_other_contributes:
  assumes ok: "proc_ok kv a csize db s pc" and step: "store_step kv a r db db'"
    and r: "informed pc \<Longrightarrow> r \<in> unread pc"
  shows "proc_ok kv a csize db' s pc"
proof -
  have "clock_ok kv a db' s pc g c" if gc: "map_of (clocks s) g = Some c" "1 < csize g" for g c
  proof -
    have le: "kvm kv a g db \<le> kvm kv a g db'" using step by (simp add: store_step_def)
    have eq: "kvm kv a g db' = kvm kv a g db" if "g \<notin> listed kv a db' r"
      using step that by (auto simp: store_step_def)
    have mem: "g \<in> listed kv a db' r'" if "g \<in> listed kv a db r'" for r'
      using step that by (cases "r' = r") (auto simp: store_step_def)
    have "kv_get kv (CommSeqMax a) (GidKey g) db' \<noteq> None" if "kv_get kv (CommSeqMax a) (GidKey g) db \<noteq> None"
      using step that by (simp add: store_step_def)
    then show ?thesis
      using proc_ok_clock [OF ok gc] le eq mem r unfolding clock_ok_def
      by (cases "g \<in> listed kv a db' r") (auto simp: informed_def)
  qed
  then show ?thesis using ok unfolding proc_ok_def by simp
qed

lemma drain_decide_cases:
  assumes "drain_decide kv a r n db s = Ok (e, s')"
  shows "e = round_end.Drained \<and> s' = s \<and> conv kv a r db = n \<and> raised_count kv a r db = 0 \<and>
           kv_val kv (CriticalSection a) (RoundKey r) db = 0 \<or>
         e = Next_round True \<and> raised_count kv a r db > 0 \<and>
           download_raised_targets kv a r db (raised_count kv a r db) s = Ok s' \<or>
         e = Next_round False \<and> s' = s \<and> raised_count kv a r db \<le> 0 \<and>
           \<not> (conv kv a r db = n \<and> raised_count kv a r db = 0 \<and> kv_val kv (CriticalSection a) (RoundKey r) db = 0)"
  using assms unfolding drain_decide_def
  by (auto simp: conv_def raised_count_def kv_val_def bind_result_Ok_iff split: option.splits if_splits)

lemma proc_ok_next:
  assumes ok: "proc_ok kv a csize db s (At_barrier r w t c)" and st: "store_ok kv a db"
    and dec: "drain_decide kv a r n db s = Ok (Next_round b, s')"
  shows "proc_ok kv a csize db s' (At_round (Suc r) w')"
proof (cases b)
  case True
  obtain cs v where s': "s' = s \<lparr> clocks := cs, targets_version := v \<rparr>" and keys: "map fst cs = map fst (clocks s)"
    and get: "\<forall>g c'. map_of cs g = Some c' \<longrightarrow> (\<exists>e. map_of (clocks s) g = Some e \<and>
       (c' = e \<and> g \<notin> listed kv a db r \<or> c' = e \<lparr> ck_target := kvm kv a g db \<rparr> \<or>
        c' = e \<and> kv_get kv (CommSeqMax a) (GidKey g) db = None))"
    using drain_decide_cases [OF dec] True download_raised_targets_spec [OF st, of r s] by auto
  have clk: "\<exists>e. map_of (clocks s) g = Some e \<and> ck_seq d = ck_seq e \<and> 0 \<le> ck_target d \<and>
      (ck_target d = ck_target e \<and> g \<notin> listed kv a db r \<or> ck_target d = kvm kv a g db \<or>
       ck_target d = ck_target e \<and> kvm kv a g db \<le> ck_target d)" if "map_of cs g = Some d" for g d
  proof -
    from get that obtain e where e: "map_of (clocks s) g = Some e" "d = e \<and> g \<notin> listed kv a db r \<or>
        d = e \<lparr> ck_target := kvm kv a g db \<rparr> \<or> d = e \<and> kv_get kv (CommSeqMax a) (GidKey g) db = None"
      by blast
    moreover have "0 \<le> kvm kv a g db" using st by (simp add: store_ok_def)
    ultimately show ?thesis
      using proc_ok_nonneg [OF ok e(1)] by (elim disjE) (simp_all add: kvm_def kv_val_def)
  qed
  have "clock_ok kv a db s' (At_round (Suc r) w') g d" if "map_of cs g = Some d" "1 < csize g" for g d
    using clk [OF that(1)] proc_ok_clock [OF ok _ that(2), of _ ]
    by (fastforce simp: s' clock_ok_def active_def informed_def)
  moreover have "0 \<le> ck_seq d \<and> 0 \<le> ck_target d" if "map_of cs g = Some d" for g d
    using clk [OF that] proc_ok_nonneg [OF ok, of g] by force
  ultimately show ?thesis
    using ok keys unfolding proc_ok_def by (simp add: s' active_def)
next
  case False
  have s': "s' = s" and cnt: "raised_count kv a r db \<le> 0"
    using drain_decide_cases [OF dec] False by auto
  then have "listed kv a db r = {}" by (auto simp: listed_def)
  then have "clock_ok kv a db s (At_round (Suc r) w') g d" if "map_of (clocks s) g = Some d" "1 < csize g" for g d
    using proc_ok_clock [OF ok that] by (auto simp: clock_ok_def active_def informed_def)
  then show ?thesis
    using ok unfolding proc_ok_def by (simp add: s' active_def)
qed

subsection \<open>The counters of the rounds\<close>

definition good_round :: "'k kvdb \<Rightarrow> nat \<Rightarrow> nat \<Rightarrow> 'k \<Rightarrow> nat \<Rightarrow> bool" where
  "good_round kv a N db r \<longleftrightarrow> conv kv a r db = int N \<and> raised_count kv a r db = 0 \<and>
     kv_val kv (CriticalSection a) (RoundKey r) db = 0"

text \<open>Whether a process can have added to \<^verbatim>\<open>CONVERGE\<close> of round \<open>r\<close>.\<close>

definition may_count :: "nat \<Rightarrow> ckpt_pc \<Rightarrow> bool" where
  "may_count r pc \<longleftrightarrow> r < contributed pc \<and> (\<forall>w c. pc \<noteq> At_barrier r w False c)"

fun round_of :: "ckpt_pc \<Rightarrow> nat" where
  "round_of (At_round r w) = r"
| "round_of (At_barrier r w t c) = r"
| "round_of (Drained_at r) = r"
| "round_of (Gave_up r) = r"
| "round_of _ = 0"

definition round_keys :: "nat \<Rightarrow> kv_db set" where
  "round_keys a = {Converge a, CriticalSection a, TargetsRaised a}"

definition rounds_ok :: "'k kvdb \<Rightarrow> nat \<Rightarrow> nat \<Rightarrow> (nat \<Rightarrow> ckpt_pc) \<Rightarrow> 'k \<Rightarrow> bool" where
  "rounds_ok kv a N pc db \<longleftrightarrow>
     (\<forall>p<N. \<forall>q<N. passed (pc p) \<le> contributed (pc q)) \<and>
     (\<forall>p<N. \<forall>q<N. shared (pc p) \<longrightarrow> pc q \<noteq> Not_started) \<and>
     (\<forall>p<N. \<forall>r d. r < contributed (pc p) \<and> d \<in> round_keys a \<longrightarrow> kv_get kv d (RoundKey r) db \<noteq> None) \<and>
     (\<forall>r. conv kv a r db \<le> int (card {q. q < N \<and> may_count r (pc q)})) \<and>
     (\<forall>r. (\<forall>p<N. contributed (pc p) \<le> r) \<longrightarrow> raised_count kv a r db = 0) \<and>
     (\<forall>p<N. \<forall>r w t. pc p = At_barrier r w t True \<longrightarrow> kv_val kv (CriticalSection a) (RoundKey r) db \<noteq> 0) \<and>
     (\<forall>p<N. \<forall>r. round_of (pc p) = Suc r \<longrightarrow> \<not> good_round kv a N db r) \<and>
     (\<forall>p<N. \<forall>r. pc p = Drained_at r \<longrightarrow> good_round kv a N db r \<and>
        (\<forall>q<N. pc q = Drained_at r \<or> (\<exists>w. pc q = At_barrier r w True False)))"

lemma rounds_okD:
  assumes "rounds_ok kv a N pc db"
  shows rounds_ok_barrier: "p < N \<Longrightarrow> q < N \<Longrightarrow> passed (pc p) \<le> contributed (pc q)"
    and rounds_ok_shared: "p < N \<Longrightarrow> q < N \<Longrightarrow> shared (pc p) \<Longrightarrow> pc q \<noteq> Not_started"
    and rounds_ok_present: "p < N \<Longrightarrow> r < contributed (pc p) \<Longrightarrow> d \<in> round_keys a \<Longrightarrow> kv_get kv d (RoundKey r) db \<noteq> None"
    and rounds_ok_conv: "conv kv a r db \<le> int (card {q. q < N \<and> may_count r (pc q)})"
    and rounds_ok_unused: "(\<forall>p<N. contributed (pc p) \<le> r) \<Longrightarrow> raised_count kv a r db = 0"
    and rounds_ok_cs: "p < N \<Longrightarrow> pc p = At_barrier r w t True \<Longrightarrow> kv_val kv (CriticalSection a) (RoundKey r) db \<noteq> 0"
    and rounds_ok_bad: "p < N \<Longrightarrow> round_of (pc p) = Suc r \<Longrightarrow> \<not> good_round kv a N db r"
    and rounds_ok_drained: "p < N \<Longrightarrow> pc p = Drained_at r \<Longrightarrow> good_round kv a N db r"
    and rounds_ok_all: "p < N \<Longrightarrow> pc p = Drained_at r \<Longrightarrow> q < N \<Longrightarrow>
           pc q = Drained_at r \<or> (\<exists>w. pc q = At_barrier r w True False)"
  using assms unfolding rounds_ok_def by blast+

text \<open>If the counters of a round are good after its barrier, every process reached its targets in it.\<close>

lemma good_round_all:
  assumes ok: "rounds_ok kv a N pc db" and good: "good_round kv a N db r"
    and p: "p < N" "pc p = At_barrier r w t c" and all: "\<forall>q<N. r < contributed (pc q)" and q: "q < N"
  shows "pc q = Drained_at r \<or> (\<exists>w. pc q = At_barrier r w True False)"
proof -
  have "card {q. q < N \<and> may_count r (pc q)} = N"
  proof (rule antisym)
    show "card {q. q < N \<and> may_count r (pc q)} \<le> N"
      using card_mono [of "{..<N}" "{q. q < N \<and> may_count r (pc q)}"] by force
    show "N \<le> card {q. q < N \<and> may_count r (pc q)}"
      using rounds_ok_conv [OF ok, of r] good by (simp add: good_round_def)
  qed
  then have "{q. q < N \<and> may_count r (pc q)} = {..<N}"
    using card_subset_eq [of "{..<N}" "{q. q < N \<and> may_count r (pc q)}"] by force
  then have m: "may_count r (pc q)" using q by blast
  have le: "passed (pc q) \<le> Suc r" using rounds_ok_barrier [OF ok q p(1)] p(2) by simp
  have "r < contributed (pc q)" using all q by blast
  then show ?thesis
  proof (cases "pc q")
    case (At_round r' w')
    then show ?thesis using m le rounds_ok_bad [OF ok q, of r] good by (auto simp: may_count_def)
  next
    case (At_barrier r' w' t' c')
    show ?thesis
    proof (cases "r' = r")
      case True
      then show ?thesis using m At_barrier rounds_ok_cs [OF ok q] good
        by (cases t'; cases c') (auto simp: may_count_def good_round_def)
    next
      case False
      then show ?thesis using m le At_barrier rounds_ok_bad [OF ok q, of r] good by (auto simp: may_count_def)
    qed
  next
    case (Drained_at r')
    then show ?thesis using m le by (auto simp: may_count_def)
  next
    case (Gave_up r')
    then show ?thesis using m le rounds_ok_bad [OF ok q, of r] good by (auto simp: may_count_def)
  qed (auto simp: may_count_def m)
qed

lemma rounds_ok_store:
  assumes ok: "rounds_ok kv a N pc db"
    and eq: "\<forall>d\<in>round_keys a. \<forall>r. kv_get kv d (RoundKey r) db' = kv_get kv d (RoundKey r) db"
  shows "rounds_ok kv a N pc db'"
proof -
  have "conv kv a r db' = conv kv a r db" "raised_count kv a r db' = raised_count kv a r db"
      "kv_val kv (CriticalSection a) (RoundKey r) db' = kv_val kv (CriticalSection a) (RoundKey r) db" for r
    using eq by (simp_all add: conv_def raised_count_def kv_val_def round_keys_def)
  then show ?thesis
    using ok eq unfolding rounds_ok_def good_round_def by simp
qed

text \<open>A checkpoint thread passes a barrier.\<close>

lemma rounds_ok_move:
  assumes ok: "rounds_ok kv a N pc db" and p: "p < N"
    and x: "contributed x = contributed (pc p)" "x \<noteq> Not_started" "\<And>r w t c. x \<noteq> At_barrier r w t c"
    and barrier: "\<forall>q<N. passed x \<le> contributed (pc q)" "shared x \<Longrightarrow> \<forall>q<N. pc q \<noteq> Not_started"
    and bad: "\<And>r. round_of x = Suc r \<Longrightarrow> \<not> good_round kv a N db r"
    and drained: "\<And>q r. q < N \<Longrightarrow> pc q = Drained_at r \<Longrightarrow> x = Drained_at r"
    and good: "\<And>r. x = Drained_at r \<Longrightarrow> good_round kv a N db r \<and>
        (\<forall>q<N. pc q = Drained_at r \<or> (\<exists>w. pc q = At_barrier r w True False))"
  shows "rounds_ok kv a N (pc(p := x)) db"
proof -
  let ?pc = "pc(p := x)"
  have c: "contributed (?pc q) = contributed (pc q)" for q by (simp add: x(1))
  have "passed (?pc q) \<le> contributed (?pc q')" if "q < N" "q' < N" for q q'
    unfolding c using rounds_ok_barrier [OF ok that] barrier(1) that(2) by simp
  moreover have "?pc q' \<noteq> Not_started" if "q < N" "q' < N" "shared (?pc q)" for q q'
    using rounds_ok_shared [OF ok that(1,2)] barrier(2) that x(2) by (cases "q = p") auto
  moreover have "kv_get kv d (RoundKey r) db \<noteq> None" if "q < N" "r < contributed (?pc q)" "d \<in> round_keys a" for q r d
    using rounds_ok_present [OF ok that(1) _ that(3)] that(2) unfolding c .
  moreover have "conv kv a r db \<le> int (card {q. q < N \<and> may_count r (?pc q)})" for r
  proof -
    have "card {q. q < N \<and> may_count r (pc q)} \<le> card {q. q < N \<and> may_count r (?pc q)}"
      by (rule card_mono) (auto simp: may_count_def x)
    then show ?thesis using rounds_ok_conv [OF ok, of r] by linarith
  qed
  moreover have "raised_count kv a r db = 0" if "\<forall>q<N. contributed (?pc q) \<le> r" for r
    using rounds_ok_unused [OF ok] that unfolding c .
  moreover have "kv_val kv (CriticalSection a) (RoundKey r) db \<noteq> 0"
    if "q < N" "?pc q = At_barrier r w t True" for q r w t
    using rounds_ok_cs [OF ok that(1)] that(2) x(3) by (cases "q = p") auto
  moreover have "\<not> good_round kv a N db r" if "q < N" "round_of (?pc q) = Suc r" for q r
    using rounds_ok_bad [OF ok that(1)] that(2) bad by (cases "q = p") auto
  moreover have "good_round kv a N db r \<and> (\<forall>q<N. ?pc q = Drained_at r \<or> (\<exists>w. ?pc q = At_barrier r w True False))"
    if q: "q < N" "?pc q = Drained_at r" for q r
  proof -
    have xr: "x = Drained_at r" using drained q by (cases "q = p") auto
    then show ?thesis using good [OF xr] by auto
  qed
  ultimately show ?thesis unfolding rounds_ok_def by (intro conjI allI impI) blast+
qed

lemma rounds_ok_contribute:
  assumes ok: "rounds_ok kv a N pc db" and p: "p < N" "pc p = At_round r w"
    and step: "store_step kv a r db db'"
    and conv: "kv_get kv (Converge a) (RoundKey r) db' = Some (conv kv a r db + (if t then 1 else 0))"
    and cs: "kv_get kv (CriticalSection a) (RoundKey r) db' =
           Some (if c \<or> kv_val kv (CriticalSection a) (RoundKey r) db \<noteq> 0 then 1 else 0)"
    and cnt: "kv_get kv (TargetsRaised a) (RoundKey r) db' \<noteq> None"
  shows "rounds_ok kv a N (pc(p := At_barrier r w t c)) db'"
proof -
  let ?pc = "pc(p := At_barrier r w t c)"
  have same: "kv_get kv d (RoundKey r') db' = kv_get kv d (RoundKey r') db" if "d \<in> round_keys a" "r' \<noteq> r" for d r'
    using step that by (simp add: store_step_def round_keys_def)
  have good: "good_round kv a N db' r' = good_round kv a N db r'" if "r' \<noteq> r" for r'
    using same [OF _ that] by (simp add: good_round_def conv_def raised_count_def kv_val_def round_keys_def)
  have no_drained: "pc q \<noteq> Drained_at r'" if "q < N" for q r'
    using rounds_ok_all [OF ok that, of r' p] p by auto
  have below: "passed (pc q) \<le> r" if "q < N" for q
    using rounds_ok_barrier [OF ok that p(1)] p(2) by simp
  have "passed (?pc q) \<le> contributed (?pc q')" if "q < N" "q' < N" for q q'
    using rounds_ok_barrier [OF ok that] rounds_ok_barrier [OF ok p(1) that(2)] below [OF that(1)] p(2) by auto
  moreover have "?pc q' \<noteq> Not_started" if "q < N" "q' < N" "shared (?pc q)" for q q'
    using rounds_ok_shared [OF ok that(1,2)] rounds_ok_shared [OF ok p(1) that(2)] p(2) that(3)
    by (auto simp: shared_def split: if_splits)
  moreover have "kv_get kv d (RoundKey r') db' \<noteq> None"
    if "q < N" "r' < contributed (?pc q)" "d \<in> round_keys a" for q r' d
  proof (cases "r' = r")
    case True
    then show ?thesis using that(3) conv cs cnt by (auto simp: round_keys_def)
  next
    case False
    then have "r' < contributed (pc q)" using that(2) p(2) by (auto split: if_splits)
    then show ?thesis using rounds_ok_present [OF ok that(1) _ that(3)] same [OF that(3) False] by simp
  qed
  moreover have "conv kv a r' db' \<le> int (card {q. q < N \<and> may_count r' (?pc q)})" for r'
  proof (cases "r' = r")
    case True
    have "{q. q < N \<and> may_count r (?pc q)} =
        (if t then insert p {q. q < N \<and> may_count r (pc q)} else {q. q < N \<and> may_count r (pc q)})"
      using p by (auto simp: may_count_def)
    moreover have "p \<notin> {q. q < N \<and> may_count r (pc q)}" using p by (simp add: may_count_def)
    moreover have "conv kv a r db' = conv kv a r db + (if t then 1 else 0)"
      using conv by (simp add: conv_def kv_val_def)
    ultimately show ?thesis using True rounds_ok_conv [OF ok, of r] by auto
  next
    case False
    have "{q. q < N \<and> may_count r' (?pc q)} = {q. q < N \<and> may_count r' (pc q)}"
      using p False by (auto simp: may_count_def split: if_splits)
    moreover have "conv kv a r' db' = conv kv a r' db"
      using same [OF _ False] by (simp add: conv_def kv_val_def round_keys_def)
    ultimately show ?thesis using rounds_ok_conv [OF ok, of r'] by simp
  qed
  moreover have "raised_count kv a r' db' = 0" if le: "\<forall>q<N. contributed (?pc q) \<le> r'" for r'
  proof -
    have "r < r'" using le p(1) by (auto simp: Suc_le_eq)
    moreover have "\<forall>q<N. contributed (pc q) \<le> r'" using le p(2) \<open>r < r'\<close> by (metis contributed.simps(3) fun_upd_other less_imp_le)
    ultimately show ?thesis
      using rounds_ok_unused [OF ok] same [of "TargetsRaised a" r'] by (simp add: raised_count_def kv_val_def round_keys_def)
  qed
  moreover have "kv_val kv (CriticalSection a) (RoundKey r') db' \<noteq> 0"
    if q: "q < N" "?pc q = At_barrier r' w' t' True" for q r' w' t'
  proof (cases "r' = r")
    case True
    then have "c \<or> kv_val kv (CriticalSection a) (RoundKey r) db \<noteq> 0"
      using q rounds_ok_cs [OF ok q(1)] by (cases "q = p") auto
    then show ?thesis using True cs by (auto simp: kv_val_def)
  next
    case False
    then have "pc q = At_barrier r' w' t' True" using q(2) by (auto split: if_splits)
    then show ?thesis using rounds_ok_cs [OF ok q(1)] same [OF _ False] by (simp add: kv_val_def round_keys_def)
  qed
  moreover have "\<not> good_round kv a N db' r'" if q: "q < N" "round_of (?pc q) = Suc r'" for q r'
  proof -
    have "round_of (pc q) = Suc r'" using q(2) p(2) by (auto split: if_splits)
    moreover have "round_of (pc q) \<le> passed (pc q)" by (cases "pc q") auto
    ultimately have "r' \<noteq> r" using below [OF q(1)] by simp
    then show ?thesis using rounds_ok_bad [OF ok q(1)] \<open>round_of (pc q) = Suc r'\<close> good by simp
  qed
  ultimately show ?thesis
    using no_drained unfolding rounds_ok_def by (intro conjI allI impI) (simp_all split: if_splits)
qed

subsection \<open>The whole job\<close>

definition fresh_attempt :: "'k kvdb \<Rightarrow> nat \<Rightarrow> 'k \<Rightarrow> bool" where
  "fresh_attempt kv a db \<longleftrightarrow>
     (\<forall>d\<in>{CommSeqMax a, RaisedGids a} \<union> round_keys a. \<forall>k. kv_get kv d k db = None)"

definition owned_once :: "nat \<Rightarrow> (int64 \<Rightarrow> int) \<Rightarrow> (nat \<Rightarrow> cc) \<Rightarrow> bool" where
  "owned_once N csize pr \<longleftrightarrow> (\<forall>g p q. csize g \<le> 1 \<and> p < N \<and> q < N \<and> map_of (clocks (pr p)) g \<noteq> None \<and>
     map_of (clocks (pr q)) g \<noteq> None \<longrightarrow> p = q)"

definition job_start :: "'k kvdb \<Rightarrow> nat \<Rightarrow> nat \<Rightarrow> (int64 \<Rightarrow> int) \<Rightarrow> 'k job \<Rightarrow> bool" where
  "job_start kv a N csize j \<longleftrightarrow> kvdb_ok kv \<and> fresh_attempt kv a (store j) \<and>
     (\<forall>p<N. pcs j p = Not_started \<and> distinct (map fst (clocks (procs j p))) \<and>
        (\<forall>g c. map_of (clocks (procs j p)) g = Some c \<longrightarrow> 0 \<le> ck_seq c \<and> 0 \<le> ck_target c)) \<and>
     owned_once N csize (procs j)"

definition job_inv :: "'k kvdb \<Rightarrow> nat \<Rightarrow> nat \<Rightarrow> (int64 \<Rightarrow> int) \<Rightarrow> 'k job \<Rightarrow> bool" where
  "job_inv kv a N csize j \<longleftrightarrow> kvdb_ok kv \<and> store_ok kv a (store j) \<and> rounds_ok kv a N (pcs j) (store j) \<and>
     (\<forall>p<N. proc_ok kv a csize (store j) (procs j p) (pcs j p)) \<and> owned_once N csize (procs j)"

lemma job_start_inv:
  assumes "job_start kv a N csize j"
  shows "job_inv kv a N csize j"
proof -
  have fresh: "fresh_attempt kv a (store j)" and pc: "\<forall>p<N. pcs j p = Not_started"
    using assms by (simp_all add: job_start_def)
  have get: "kv_get kv d k (store j) = None" if "d \<in> {CommSeqMax a, RaisedGids a} \<union> round_keys a" for d k
    using fresh [unfolded fresh_attempt_def, THEN bspec, OF that] by simp
  have z: "kvm kv a g (store j) = 0" "conv kv a r (store j) = 0" "raised_count kv a r (store j) = 0" for g r
    by (simp_all add: kvm_def conv_def raised_count_def kv_val_def get round_keys_def)
  have "rounds_ok kv a N (pcs j) (store j)"
    unfolding rounds_ok_def using pc by (simp add: z shared_def)
  moreover have "store_ok kv a (store j)" by (auto simp: store_ok_def z)
  moreover have "proc_ok kv a csize (store j) (procs j p) (pcs j p)" if "p < N" for p
    using assms that unfolding job_start_def proc_ok_def clock_ok_def by (simp add: active_def informed_def)
  ultimately show ?thesis using assms by (simp add: job_inv_def job_start_def)
qed

lemma job_invD:
  assumes "job_inv kv a N csize j"
  shows job_inv_kv: "kvdb_ok kv" and job_inv_store: "store_ok kv a (store j)"
    and job_inv_rounds: "rounds_ok kv a N (pcs j) (store j)"
    and job_inv_proc: "p < N \<Longrightarrow> proc_ok kv a csize (store j) (procs j p) (pcs j p)"
    and job_inv_owned: "owned_once N csize (procs j)"
  using assms by (simp_all add: job_inv_def)

text \<open>A step of an application thread changes the state of one process and its clocks.\<close>

lemma owned_once_fewer:
  assumes "owned_once N csize pr"
    and "\<And>g. map_of (clocks s') g \<noteq> None \<Longrightarrow> csize g \<le> 1 \<Longrightarrow>
           map_of (clocks (pr p)) g \<noteq> None \<or> (\<forall>q<N. map_of (clocks (pr q)) g = None)"
  shows "owned_once N csize (pr(p := s'))"
  unfolding owned_once_def
proof (intro allI impI)
  fix g q q'
  assume h: "csize g \<le> 1 \<and> q < N \<and> q' < N \<and> map_of (clocks ((pr(p := s')) q)) g \<noteq> None \<and>
    map_of (clocks ((pr(p := s')) q')) g \<noteq> None"
  then show "q = q'"
    using assms(1) assms(2) [of g] unfolding owned_once_def by (cases "q = p"; cases "q' = p") (auto; blast)+
qed

lemma app_step_inv:
  assumes inv: "job_inv kv a N csize j" and p: "p < N"
    and ok: "proc_ok kv a csize (store j) s' (pcs j p)"
    and keys: "\<And>g. map_of (clocks s') g \<noteq> None \<Longrightarrow> csize g \<le> 1 \<Longrightarrow>
       map_of (clocks (procs j p)) g \<noteq> None \<or> (\<forall>q<N. map_of (clocks (procs j q)) g = None)"
  shows "job_inv kv a N csize (j \<lparr> procs := (procs j) (p := s') \<rparr>)"
  using inv ok owned_once_fewer [OF job_inv_owned [OF inv] keys] unfolding job_inv_def by simp

text \<open>A step of a checkpoint thread.\<close>

lemma ckpt_step_inv:
  assumes inv: "job_inv kv a N csize j" and p: "p < N"
    and st: "store_ok kv a db'" and rnd: "rounds_ok kv a N ((pcs j) (p := x)) db'"
    and ok: "proc_ok kv a csize db' s' x"
    and other: "\<And>q. q < N \<Longrightarrow> q \<noteq> p \<Longrightarrow> proc_ok kv a csize db' (procs j q) (pcs j q)"
    and keys: "map fst (clocks s') = map fst (clocks (procs j p))"
  shows "job_inv kv a N csize (j \<lparr> procs := (procs j) (p := s'), pcs := (pcs j) (p := x), store := db' \<rparr>)"
proof -
  have "map_of (clocks s') g \<noteq> None \<longleftrightarrow> map_of (clocks (procs j p)) g \<noteq> None" for g
    using arg_cong [OF keys, of set] by (simp add: map_of_eq_None_iff)
  then have "owned_once N csize ((procs j) (p := s'))"
    by (intro owned_once_fewer [OF job_inv_owned [OF inv]]) simp
  then show ?thesis
    using job_inv_kv [OF inv] st rnd ok other unfolding job_inv_def by simp
qed

lemma unread_neighbour:
  assumes "rounds_ok kv a N pc db" and "p < N" and "pc p = At_round r w" and "q < N" and "informed (pc q)"
  shows "r \<in> unread (pc q)"
  using rounds_ok_barrier [OF assms(1,2,4)] rounds_ok_barrier [OF assms(1,4,2)] assms(3,5)
  by (cases "pc q") (auto simp: informed_def active_def)

lemma store_ok_upload:
  assumes kv: "kvdb_ok kv" and nn: "\<forall>(g, c)\<in>set cs. 0 \<le> ck_seq c" and st: "store_ok kv a db"
  shows "store_ok kv a (upload_seq_num kv a cs db)"
proof -
  let ?db = "upload_seq_num kv a cs db"
  have cnt: "raised_count kv a r ?db = raised_count kv a r db" for r
    by (simp add: raised_count_def kv_val_def upload_seq_num_other [OF kv])
  have "0 \<le> kvm kv a g ?db" for g
    using order_trans [OF _ upload_seq_num_mono [OF kv nn]] st by (simp add: store_ok_def)
  moreover have "\<exists>g. kv_get kv (RaisedGids a) (EntryKey r i) ?db = Some (sint (g :: int64)) \<and>
      kv_get kv (CommSeqMax a) (GidKey g) ?db \<noteq> None" if i: "0 \<le> i" "i < raised_count kv a r db" for r i
  proof -
    obtain g :: int64 where "kv_get kv (RaisedGids a) (EntryKey r i) db = Some (sint g)"
        "kv_get kv (CommSeqMax a) (GidKey g) db \<noteq> None"
      using store_ok_entry [OF st i] by blast
    then show ?thesis
      using upload_seq_num_present [OF kv, of a g db cs]
      by (intro exI [of _ g]) (simp add: upload_seq_num_other [OF kv])
  qed
  ultimately show ?thesis using st by (simp add: store_ok_def cnt)
qed

lemma share_inv:
  assumes inv: "job_inv kv a N csize j" and p: "p < N" "pcs j p = Not_started"
    and up: "share_upload kv a (procs j p) (store j) = (s', db')"
  shows "job_inv kv a N csize (j \<lparr> procs := (procs j) (p := s'), pcs := (pcs j) (p := Sharing), store := db' \<rparr>)"
proof -
  note kv = job_inv_kv [OF inv] and ok = job_inv_proc [OF inv p(1), unfolded p(2)] and rnd = job_inv_rounds [OF inv]
  note nn = proc_ok_seqs [OF ok]
  have db': "db' = upload_seq_num kv a (clocks (procs j p)) (store j)" and cl: "clocks s' = clocks (procs j p)"
    using up by (auto simp: share_upload_def)
  have get: "kv_get kv d k db' = kv_get kv d k (store j)" if "d \<noteq> CommSeqMax a" for d k
    unfolding db' by (rule upload_seq_num_other [OF kv that])
  have no_shared: "\<not> shared (pcs j q)" if "q < N" for q
    using rounds_ok_shared [OF rnd that p(1)] p(2) by blast
  show ?thesis
  proof (rule ckpt_step_inv [OF inv p(1)])
    show "store_ok kv a db'"
      unfolding db' by (rule store_ok_upload [OF kv nn job_inv_store [OF inv]])
    show "rounds_ok kv a N ((pcs j) (p := Sharing)) db'"
    proof (rule rounds_ok_store [OF rounds_ok_move [OF rnd p(1)]])
      show "\<And>q r. q < N \<Longrightarrow> pcs j q = Drained_at r \<Longrightarrow> Sharing = Drained_at r"
        using no_shared by (force simp: shared_def)
    qed (auto simp: p(2) get shared_def round_keys_def)
    show "proc_ok kv a csize db' s' Sharing" by (rule proc_ok_share [OF kv ok up])
    show "proc_ok kv a csize db' (procs j q) (pcs j q)" if "q < N" "q \<noteq> p" for q
      unfolding db' using no_shared [OF that(1)]
      by (intro proc_ok_shared_by_other [OF kv job_inv_proc [OF inv that(1)] _ nn])
        (auto simp: shared_def informed_def active_def)
  qed (simp add: cl)
qed

lemma shared_inv:
  assumes inv: "job_inv kv a N csize j" and p: "p < N" "pcs j p = Sharing" and all: "\<forall>q<N. pcs j q \<noteq> Not_started"
  shows "job_inv kv a N csize (j \<lparr> procs := (procs j) (p := share_download kv a (store j) (procs j p)),
     pcs := (pcs j) (p := At_round 0 0), store := store j \<rparr>)"
proof (rule ckpt_step_inv [OF inv p(1) job_inv_store [OF inv]])
  show "rounds_ok kv a N ((pcs j) (p := At_round 0 0)) (store j)"
  proof (rule rounds_ok_move [OF job_inv_rounds [OF inv] p(1)])
    show "\<And>q r. q < N \<Longrightarrow> pcs j q = Drained_at r \<Longrightarrow> At_round 0 0 = Drained_at r"
      using rounds_ok_all [OF job_inv_rounds [OF inv] _ _ p(1)] p(2) by force
  qed (auto simp: p(2) all)
  show "proc_ok kv a csize (store j) (share_download kv a (store j) (procs j p)) (At_round 0 0)"
    using job_inv_proc [OF inv p(1)] p(2) by (intro proc_ok_download job_inv_store [OF inv]) simp
qed (auto simp: job_inv_proc [OF inv] share_download_def download_targets_def)

lemma contribute_inv:
  assumes inv: "job_inv kv a N csize j" and p: "p < N" "pcs j p = At_round r w"
    and rnd: "drain_round kv a r (procs j p) (store j) = (t, c, s', db')"
  shows "job_inv kv a N csize (j \<lparr> procs := (procs j) (p := s'), pcs := (pcs j) (p := At_barrier r w t c), store := db' \<rparr>)"
proof -
  note ok = job_inv_proc [OF inv p(1), unfolded p(2)] and kv = job_inv_kv [OF inv] and st = job_inv_store [OF inv]
  note R = drain_round_spec [OF kv proc_ok_seqs [OF ok] st rnd]
  show ?thesis
  proof (rule ckpt_step_inv [OF inv p(1) R(9)])
    show "rounds_ok kv a N ((pcs j) (p := At_barrier r w t c)) db'"
      by (rule rounds_ok_contribute [OF job_inv_rounds [OF inv] p R(8,11,12)]) (use R(13) in auto)
    show "proc_ok kv a csize db' s' (At_barrier r w t c)" by (rule proc_ok_contribute [OF kv ok st rnd])
    show "proc_ok kv a csize db' (procs j q) (pcs j q)" if "q < N" "q \<noteq> p" for q
      by (rule proc_ok_other_contributes [OF job_inv_proc [OF inv that(1)] R(8)])
        (rule unread_neighbour [OF job_inv_rounds [OF inv] p that(1)])
    show "map fst (clocks s') = map fst (clocks (procs j p))" by (simp add: R(3) round_clocks_def)
  qed
qed

lemma drained_inv:
  assumes inv: "job_inv kv a N csize j" and p: "p < N" "pcs j p = At_barrier r w t c"
    and all: "\<forall>q<N. r < contributed (pcs j q)"
    and dec: "drain_decide kv a r (int N) (store j) (procs j p) = Ok (round_end.Drained, s')"
  shows "job_inv kv a N csize (j \<lparr> procs := (procs j) (p := s'), pcs := (pcs j) (p := Drained_at r), store := store j \<rparr>)"
proof -
  note rnd = job_inv_rounds [OF inv]
  have s': "s' = procs j p" and good: "good_round kv a N (store j) r"
    using drain_decide_cases [OF dec] by (auto simp: good_round_def)
  note every = good_round_all [OF rnd good p all]
  have tc: "t" "\<not> c" using every [OF p(1)] p(2) by auto
  show ?thesis
  proof (rule ckpt_step_inv [OF inv p(1) job_inv_store [OF inv]])
    show "rounds_ok kv a N ((pcs j) (p := Drained_at r)) (store j)"
    proof (rule rounds_ok_move [OF rnd p(1)])
      show "\<And>q r'. q < N \<Longrightarrow> pcs j q = Drained_at r' \<Longrightarrow> Drained_at r = Drained_at r'" using every by force
      show "\<And>r'. round_of (Drained_at r) = Suc r' \<Longrightarrow> \<not> good_round kv a N (store j) r'"
        using rounds_ok_bad [OF rnd p(1)] p(2) by simp
      show "shared (Drained_at r) \<Longrightarrow> \<forall>q<N. pcs j q \<noteq> Not_started" using all by (metis contributed.simps(1) less_nat_zero_code)
      show "\<And>r'. Drained_at r = Drained_at r' \<Longrightarrow> good_round kv a N (store j) r' \<and>
         (\<forall>q<N. pcs j q = Drained_at r' \<or> (\<exists>w. pcs j q = At_barrier r' w True False))"
        using good every by auto
    qed (use all p(2) in \<open>auto simp: Suc_le_eq\<close>)
    show "proc_ok kv a csize (store j) s' (Drained_at r)"
      using job_inv_proc [OF inv p(1)] tc unfolding s' p(2) proc_ok_def
      by (simp add: clock_ok_drained active_def)
  qed (auto simp: s' job_inv_proc [OF inv])
qed

lemma next_inv:
  assumes inv: "job_inv kv a N csize j" and p: "p < N" "pcs j p = At_barrier r w t c"
    and all: "\<forall>q<N. r < contributed (pcs j q)"
    and dec: "drain_decide kv a r (int N) (store j) (procs j p) = Ok (Next_round b, s')"
  shows "job_inv kv a N csize (j \<lparr> procs := (procs j) (p := s'), pcs := (pcs j) (p := At_round (Suc r) w'), store := store j \<rparr>)"
proof -
  note rnd = job_inv_rounds [OF inv] and st = job_inv_store [OF inv]
  have bad: "\<not> good_round kv a N (store j) r"
    using drain_decide_cases [OF dec] by (auto simp: good_round_def)
  show ?thesis
  proof (rule ckpt_step_inv [OF inv p(1) st])
    show "rounds_ok kv a N ((pcs j) (p := At_round (Suc r) w')) (store j)"
    proof (rule rounds_ok_move [OF rnd p(1)])
      fix q r' assume q: "q < N" "pcs j q = Drained_at r'"
      then have "pcs j p = At_barrier r' w True False" using rounds_ok_all [OF rnd q p(1)] p(2) by auto
      then show "At_round (Suc r) w' = Drained_at r'" using bad rounds_ok_drained [OF rnd q] p(2) by simp
    next
      show "\<forall>q<N. pcs j q \<noteq> Not_started" using all by (metis contributed.simps(1) less_nat_zero_code)
    qed (use all p(2) bad in \<open>auto simp: Suc_le_eq\<close>)
    show "proc_ok kv a csize (store j) s' (At_round (Suc r) w')"
      using job_inv_proc [OF inv p(1)] unfolding p(2) by (rule proc_ok_next [OF _ st dec])
    show "map fst (clocks s') = map fst (clocks (procs j p))"
      using drain_decide_cases [OF dec] download_raised_targets_spec [OF st, of r "procs j p"] by auto
  qed (auto simp: job_inv_proc [OF inv])
qed

lemma give_up_inv:
  assumes inv: "job_inv kv a N csize j" and p: "p < N" "pcs j p = At_round r w"
  shows "job_inv kv a N csize (j \<lparr> procs := (procs j) (p := (procs j p) \<lparr> ckpt_pending := False \<rparr>),
    pcs := (pcs j) (p := Gave_up r), store := store j \<rparr>)"
proof (rule ckpt_step_inv [OF inv p(1) job_inv_store [OF inv]])
  note rnd = job_inv_rounds [OF inv]
  show "rounds_ok kv a N ((pcs j) (p := Gave_up r)) (store j)"
  proof (rule rounds_ok_move [OF rnd p(1)])
    show "\<And>q r'. q < N \<Longrightarrow> pcs j q = Drained_at r' \<Longrightarrow> Gave_up r = Drained_at r'"
      using rounds_ok_all [OF rnd _ _ p(1)] p(2) by force
    show "\<forall>q<N. passed (Gave_up r) \<le> contributed (pcs j q)"
      using rounds_ok_barrier [OF rnd p(1)] p(2) by simp
    show "\<forall>q<N. pcs j q \<noteq> Not_started" using rounds_ok_shared [OF rnd p(1)] p(2) by (simp add: shared_def)
    show "\<And>r'. round_of (Gave_up r) = Suc r' \<Longrightarrow> \<not> good_round kv a N (store j) r'"
      using rounds_ok_bad [OF rnd p(1)] p(2) by simp
  qed (auto simp: p(2))
  show "proc_ok kv a csize (store j) ((procs j p) \<lparr> ckpt_pending := False \<rparr>) (Gave_up r)"
    using job_inv_proc [OF inv p(1)] unfolding proc_ok_def clock_ok_def by (simp add: active_def informed_def)
qed (auto simp: job_inv_proc [OF inv])

lemma application_inv:
  assumes inv: "job_inv kv a N csize j" and p: "p < N"
  shows "pcs j p \<noteq> Sharing \<Longrightarrow> \<not> must_wait (procs j p) \<Longrightarrow> d = None \<or> d = Some (g, csize g) \<Longrightarrow>
      job_inv kv a N csize (j \<lparr> procs := (procs j) (p := begin_critical_section d (procs j p)) \<rparr>)"
    and "job_inv kv a N csize (j \<lparr> procs := (procs j) (p := commit_finish_phase (procs j p)) \<rparr>)"
    and "pcs j p \<noteq> Sharing \<Longrightarrow> current_phase (procs j p) = IN_CS \<Longrightarrow> add_comm_clock g (procs j p) = Ok s' \<Longrightarrow>
      1 < csize g \<or> (\<forall>q<N. map_of (clocks (procs j q)) g = None) \<Longrightarrow>
      job_inv kv a N csize (j \<lparr> procs := (procs j) (p := s') \<rparr>)"
    and "job_inv kv a N csize
      (j \<lparr> procs := (procs j) (p := (procs j p) \<lparr> clocks := erase_clock g (clocks (procs j p)) \<rparr>) \<rparr>)"
proof -
  note ok = job_inv_proc [OF inv p]
  show "job_inv kv a N csize (j \<lparr> procs := (procs j) (p := begin_critical_section d (procs j p)) \<rparr>)"
    if d: "pcs j p \<noteq> Sharing" "\<not> must_wait (procs j p)" "d = None \<or> d = Some (g, csize g)"
  proof (rule app_step_inv [OF inv p proc_ok_begin [OF ok d]])
    have "map fst (clocks (begin_critical_section d (procs j p))) = map fst (clocks (procs j p))"
      by (auto simp: begin_critical_section_def Let_def split: option.split)
    from arg_cong [OF this, of set]
    show "\<And>h. map_of (clocks (begin_critical_section d (procs j p))) h \<noteq> None \<Longrightarrow> csize h \<le> 1 \<Longrightarrow>
        map_of (clocks (procs j p)) h \<noteq> None \<or> (\<forall>q<N. map_of (clocks (procs j q)) h = None)"
      by (simp add: map_of_eq_None_iff)
  qed
  show "job_inv kv a N csize (j \<lparr> procs := (procs j) (p := commit_finish_phase (procs j p)) \<rparr>)"
    by (rule app_step_inv [OF inv p proc_ok_finish [OF ok]]) (simp add: commit_finish_phase_def)
  show "job_inv kv a N csize (j \<lparr> procs := (procs j) (p := s') \<rparr>)"
    if g: "pcs j p \<noteq> Sharing" "current_phase (procs j p) = IN_CS" "add_comm_clock g (procs j p) = Ok s'"
      "1 < csize g \<or> (\<forall>q<N. map_of (clocks (procs j q)) g = None)"
  proof (rule app_step_inv [OF inv p proc_ok_add [OF ok job_inv_store [OF inv] g(1-3)]])
    fix h assume "map_of (clocks s') h \<noteq> None" "csize h \<le> 1"
    then show "map_of (clocks (procs j p)) h \<noteq> None \<or> (\<forall>q<N. map_of (clocks (procs j q)) h = None)"
      using g(3,4) by (cases "h = g") (auto simp: add_comm_clock_def split: if_splits)
  qed
  show "job_inv kv a N csize
      (j \<lparr> procs := (procs j) (p := (procs j p) \<lparr> clocks := erase_clock g (clocks (procs j p)) \<rparr>) \<rparr>)"
    by (rule app_step_inv [OF inv p proc_ok_erase [OF ok]]) (simp add: map_of_erase_clock split: if_splits)
qed

lemma job_step_inv:
  assumes "job_step kv a N csize j j'" and inv: "job_inv kv a N csize j"
  shows "job_inv kv a N csize j'"
  using assms(1)
proof cases
  case Begin_call
  then show ?thesis using application_inv(1) [OF inv] by blast
next
  case Finish_call
  then show ?thesis using application_inv(2) [OF inv] by blast
next
  case Add_clock
  then show ?thesis using application_inv(3) [OF inv] by blast
next
  case Free_clock
  then show ?thesis using application_inv(4) [OF inv] by blast
next
  case Share
  then show ?thesis using share_inv [OF inv] by simp
next
  case Shared
  then show ?thesis using shared_inv [OF inv] by simp
next
  case Contribute
  then show ?thesis using contribute_inv [OF inv] by simp
next
  case Drained
  then show ?thesis using drained_inv [OF inv] by simp
next
  case Next
  then show ?thesis using next_inv [OF inv] by simp
next
  case Give_up
  then show ?thesis using give_up_inv [OF inv] by simp
qed

interpretation drain: state_machine "job_start kv a N csize" "job_step kv a N csize" "job_inv kv a N csize"
  for kv a N csize
  by unfold_locales (auto intro: job_start_inv job_step_inv)

section \<open>What a finished drain guarantees\<close>

lemma settled_clock:
  assumes ok: "proc_ok kv a csize db s pc" and pc: "pc = Drained_at r \<or> pc = At_barrier r w True False"
    and g: "map_of (clocks s) g = Some c" "1 < csize g"
    and none: "raised_count kv a r db = 0" "raised_count kv a (Suc r) db = 0"
  shows "ck_seq c = kvm kv a g db" and "ck_target c = kvm kv a g db"
proof -
  have set: "settled pc" and inf: "active pc" "informed pc" and un: "unread pc = {r, Suc r}"
    using pc by (auto simp: active_def informed_def)
  have "listed kv a db r = {}" "listed kv a db (Suc r) = {}" using none by (auto simp: listed_def)
  then have "ck_seq c \<le> kvm kv a g db" "ck_target c = kvm kv a g db"
    using proc_ok_clock [OF ok g] proc_ok_settled [OF ok set] inf un by (auto simp: clock_ok_def)
  moreover have "ck_target c \<le> ck_seq c"
    using proc_ok_settled [OF ok set] proc_ok_check [OF ok] g(1) by blast
  ultimately show "ck_seq c = kvm kv a g db" "ck_target c = kvm kv a g db" by simp_all
qed

lemma drained_settles:
  assumes inv: "job_inv kv a N csize j" and p: "p < N" "pcs j p = Drained_at r" and q: "q < N"
  shows "current_phase (procs j q) = IS_READY" and "must_wait (procs j q)"
    and "map_of (clocks (procs j q)) g = Some c \<Longrightarrow> 1 < csize g \<Longrightarrow> ck_seq c = kvm kv a g (store j)"
proof -
  note rnd = job_inv_rounds [OF inv]
  have pcq: "pcs j q = Drained_at r \<or> (\<exists>w. pcs j q = At_barrier r w True False)" if "q < N" for q
    by (rule rounds_ok_all [OF rnd p that])
  have set: "settled (pcs j q)" using pcq [OF q] by auto
  show "current_phase (procs j q) = IS_READY" "must_wait (procs j q)"
    using must_wait_settled [OF job_inv_proc [OF inv q] set] by simp_all
  have "\<forall>q<N. contributed (pcs j q) \<le> Suc r" using pcq by fastforce
  then have "raised_count kv a (Suc r) (store j) = 0" by (rule rounds_ok_unused [OF rnd])
  moreover have "raised_count kv a r (store j) = 0"
    using rounds_ok_drained [OF rnd p] by (simp add: good_round_def)
  ultimately show "ck_seq c = kvm kv a g (store j)" if "map_of (clocks (procs j q)) g = Some c" "1 < csize g"
    using pcq [OF q] settled_clock(1) [OF job_inv_proc [OF inv q] _ that] by blast
qed

subsection \<open>A schedule of the checkpoint threads\<close>

text \<open>The next step of the checkpoint thread of process \<open>p\<close>, if it is not waiting at a barrier.\<close>

definition ckpt_thread :: "'k kvdb \<Rightarrow> nat \<Rightarrow> nat \<Rightarrow> nat \<Rightarrow> 'k job \<Rightarrow> 'k job option" where
  "ckpt_thread kv a N p j =
     (let set_state = (\<lambda>s' x db'. Some (j \<lparr> procs := (procs j) (p := s'), pcs := (pcs j) (p := x), store := db' \<rparr>)) in
      case pcs j p of
        Not_started \<Rightarrow> (case share_upload kv a (procs j p) (store j) of (s', db') \<Rightarrow> set_state s' Sharing db')
      | Sharing \<Rightarrow>
          if list_all (\<lambda>q. pcs j q \<noteq> Not_started) [0..<N]
          then set_state (share_download kv a (store j) (procs j p)) (At_round 0 0) (store j) else None
      | At_round r w \<Rightarrow>
          if w < MAX_DRAIN_ROUNDS
          then (case drain_round kv a r (procs j p) (store j) of (t, c, s', db') \<Rightarrow> set_state s' (At_barrier r w t c) db')
          else set_state ((procs j p) \<lparr> ckpt_pending := False \<rparr>) (Gave_up r) (store j)
      | At_barrier r w t c \<Rightarrow>
          if list_all (\<lambda>q. r < contributed (pcs j q)) [0..<N]
          then (case drain_decide kv a r (int N) (store j) (procs j p) of
                  Inr (round_end.Drained, s') \<Rightarrow> set_state s' (Drained_at r) (store j)
                | Inr (Next_round b, s') \<Rightarrow> set_state s' (At_round (Suc r) (if b then 0 else Suc w)) (store j)
                | Inl e \<Rightarrow> None)
          else None
      | _ \<Rightarrow> None)"

fun ckpt_threads :: "'k kvdb \<Rightarrow> nat \<Rightarrow> nat \<Rightarrow> nat list \<Rightarrow> 'k job \<Rightarrow> 'k job option" where
  "ckpt_threads kv a N [] j = Some j"
| "ckpt_threads kv a N (p # ps) j =
     (case ckpt_thread kv a N p j of None \<Rightarrow> None | Some j' \<Rightarrow> ckpt_threads kv a N ps j')"

lemma ckpt_thread_step:
  assumes p: "p < N" and run: "ckpt_thread kv a N p j = Some j'"
  shows "job_step kv a N csize j j'"
proof (cases "pcs j p")
  case Not_started
  then show ?thesis using run p unfolding ckpt_thread_def by (auto intro!: job_step.Share split: prod.splits)
next
  case Sharing
  then show ?thesis
    using run p job_step.Shared [OF p Sharing, of kv a csize] unfolding ckpt_thread_def
    by (auto simp: list_all_iff split: if_splits)
next
  case (At_round r w)
  then show ?thesis
    using run p job_step.Give_up [OF p At_round, of kv a csize] unfolding ckpt_thread_def
    by (auto intro!: job_step.Contribute split: if_splits prod.splits)
next
  case (At_barrier r w t c)
  then show ?thesis
    using run p job_step.Drained [OF p At_barrier, of kv a] job_step.Next [OF p At_barrier, of kv a]
    unfolding ckpt_thread_def
    by (auto simp: list_all_iff split: if_splits sum.splits prod.splits round_end.splits)
qed (use run in \<open>auto simp: ckpt_thread_def\<close>)

lemma ckpt_threads_run:
  assumes "\<forall>p\<in>set ps. p < N" and "ckpt_threads kv a N ps j = Some j'"
  shows "(job_step kv a N csize)\<^sup>*\<^sup>* j j'"
  using assms
  by (induction ps arbitrary: j) (auto split: option.splits intro: converse_rtranclp_into_rtranclp dest: ckpt_thread_step)

text \<open>A key-value database that is an association list.\<close>

type_synonym kv_alist = "((kv_db \<times> kv_key) \<times> int) list"

definition alist_kvdb :: "kv_alist kvdb" where
  "alist_kvdb = \<lparr>
     kv_get = (\<lambda>d k m. map_of m (d, k)),
     kv_set = (\<lambda>d k v m. ((d, k), v) # m),
     kv_max = (\<lambda>d k v m. ((d, k), case map_of m (d, k) of None \<Rightarrow> v | Some w \<Rightarrow> max w v) # m),
     kv_incrby = (\<lambda>d k v m. let old = (case map_of m (d, k) of None \<Rightarrow> 0 | Some w \<Rightarrow> w) in (old, ((d, k), old + v) # m)),
     kv_or = (\<lambda>d k b m. ((d, k), if b \<or> (case map_of m (d, k) of None \<Rightarrow> 0 | Some w \<Rightarrow> w) \<noteq> 0 then 1 else 0) # m) \<rparr>"

lemma alist_kvdb_ok: "kvdb_ok alist_kvdb"
  unfolding kvdb_ok_def alist_kvdb_def kv_val_def by (simp add: Let_def)

end
