(* ===== verification/Drain_Safety.thy ===== *)
theory Drain_Safety
  imports Drain_Protocol
begin

text \<open>
  What the invariant of the drain gives: a finished drain leaves no collective call half done, and no
  assertion on a read of the key-value database fails.
\<close>

section \<open>A run\<close>

text \<open>Two processes that share the communicator with gid 5.  The first has made one call more than the
  second when the checkpoint starts.\<close>

definition demo_proc :: "bool \<Rightarrow> phase_t \<Rightarrow> int \<Rightarrow> int \<Rightarrow> cc" where
  "demo_proc pending phase n t = \<lparr> ckpt_pending = pending, current_phase = phase,
     clocks = [(5, \<lparr> ck_seq = n, ck_target = t \<rparr>)], raised_clocks = [], added_clock = False,
     targets_version = (if pending then 1 else 0), pending_frees = [] \<rparr>"

definition demo_job :: "cc \<Rightarrow> cc \<Rightarrow> ckpt_pc \<Rightarrow> ckpt_pc \<Rightarrow> kv_alist \<Rightarrow> kv_alist job" where
  "demo_job s0 s1 x0 x1 db = \<lparr> procs = (\<lambda>p. demo_proc False IS_READY 0 0)(0 := s0, Suc 0 := s1),
     pcs = (\<lambda>p. Not_started)(0 := x0, Suc 0 := x1), store = db \<rparr>"

definition demo_store :: kv_alist where
  "demo_store = [((CommSeqMax 0, GidKey 5), 3), ((CommSeqMax 0, GidKey 5), 3)]"

definition demo_start :: "kv_alist job" where
  "demo_start = demo_job (demo_proc False IS_READY 3 0) (demo_proc False IS_READY 2 0) Not_started Not_started []"

definition demo_shared :: "kv_alist job" where
  "demo_shared = demo_job (demo_proc True IS_READY 3 3) (demo_proc True IS_READY 2 3) (At_round 0 0) (At_round 0 0) demo_store"

definition demo_call :: "kv_alist job" where
  "demo_call = demo_job (demo_proc True IS_READY 3 3) (demo_proc True IN_CS 3 3) (At_round 0 0) (At_round 0 0) demo_store"

definition demo_called :: "kv_alist job" where
  "demo_called = demo_job (demo_proc True IS_READY 3 3) (demo_proc True IS_READY 3 3) (At_round 0 0) (At_round 0 0) demo_store"

definition demo_counted :: kv_alist where
  "demo_counted =
     [((CriticalSection 0, RoundKey 0), 0), ((Converge 0, RoundKey 0), 2), ((TargetsRaised 0, RoundKey 0), 0),
      ((CriticalSection 0, RoundKey 0), 0), ((Converge 0, RoundKey 0), 1), ((TargetsRaised 0, RoundKey 0), 0)] @ demo_store"

definition demo_barrier :: "kv_alist job" where
  "demo_barrier = demo_job (demo_proc True IS_READY 3 3) (demo_proc True IS_READY 3 3)
     (At_barrier 0 0 True False) (At_barrier 0 0 True False) demo_counted"

definition demo_end :: "kv_alist job" where
  "demo_end = demo_job (demo_proc True IS_READY 3 3) (demo_proc True IS_READY 3 3)
     (Drained_at 0) (At_barrier 0 0 True False) demo_counted"

lemma upt_two: "[0..<2] = [0, Suc 0]"
  by (simp add: upt_rec)

lemmas demo_defs = upt_two ckpt_thread_def share_upload_def share_download_def
  download_targets_def upload_seq_def alist_kvdb_def drain_round_def upload_raised_targets_def Let_def
  check_seq_nums_def kv_val_def drain_decide_def begin_critical_section_def commit_finish_phase_def must_wait_def
  demo_job_def demo_proc_def demo_store_def demo_counted_def

lemma owned_once_eq:
  assumes "owned_once N csize pr" and "csize g \<le> 1" and "p < N" "q < N"
    and "map_of (clocks (pr p)) g = Some c" "map_of (clocks (pr q)) g = Some c'"
  shows "p = q"
proof -
  have "map_of (clocks (pr p)) g \<noteq> None" "map_of (clocks (pr q)) g \<noteq> None" using assms(5,6) by simp_all
  then show ?thesis using assms(1-4) unfolding owned_once_def by blast
qed

lemma demo_shared_eq: "ckpt_threads alist_kvdb 0 2 [0, 1, 0, 1] demo_start = Some demo_shared"
  unfolding demo_start_def demo_shared_def by (simp add: demo_defs)

lemma demo_call_eq:
  "demo_call = demo_shared \<lparr> procs := (procs demo_shared) (1 := begin_critical_section (Some (5, 2)) (procs demo_shared 1)) \<rparr>"
  unfolding demo_call_def demo_shared_def by (simp add: demo_defs)

lemma demo_called_eq:
  "demo_called = demo_call \<lparr> procs := (procs demo_call) (1 := commit_finish_phase (procs demo_call 1)) \<rparr>"
  unfolding demo_call_def demo_called_def by (simp add: demo_defs)

lemma demo_barrier_eq: "ckpt_threads alist_kvdb 0 2 [0, 1] demo_called = Some demo_barrier"
  unfolding demo_called_def demo_barrier_def by (simp add: demo_defs)

lemma demo_end_eq: "ckpt_threads alist_kvdb 0 2 [0] demo_barrier = Some demo_end"
  unfolding demo_end_def demo_barrier_def by (simp add: demo_defs) (simp add: fun_upd_twist)

lemma demo_start_ok: "job_start alist_kvdb 0 2 (\<lambda>g. 2) demo_start"
  unfolding job_start_def fresh_attempt_def owned_once_def demo_start_def
  by (simp add: alist_kvdb_ok) (simp add: demo_job_def demo_proc_def alist_kvdb_def less_2_cases_iff)

lemma demo_barrier_run: "(job_step alist_kvdb 0 2 (\<lambda>g. 2))\<^sup>*\<^sup>* demo_start demo_barrier"
proof -
  have 1: "(job_step alist_kvdb 0 2 (\<lambda>g. 2))\<^sup>*\<^sup>* demo_start demo_shared"
    by (rule ckpt_threads_run [OF _ demo_shared_eq]) simp
  have 2: "job_step alist_kvdb 0 2 (\<lambda>g. 2) demo_shared demo_call"
    unfolding demo_call_eq by (rule job_step.Begin_call) (simp_all add: demo_shared_def demo_defs)
  have 3: "job_step alist_kvdb 0 2 (\<lambda>g. 2) demo_call demo_called"
    unfolding demo_called_eq by (rule job_step.Finish_call) (simp_all add: demo_call_def demo_defs)
  have 4: "(job_step alist_kvdb 0 2 (\<lambda>g. 2))\<^sup>*\<^sup>* demo_called demo_barrier"
    by (rule ckpt_threads_run [OF _ demo_barrier_eq]) simp
  have "(job_step alist_kvdb 0 2 (\<lambda>g. 2))\<^sup>*\<^sup>* demo_start demo_called"
    by (rule rtranclp.rtrancl_into_rtrancl [OF rtranclp.rtrancl_into_rtrancl [OF 1 2] 3])
  then show ?thesis by (rule rtranclp_trans [OF _ 4])
qed

lemma demo_end_run: "(job_step alist_kvdb 0 2 (\<lambda>g. 2))\<^sup>*\<^sup>* demo_start demo_end"
proof (rule rtranclp_trans [OF demo_barrier_run])
  show "(job_step alist_kvdb 0 2 (\<lambda>g. 2))\<^sup>*\<^sup>* demo_barrier demo_end"
    by (rule ckpt_threads_run [OF _ demo_end_eq]) simp
qed

section \<open>Properties\<close>

text \<open>C9. When the drain has finished on one process, then on every process of the job no thread is in a
  critical section and none can enter one, and any two processes that have a clock for the same
  communicator have the same sequence number for it: each collective call was made by all of its
  members or by none.\<close>

theorem drain_leaves_no_partial_collective:
  assumes "job_start kv a N csize j0" and "(job_step kv a N csize)\<^sup>*\<^sup>* j0 j"
    and "p < N" and "pcs j p = Drained_at r"
  shows "(\<forall>q<N. current_phase (procs j q) = IS_READY \<and> must_wait (procs j q)) \<and>
    (\<forall>q<N. \<forall>q'<N. \<forall>g c c'. map_of (clocks (procs j q)) g = Some c \<and> map_of (clocks (procs j q')) g = Some c' \<longrightarrow>
       ck_seq c = ck_seq c')"
proof -
  have inv: "job_inv kv a N csize j" by (rule drain.reachable_inv [OF assms(1,2)])
  note settled = drained_settles [OF inv assms(3,4)]
  have "ck_seq c = ck_seq c'"
    if h: "q < N" "q' < N" "map_of (clocks (procs j q)) g = Some c" "map_of (clocks (procs j q')) g = Some c'" for q q' g c c'
  proof (cases "1 < csize g")
    case True
    then show ?thesis using settled(3) [OF h(1,3)] settled(3) [OF h(2,4)] by simp
  next
    case False
    then have "q = q'" using owned_once_eq [OF job_inv_owned [OF inv] _ h] by simp
    then show ?thesis using h by simp
  qed
  then show ?thesis using settled(1,2) by blast
qed

theorem drain_leaves_no_partial_collective_witness:
  "pcs demo_end 0 = Drained_at 0 \<and> must_wait (procs demo_end 0) \<and> must_wait (procs demo_end 1)"
proof -
  have "pcs demo_end 0 = Drained_at 0" by (simp add: demo_end_def demo_job_def)
  then show ?thesis
    using drain_leaves_no_partial_collective [OF demo_start_ok demo_end_run, of 0 0] by simp
qed

text \<open>C10. After the barrier of a round no assertion on a read of the key-value database fails: the
  counters, the entries of the list of raised clocks and their targets are all there.\<close>

theorem drain_reads_succeed:
  assumes "job_start kv a N csize j0" and "(job_step kv a N csize)\<^sup>*\<^sup>* j0 j"
    and "p < N" and "pcs j p = At_barrier r w t c" and "\<forall>q<N. r < contributed (pcs j q)"
  shows "\<exists>e s'. drain_decide kv a r (int N) (store j) (procs j p) = Ok (e, s')"
proof -
  have inv: "job_inv kv a N csize j" by (rule drain.reachable_inv [OF assms(1,2)])
  have present: "\<exists>v. kv_get kv d (RoundKey r) (store j) = Some v" if "d \<in> round_keys a" for d
    using rounds_ok_present [OF job_inv_rounds [OF inv] assms(3) _ that] assms(3,5) by simp
  obtain n i k where get: "kv_get kv (Converge a) (RoundKey r) (store j) = Some n"
      "kv_get kv (CriticalSection a) (RoundKey r) (store j) = Some i"
      "kv_get kv (TargetsRaised a) (RoundKey r) (store j) = Some k"
    using present [of "Converge a"] present [of "CriticalSection a"] present [of "TargetsRaised a"]
    by (auto simp: round_keys_def)
  then have "k = raised_count kv a r (store j)" by (simp add: raised_count_def kv_val_def)
  then show ?thesis
    using get download_raised_targets_spec [OF job_inv_store [OF inv], of r "procs j p"]
    unfolding drain_decide_def by auto
qed

theorem drain_reads_succeed_witness:
  "\<exists>e s'. drain_decide alist_kvdb 0 0 (int 2) (store demo_barrier) (procs demo_barrier 0) = Ok (e, s')"
proof (rule drain_reads_succeed [OF demo_start_ok demo_barrier_run])
  show "pcs demo_barrier 0 = At_barrier 0 0 True False" by (simp add: demo_barrier_def demo_job_def)
  show "\<forall>q<2. 0 < contributed (pcs demo_barrier q)"
    by (simp add: demo_barrier_def demo_job_def less_2_cases_iff)
qed simp

end
