(* ===== verification/Kvdb_Names.thy ===== *)
theory Kvdb_Names
  imports Collective_Clock
begin

text \<open>
  The names of the databases and keys at DMTCP's coordinator (\<^verbatim>\<open>ckpt_kvdb_name\<close>, \<^verbatim>\<open>raised_entry_key\<close> and the formats of
  \<^verbatim>\<open>try_drain_mpi_collective\<close> in \<^verbatim>\<open>seq_num.cpp\<close>) as strings.  The conversions of \<^verbatim>\<open>snprintf\<close> are modelled on characters.  The
  models of the drains use constructors for these names: here is why two of them never share a string.
\<close>

section \<open>Numbers as strings\<close>

definition digit :: "nat \<Rightarrow> char" where
  "digit d = char_of (if d < 10 then 48 + d else 87 + d)"

definition undigit :: "char \<Rightarrow> nat" where
  "undigit c = (if of_char c < (58 :: nat) then of_char c - 48 else of_char c - 87)"

fun to_base :: "nat \<Rightarrow> nat \<Rightarrow> string" where
  "to_base b n = (if n < b \<or> b < 2 then [digit n] else to_base b (n div b) @ [digit (n mod b)])"

declare to_base.simps [simp del]

text \<open>\<^verbatim>\<open>%llx\<close>, \<^verbatim>\<open>%u\<close> and \<^verbatim>\<open>%lld\<close> of a value that is not negative, and \<^verbatim>\<open>%06d\<close>.\<close>

definition hex :: "nat \<Rightarrow> string" where
  "hex n = to_base 16 n"

definition dec :: "nat \<Rightarrow> string" where
  "dec n = to_base 10 n"

definition dec6 :: "nat \<Rightarrow> string" where
  "dec6 n = replicate (6 - length (dec n)) CHR ''0'' @ dec n"

definition value_of :: "nat \<Rightarrow> string \<Rightarrow> nat" where
  "value_of b s = foldl (\<lambda>v c. v * b + undigit c) 0 s"

lemma undigit_digit [simp]: "d < 16 \<Longrightarrow> undigit (digit d) = d"
  by (simp add: undigit_def digit_def)

lemma value_to_base: "2 \<le> b \<Longrightarrow> b \<le> 16 \<Longrightarrow> value_of b (to_base b n) = n"
proof (induction b n rule: to_base.induct)
  case (1 b n)
  show ?case
  proof (cases "n < b")
    case True
    then show ?thesis using 1 by (subst to_base.simps) (simp add: value_of_def)
  next
    case False
    have "n mod b < 16" using mod_less_divisor [of b n] 1(2,3) by linarith
    then show ?thesis using 1 False by (subst to_base.simps) (simp add: value_of_def)
  qed
qed

lemma value_zeros: "value_of b (replicate k CHR ''0'' @ s) = value_of b s"
proof -
  have "foldl (\<lambda>v c. v * b + undigit c) 0 (replicate k CHR ''0'') = 0" by (induction k) (simp_all add: undigit_def)
  then show ?thesis by (simp add: value_of_def)
qed

lemma number_inj: "hex m = hex n \<longleftrightarrow> m = n" "dec m = dec n \<longleftrightarrow> m = n" "dec6 m = dec6 n \<longleftrightarrow> m = n"
proof -
  have "value_of 16 (hex k) = k" for k using value_to_base [of 16 k] by (simp add: hex_def)
  then show "hex m = hex n \<longleftrightarrow> m = n" by metis
  have "value_of 10 (dec k) = k" for k using value_to_base [of 10 k] by (simp add: dec_def)
  then show "dec m = dec n \<longleftrightarrow> m = n" by metis
  have "value_of 10 (dec6 k) = k" for k unfolding dec6_def value_zeros using value_to_base [of 10 k] by (simp add: dec_def)
  then show "dec6 m = dec6 n \<longleftrightarrow> m = n" by metis
qed

lemma digit_no_dash: "d < 16 \<Longrightarrow> digit d \<noteq> CHR ''-''"
proof
  assume "d < 16" "digit d = CHR ''-''"
  then have "of_char (digit d) = (45 :: nat)" by simp
  then show False using \<open>d < 16\<close> by (simp add: digit_def split: if_splits)
qed

lemma to_base_no_dash: "2 \<le> b \<Longrightarrow> b \<le> 16 \<Longrightarrow> CHR ''-'' \<notin> set (to_base b n)"
proof (induction b n rule: to_base.induct)
  case (1 b n)
  have "n mod b < 16" using mod_less_divisor [of b n] 1(2,3) by linarith
  then show ?case using 1 digit_no_dash by (subst to_base.simps) (auto dest!: sym [of "CHR ''-''"])
qed

lemma no_dash: "CHR ''-'' \<notin> set (hex n)" "CHR ''-'' \<notin> set (dec n)" "CHR ''-'' \<notin> set (dec6 n)"
  using to_base_no_dash [of 16 n] to_base_no_dash [of 10 n] by (auto simp: hex_def dec_def dec6_def)

lemma first_field: "u @ c # x = v @ c # y \<Longrightarrow> c \<notin> set u \<Longrightarrow> c \<notin> set v \<Longrightarrow> u = v \<and> x = y"
proof (induction u arbitrary: v)
  case Nil
  then show ?case by (cases v) auto
next
  case (Cons a u)
  then show ?case by (cases v) auto
qed

lemma last_field:
  assumes "xs @ CHR ''-'' # u = ys @ CHR ''-'' # v" and "CHR ''-'' \<notin> set u" and "CHR ''-'' \<notin> set v"
  shows "xs = ys \<and> u = v"
proof -
  have "rev u @ CHR ''-'' # rev xs = rev v @ CHR ''-'' # rev ys" using arg_cong [OF assms(1), of rev] by simp
  then show ?thesis using first_field [of "rev u" "CHR ''-''" "rev xs" "rev v" "rev ys"] assms(2,3) by simp
qed

section \<open>Names of databases and keys\<close>

text \<open>\<open>start\<close> and \<open>generation\<close> are DMTCP's computation id; the buffer has \<open>room\<close> bytes.\<close>

definition ckpt_kvdb_name :: "nat \<Rightarrow> string \<Rightarrow> int64 \<Rightarrow> int32 \<Rightarrow> int \<Rightarrow> string result" where
  "ckpt_kvdb_name room what start generation attempt =
     (let buf = ''/plugin/MANA/'' @ what @ ''-'' @ hex (unat start) @ ''-'' @ dec (unat generation) @
                (if attempt < 0 then [] else ''-'' @ dec6 (nat attempt));
          n = length buf
      in if n > 0 \<and> n < 64 \<and> n < room then Ok buf else Fault Assert_failed)"

definition round_key :: "nat \<Rightarrow> string" where
  "round_key round_num = ''round-'' @ dec6 round_num"

definition raised_entry_key :: "string \<Rightarrow> nat \<Rightarrow> string" where
  "raised_entry_key rkey i = rkey @ ''-'' @ dec i"

text \<open>The databases of a checkpoint: those of the collective drain, with an attempt, and that of the point-to-point drain.\<close>

datatype ckpt_db = Collective_db kv_db | P2p_db

fun db_what :: "ckpt_db \<Rightarrow> string" where
  "db_what (Collective_db (CommSeqMax a)) = ''comm-seq-max''"
| "db_what (Collective_db (CriticalSection a)) = ''CRITICAL-SECTION''"
| "db_what (Collective_db (Converge a)) = ''CONVERGE''"
| "db_what (Collective_db (TargetsRaised a)) = ''TARGETS-RAISED''"
| "db_what (Collective_db (RaisedGids a)) = ''RAISED-GIDS''"
| "db_what P2p_db = ''p2p''"

fun db_attempt :: "ckpt_db \<Rightarrow> int" where
  "db_attempt (Collective_db (CommSeqMax a)) = int a"
| "db_attempt (Collective_db (CriticalSection a)) = int a"
| "db_attempt (Collective_db (Converge a)) = int a"
| "db_attempt (Collective_db (TargetsRaised a)) = int a"
| "db_attempt (Collective_db (RaisedGids a)) = int a"
| "db_attempt P2p_db = - 1"

definition db_name :: "int64 \<Rightarrow> int32 \<Rightarrow> ckpt_db \<Rightarrow> string result" where
  "db_name start generation d = ckpt_kvdb_name 64 (db_what d) start generation (db_attempt d)"

lemma name_fields:
  assumes "x @ ''-'' @ hex m @ ''-'' @ dec g = y @ ''-'' @ hex n @ ''-'' @ dec h"
  shows "x = y \<and> m = n \<and> g = h"
proof -
  have "(x @ CHR ''-'' # hex m) @ CHR ''-'' # dec g = (y @ CHR ''-'' # hex n) @ CHR ''-'' # dec h" using assms by simp
  then have 1: "x @ CHR ''-'' # hex m = y @ CHR ''-'' # hex n" "dec g = dec h" using last_field no_dash(2) by blast+
  then have "x = y" "hex m = hex n" using last_field no_dash(1) by blast+
  then show ?thesis using 1(2) by (simp add: number_inj)
qed

lemma kvdb_name_Ok: "ckpt_kvdb_name room what start generation attempt = Ok buf \<Longrightarrow>
    buf = ''/plugin/MANA/'' @ what @ ''-'' @ hex (unat start) @ ''-'' @ dec (unat generation) @
      (if attempt < 0 then [] else ''-'' @ dec6 (nat attempt)) \<and> length buf < 64 \<and> length buf < room"
  unfolding ckpt_kvdb_name_def Let_def by (simp only: split: if_splits) auto

lemma kvdb_name_inj:
  assumes "ckpt_kvdb_name room w s g a = Ok buf" and "ckpt_kvdb_name room' w' s' g' a' = Ok buf" and "a < 0 \<longleftrightarrow> a' < 0"
  shows "w = w' \<and> s = s' \<and> g = g' \<and> (a < 0 \<or> a = a')"
proof (cases "a < 0")
  case True
  then have "''/plugin/MANA/'' @ w @ ''-'' @ hex (unat s) @ ''-'' @ dec (unat g) = ''/plugin/MANA/'' @ w' @ ''-'' @ hex (unat s') @ ''-'' @ dec (unat g')"
    using kvdb_name_Ok [OF assms(1)] kvdb_name_Ok [OF assms(2)] assms(3) by simp
  then show ?thesis using name_fields [of w "unat s" "unat g" w' "unat s'" "unat g'"] True by (simp add: word_unat_eq_iff)
next
  case False
  then have "(w @ ''-'' @ hex (unat s) @ ''-'' @ dec (unat g)) @ CHR ''-'' # dec6 (nat a) =
      (w' @ ''-'' @ hex (unat s') @ ''-'' @ dec (unat g')) @ CHR ''-'' # dec6 (nat a')"
    using kvdb_name_Ok [OF assms(1)] kvdb_name_Ok [OF assms(2)] assms(3) by simp
  then have "w @ ''-'' @ hex (unat s) @ ''-'' @ dec (unat g) = w' @ ''-'' @ hex (unat s') @ ''-'' @ dec (unat g')" "nat a = nat a'"
    using last_field no_dash(3) number_inj(3) by blast+
  then show ?thesis using name_fields [of w "unat s" "unat g" w' "unat s'" "unat g'"] False assms(3)
    by (simp add: word_unat_eq_iff)
qed

lemma db_what_inj: "db_what d = db_what e \<Longrightarrow> db_attempt d = db_attempt e \<Longrightarrow> d = e"
  by (cases d rule: db_what.cases; cases e rule: db_what.cases) simp_all

lemma p2p_name: "db_attempt d < 0 \<longleftrightarrow> d = P2p_db" "d = P2p_db \<or> hd (db_what d) \<noteq> CHR ''p''" "db_what d \<noteq> []"
  by (cases d rule: db_what.cases; simp)+

lemma name_head:
  assumes "ckpt_kvdb_name room w s g a = Ok buf" and "w \<noteq> []"
  shows "buf ! 13 = hd w"
  using kvdb_name_Ok [OF assms(1)] assms(2) by (cases w) simp_all

section \<open>Properties\<close>

text \<open>C34. The databases of different checkpoints, purposes and attempts have different names at the coordinator, which keeps
  all of them: two names that \<^verbatim>\<open>ckpt_kvdb_name\<close> gives are equal only if the start of the computation, the generation of the
  checkpoint, the purpose and the attempt are equal.  A name is never so long that DMTCP would cut it off.\<close>

theorem kvdb_names_distinct:
  assumes "db_name s g d = Ok buf" and "db_name s' g' d' = Ok buf"
  shows "s = s' \<and> g = g' \<and> d = d' \<and> length buf < 64"
proof -
  note n = assms [unfolded db_name_def]
  have "d = P2p_db \<longleftrightarrow> d' = P2p_db"
    using name_head [OF n(1) p2p_name(3)] name_head [OF n(2) p2p_name(3)] p2p_name(2) [of d] p2p_name(2) [of d'] by auto
  then have a: "db_attempt d < 0 \<longleftrightarrow> db_attempt d' < 0" by (simp add: p2p_name(1))
  have "db_what d = db_what d' \<and> s = s' \<and> g = g' \<and> (db_attempt d < 0 \<or> db_attempt d = db_attempt d')"
    by (rule kvdb_name_inj [OF n a])
  then show ?thesis using db_what_inj [of d d'] p2p_name(1) [of d] a kvdb_name_Ok [OF n(1)] by (auto simp: p2p_name(1))
qed

lemma length_to_base: "2 \<le> b \<Longrightarrow> n < b ^ Suc k \<Longrightarrow> length (to_base b n) \<le> Suc k"
proof (induction k arbitrary: n)
  case 0
  then show ?case by (subst to_base.simps) simp
next
  case (Suc k)
  have "n div b < b ^ Suc k" using Suc.prems by (simp add: less_mult_imp_div_less mult.commute)
  then show ?case using Suc by (subst to_base.simps) simp
qed

text \<open>C35. \<^verbatim>\<open>ckpt_kvdb_name\<close> does not abort on any database of the drains while the start of the computation is below
  \<open>2 ^ 48\<close>, and the generation and the attempt are below a million.\<close>

theorem kvdb_names_fit:
  assumes "unat start < 2 ^ 48" and "unat generation < 10 ^ 6" and "db_attempt d < 10 ^ 6"
  shows "\<exists>buf. db_name start generation d = Ok buf"
proof -
  have "length (hex (unat start)) \<le> 12" using length_to_base [of 16 "unat start" 11] assms(1) by (simp add: hex_def)
  moreover have g: "length (dec (unat generation)) \<le> 6" using length_to_base [of 10 "unat generation" 5] assms(2) by (simp add: dec_def)
  moreover have "length (dec6 (nat (db_attempt d))) \<le> 6"
    using length_to_base [of 10 "nat (db_attempt d)" 5] assms(3) by (simp add: dec6_def dec_def)
  moreover have "length (db_what d) \<le> 16" by (cases d rule: db_what.cases) simp_all
  ultimately show ?thesis by (simp add: db_name_def ckpt_kvdb_name_def Let_def)
qed

theorem kvdb_names_fit_witness: "\<exists>buf. db_name 1700000000 3 (Collective_db (CriticalSection 7)) = Ok buf"
  by (rule kvdb_names_fit) simp_all

theorem kvdb_names_distinct_witness:
  "\<exists>buf buf'. db_name 1700000000 3 P2p_db = Ok buf \<and> db_name 1700000000 4 P2p_db = Ok buf' \<and> buf \<noteq> buf'"
proof -
  have f: "\<exists>buf. db_name 1700000000 g P2p_db = Ok buf" if "g \<in> {3, 4}" for g
    using that length_to_base [of 16 "1700000000" 11] length_to_base [of 10 "unat g" 5]
    by (auto simp: db_name_def ckpt_kvdb_name_def Let_def hex_def dec_def)
  obtain buf buf' where b: "db_name 1700000000 3 P2p_db = Ok buf" "db_name 1700000000 4 P2p_db = Ok buf'" using f by blast
  then have "buf \<noteq> buf'" using kvdb_names_distinct [OF b(1), of 1700000000 4 P2p_db] by auto
  then show ?thesis using b by blast
qed

text \<open>The keys of a round's list of raised clocks.\<close>

lemma raised_entry_key_inj: "raised_entry_key (round_key m) i = raised_entry_key (round_key n) k \<longleftrightarrow> m = n \<and> i = k"
proof -
  have "round_key m = round_key n \<and> dec i = dec k" if "round_key m @ CHR ''-'' # dec i = round_key n @ CHR ''-'' # dec k"
    by (rule last_field [OF that no_dash(2) no_dash(2)])
  then show ?thesis by (auto simp: raised_entry_key_def round_key_def number_inj)
qed

end
