(* ===== verification/Process.thy ===== *)
theory Process
  imports Collective_Clock
begin

text \<open>
  The state of one MANA process as the wrappers see it, and the actions that the wrappers are made of.

  \<open>proc\<close> has the globals of the upper half that are not in the theories before: the virtual-ID table and
  the constants table, the Collective Clock, the state of the MPI library in the lower half, the nesting
  depth of \<^verbatim>\<open>LOWER_HALF_DISABLE_CKPT\<close>, the pending-call log, the counters and queues of the
  point-to-point drain.  \<open>env\<close> has what does not change while the process runs: the MPI library, the
  values of the predefined constants in both halves, the rank and the size of the job, DMTCP's coordinator.
  \<open>low\<close> is the state of all that is outside the upper half: the library and the coordinator.

  An action takes the state and gives a result and the new state, or a fault.  \<open>Spin\<close> stands also for
  a wait that the thread itself cannot end: a wait for a running checkpoint.
\<close>

section \<open>State\<close>

record mpi_message =
  m_buf :: int64
  m_count :: int
  m_datatype :: mana_mpi_handle
  m_size :: int
  m_comm :: mana_mpi_handle
  m_status :: mpi_status
  ack_to :: int
  ack_tag :: int

datatype pending_recv_state = PENDING_RECV_IDLE | PENDING_RECV_ACTIVE | PENDING_RECV_CLOSED

record pending_recv =
  pr_state :: pending_recv_state
  pr_source :: int
  pr_tag :: int
  pr_comm :: mana_mpi_handle
  pr_count :: int
  pr_datatype :: mana_mpi_handle

record ssend_notice =
  sn_request :: mana_mpi_handle
  sn_receiver :: int
  sn_ack_tag :: int

datatype mana_state_t = UNKNOWN_STATE | RUNNING | CKPT_COLLECTIVE | CKPT_P2P

datatype p2p_wait_t = P2P_WAIT_BLOCKING | P2P_WAIT_POLLING

text \<open>Requests to DMTCP's coordinator during the point-to-point drain: its key-value database with the keys of
  \<^verbatim>\<open>p2p_drain.cpp\<close>, a barrier, the clock of \<^verbatim>\<open>drainStatsNow\<close>, and memory.  The strings of decimal fields that the drain
  stores are the lists of their numbers.\<close>

datatype drain_key =
    SentKey nat | RecvKey nat | DoneKey | BlockedKey int | NDummies int | DummyKey int int | NSsends int | SsendKey int int

datatype drain_request =
    K_get64 drain_key | K_incrby drain_key int | K_or drain_key int64 | K_set drain_key "int list"
  | K_get drain_key | K_barrier string | K_now | K_malloc int

datatype drain_reply = K_none | K_value int | K_string "int list"

text \<open>Keyvals and attributes of communicators (\<^verbatim>\<open>mpi_comm_wrappers.cpp\<close>): \<open>keyval_tuple\<close> is \<^verbatim>\<open>KeyvalTuple\<close>, with its attributes in
  the order in which a loop visits them, and \<open>attr_state\<close> the static variables.  A callback of the application gets its
  arguments and may change them; it returns a code, and a copy callback a value and a flag.\<close>

record keyval_tuple =
  extra_state :: int64
  copy_fn :: int64
  delete_fn :: int64
  attribute_map :: "(mana_mpi_handle \<times> int64) list"
  keyval_freed :: bool

record attr_state =
  keyval_vec :: "int list"
  tuple_map :: "(int \<times> keyval_tuple) list"
  self_keyvals :: "int list"
  tag_ub :: int
  appnum :: "int \<times> int"                         \<comment> \<open>the value and whether it exists\<close>
  universe_size :: "int \<times> int"
  lastusedcode :: "int \<times> int"

datatype callback_call =
    Copy_attr int64 mana_mpi_handle int int64 int64      \<comment> \<open>function, communicator, keyval, extra state, value\<close>
  | Delete_attr int64 mana_mpi_handle int int64 int64    \<comment> \<open>function, communicator, keyval, value, extra state\<close>

record 'l env =
  wide_handles :: bool                                 \<comment> \<open>\<^verbatim>\<open>sizeof(MPI_Comm) > sizeof(int)\<close>\<close>
  lib :: "'l lower"
  upper_const :: "string \<Rightarrow> mana_mpi_handle"   \<comment> \<open>\<^verbatim>\<open>MPI_...\<close> of the upper half\<close>
  lower_const :: "string \<Rightarrow> mana_mpi_handle"   \<comment> \<open>\<^verbatim>\<open>lh_info->MANA_...\<close>\<close>
  int_const :: "string \<Rightarrow> int"                 \<comment> \<open>integer constants of \<^verbatim>\<open>mpi.h\<close>\<close>
  in_place :: int64
  fortran_in_place :: int64
  world_rank :: int
  world_size :: int
  ckpt_fsaddr :: bool                          \<comment> \<open>whether \<^verbatim>\<open>lh_info->ckpt_fsaddr\<close> is not null\<close>
  coordinator :: "drain_request \<Rightarrow> 'l \<Rightarrow> drain_reply \<times> 'l"
  callback :: "callback_call \<Rightarrow> attr_state \<times> 'l \<Rightarrow> (int \<times> int64 \<times> int) \<times> attr_state \<times> 'l"

record 'l proc =
  ctab :: constants
  vtab :: vtable
  ccs :: cc
  low :: 'l
  gids_made :: int64
  world_comm :: mana_mpi_handle
  self_desc :: mana_comm_desc
  mana_state :: mana_state_t
  depth :: int
  freed_types :: "mana_mpi_handle list"
  pending_head :: "nat option"
  pending_tail :: "nat option"
  pending_issends :: int
  local_sent :: int
  local_recv :: int
  message_queue :: "mpi_message list"
  g_pending_recv :: pending_recv
  p2p_dummy_phase :: bool
  p2p_wait :: p2p_wait_t
  active_comms :: "mana_mpi_handle list"
  ssend_ack_comm :: mana_mpi_handle
  ssend_notices :: "ssend_notice list"
  next_ack_tag :: int
  owed_acks :: "(int \<times> int) list"
  dummy_sends :: "(mana_mpi_handle \<times> int64) list"
  attributes :: attr_state

section \<open>Actions\<close>

type_synonym ('l, 'a) act = "'l proc \<Rightarrow> ('a \<times> 'l proc) result"

definition ret :: "'a \<Rightarrow> ('l, 'a) act" where
  "ret a = (\<lambda>s. Ok (a, s))"

definition andthen :: "('l, 'a) act \<Rightarrow> ('a \<Rightarrow> ('l, 'b) act) \<Rightarrow> ('l, 'b) act" where
  "andthen m f = (\<lambda>s. bind_result (m s) (\<lambda>(a, s). f a s))"

definition fail :: "fault \<Rightarrow> ('l, 'a) act" where
  "fail e = (\<lambda>s. Fault e)"

definition gets :: "('l proc \<Rightarrow> 'a) \<Rightarrow> ('l, 'a) act" where
  "gets f = (\<lambda>s. Ok (f s, s))"

definition modify :: "('l proc \<Rightarrow> 'l proc) \<Rightarrow> ('l, unit) act" where
  "modify f = (\<lambda>s. Ok ((), f s))"

definition lift :: "('l proc \<Rightarrow> 'a result) \<Rightarrow> ('l, 'a) act" where
  "lift f = (\<lambda>s. bind_result (f s) (\<lambda>a. Ok (a, s)))"

definition assert_act :: "bool \<Rightarrow> ('l, unit) act" where
  "assert_act b = (if b then ret () else fail Assert_failed)"

fun each :: "('x \<Rightarrow> ('l, 'a) act) \<Rightarrow> 'x list \<Rightarrow> ('l, 'a list) act" where
  "each f [] = ret []"
| "each f (x # xs) = andthen (f x) (\<lambda>a. andthen (each f xs) (\<lambda>as. ret (a # as)))"

definition when_act :: "bool \<Rightarrow> ('l, unit) act \<Rightarrow> ('l, unit) act" where
  "when_act b m = (if b then m else ret ())"

text \<open>A change of the virtual-ID table that can fault.\<close>

definition on_table :: "(vtable \<Rightarrow> ('a \<times> vtable) result) \<Rightarrow> ('l, 'a) act" where
  "on_table f = (\<lambda>s. bind_result (f (vtab s)) (\<lambda>(a, t). Ok (a, s \<lparr> vtab := t \<rparr>)))"

definition change_table :: "(vtable \<Rightarrow> vtable result) \<Rightarrow> ('l, unit) act" where
  "change_table f = on_table (\<lambda>t. bind_result (f t) (\<lambda>t. Ok ((), t)))"

definition next_func :: "'l env \<Rightarrow> string \<Rightarrow> lval list \<Rightarrow> ('l, int \<times> lval list) act" where
  "next_func env f args = (\<lambda>s. case lib env f args (low s) of (r, l) \<Rightarrow> Ok (r, s \<lparr> low := l \<rparr>))"

definition LOWER_HALF_DISABLE_CKPT :: "('l, unit) act" where
  "LOWER_HALF_DISABLE_CKPT = modify (\<lambda>s. s \<lparr> depth := depth s + 1 \<rparr>)"

definition LOWER_HALF_ENABLE_CKPT :: "('l, unit) act" where
  "LOWER_HALF_ENABLE_CKPT = modify (\<lambda>s. s \<lparr> depth := depth s - 1 \<rparr>)"

definition real_of :: "'l env \<Rightarrow> mana_mpi_handle \<Rightarrow> ('l, mana_mpi_handle) act" where
  "real_of env h = lift (\<lambda>s. get_real_id (wide_handles env) (ctab s) (vtab s) h)"

definition lookup :: "'l env \<Rightarrow> 'l proc \<Rightarrow> mana_mpi_handle \<Rightarrow> virt_id_entry option" where
  "lookup env s h = map_option (slot_entry (vtab s)) (lookup_virt_id_entry (wide_handles env) (vtab s) h)"

abbreviation MPI_COMM_NULL :: "'l env \<Rightarrow> mana_mpi_handle" where
  "MPI_COMM_NULL env \<equiv> upper_const env ''COMM_NULL''"

abbreviation MPI_COMM_WORLD :: "'l env \<Rightarrow> mana_mpi_handle" where
  "MPI_COMM_WORLD env \<equiv> upper_const env ''COMM_WORLD''"

abbreviation MPI_COMM_SELF :: "'l env \<Rightarrow> mana_mpi_handle" where
  "MPI_COMM_SELF env \<equiv> upper_const env ''COMM_SELF''"

abbreviation MPI_REQUEST_NULL :: "'l env \<Rightarrow> mana_mpi_handle" where
  "MPI_REQUEST_NULL env \<equiv> upper_const env ''REQUEST_NULL''"

section \<open>Communicators and their clocks\<close>

text \<open>\<^verbatim>\<open>get_comm_desc\<close>.\<close>

definition get_comm_desc :: "'l env \<Rightarrow> mana_mpi_handle \<Rightarrow> 'l proc \<Rightarrow> mana_comm_desc option" where
  "get_comm_desc env comm s =
     (if comm = MPI_COMM_SELF env then Some (self_desc s)
      else let virt_comm = (if comm = MPI_COMM_WORLD env then world_comm s else comm)
           in case lookup env s virt_comm of
                None \<Rightarrow> None
              | Some entry \<Rightarrow>
                  if handle_kind (virt entry) \<noteq> int MANA_COMM_KIND then None
                  else (case desc entry of CommDesc d \<Rightarrow> Some d | _ \<Rightarrow> None))"

definition wait_while_targets_reached :: "('l, unit) act" where
  "wait_while_targets_reached = (\<lambda>s. if must_wait (ccs s) then Fault Spin else Ok ((), s))"

text \<open>\<^verbatim>\<open>begin_critical_section\<close> with its wait.\<close>

definition enter_critical_section :: "'l env \<Rightarrow> mana_mpi_handle \<Rightarrow> bool \<Rightarrow> ('l, unit) act" where
  "enter_critical_section env comm counted =
     andthen (gets (\<lambda>s. if counted then get_comm_desc env comm s else None)) (\<lambda>desc.
     andthen wait_while_targets_reached (\<lambda>_.
     modify (\<lambda>s. s \<lparr> ccs := begin_critical_section (map_option (\<lambda>d. (gid d, cd_size d)) desc) (ccs s) \<rparr>)))"

definition commit_begin :: "'l env \<Rightarrow> mana_mpi_handle \<Rightarrow> ('l, unit) act" where
  "commit_begin env comm =
     (if comm = MPI_COMM_NULL env then ret () else enter_critical_section env comm True)"

definition free_barriers :: "'l env \<Rightarrow> ('l, unit) act" where
  "free_barriers env = (\<lambda>s.
     case test_comm_free_barriers (lib env) (ccs s) (low s) of
       None \<Rightarrow> Fault Spin
     | Some r \<Rightarrow> bind_result r (\<lambda>(c, l). Ok ((), s \<lparr> ccs := c, low := l \<rparr>)))"

definition commit_finish :: "'l env \<Rightarrow> mana_mpi_handle \<Rightarrow> ('l, unit) act" where
  "commit_finish env comm =
     andthen (modify (\<lambda>s. s \<lparr> ccs := commit_finish_phase (ccs s) \<rparr>)) (\<lambda>_.
     andthen (\<lambda>s. if ckpt_pending (ccs s) then wait_while_targets_reached s else Ok ((), s)) (\<lambda>_.
     (\<lambda>s. if pending_frees (ccs s) \<noteq> []
          then andthen LOWER_HALF_DISABLE_CKPT (\<lambda>_.
               andthen (free_barriers env) (\<lambda>_. LOWER_HALF_ENABLE_CKPT)) s
          else Ok ((), s))))"

section \<open>Rules for actions\<close>

lemma andthen_Ok:
  "andthen m f s = Ok x \<longleftrightarrow> (\<exists>a t. m s = Ok (a, t) \<and> f a t = Ok x)"
  by (auto simp: andthen_def bind_result_Ok_iff)

lemma ret_Ok [simp]: "ret a s = Ok (b, t) \<longleftrightarrow> b = a \<and> t = s"
  by (auto simp: ret_def)

lemma gets_Ok [simp]: "gets f s = Ok (b, t) \<longleftrightarrow> b = f s \<and> t = s"
  by (auto simp: gets_def)

lemma modify_Ok [simp]: "modify f s = Ok (b, t) \<longleftrightarrow> t = f s"
  by (auto simp: modify_def)

lemma fail_Ok [simp]: "fail e s \<noteq> Ok x"
  by (simp add: fail_def)

lemma real_of_Ok:
  "real_of env h s = Ok (r, t) \<longleftrightarrow> get_real_id (wide_handles env) (ctab s) (vtab s) h = Ok r \<and> t = s"
  by (auto simp: real_of_def lift_def bind_result_Ok_iff)

lemma next_func_Ok:
  "next_func env f args s = Ok (r, t) \<longleftrightarrow>
     fst (lib env f args (low s)) = r \<and> t = s \<lparr> low := snd (lib env f args (low s)) \<rparr>"
  by (auto simp: next_func_def split: prod.splits)

lemma disable_Ok [simp]: "LOWER_HALF_DISABLE_CKPT s = Ok (b, t) \<longleftrightarrow> t = s \<lparr> depth := depth s + 1 \<rparr>"
  by (auto simp: LOWER_HALF_DISABLE_CKPT_def)

lemma enable_Ok [simp]: "LOWER_HALF_ENABLE_CKPT s = Ok (b, t) \<longleftrightarrow> t = s \<lparr> depth := depth s - 1 \<rparr>"
  by (auto simp: LOWER_HALF_ENABLE_CKPT_def)

text \<open>The arguments of \<^verbatim>\<open>begin_critical_section\<close> for a communicator.\<close>

definition clock_of :: "'l env \<Rightarrow> mana_mpi_handle \<Rightarrow> 'l proc \<Rightarrow> (int64 \<times> int) option" where
  "clock_of env comm s = map_option (\<lambda>d. (gid d, cd_size d)) (get_comm_desc env comm s)"

lemma commit_begin_Ok:
  assumes "comm \<noteq> MPI_COMM_NULL env"
  shows "commit_begin env comm s = Ok (b, t) \<longleftrightarrow>
    \<not> must_wait (ccs s) \<and> t = s \<lparr> ccs := begin_critical_section (clock_of env comm s) (ccs s) \<rparr>"
  using assms
  by (auto simp: commit_begin_def enter_critical_section_def andthen_Ok wait_while_targets_reached_def clock_of_def
      split: if_splits)

lemma commit_finish_Ok:
  assumes "pending_frees (ccs s) = []"
  shows "commit_finish env comm s = Ok (b, t) \<longleftrightarrow>
    \<not> must_wait (commit_finish_phase (ccs s)) \<and> t = s \<lparr> ccs := commit_finish_phase (ccs s) \<rparr>"
  using assms
  by (auto simp: commit_finish_def andthen_Ok wait_while_targets_reached_def must_wait_def commit_finish_phase_def
      split: if_splits)

lemma begin_frees [simp]: "pending_frees (begin_critical_section d c) = pending_frees c"
  by (simp add: begin_critical_section_def Let_def split: option.split prod.split)

lemma andthen_assoc: "andthen (andthen m f) g = andthen m (\<lambda>a. andthen (f a) g)"
proof
  fix s
  show "andthen (andthen m f) g s = andthen m (\<lambda>a. andthen (f a) g) s"
    by (cases "m s") (simp_all add: andthen_def split: prod.split)
qed

lemmas act_simps = andthen_assoc andthen_Ok real_of_Ok next_func_Ok prod.case_eq_if Let_def

end
