(* ===== verification/Virtual_Objects.thy ===== *)
theory Virtual_Objects
  imports Process
begin

text \<open>
  The constructors of virtual objects (\<^verbatim>\<open>new_virt_comm\<close> and its siblings), the queries on the table, the
  Fortran handles and the gids of \<^verbatim>\<open>virtual_id.cpp\<close>.
\<close>

section \<open>Fortran handles\<close>

definition fortran_to_handle :: "bool \<Rightarrow> constants \<Rightarrow> vtable \<Rightarrow> nat \<Rightarrow> int32 \<Rightarrow> int64" where
  "fortran_to_handle wide c t kind fortran =
     (let handle = ucast fortran :: int64
      in if kind \<le> MANA_NUM_KINDS \<and> lookup_virt_id_entry wide t handle \<noteq> None then handle
         else case fortran_constants c kind fortran of
                Some v \<Rightarrow> v
              | None \<Rightarrow> scast fortran)"

definition handle_to_fortran :: "bool \<Rightarrow> constants \<Rightarrow> vtable \<Rightarrow> nat \<Rightarrow> int64 \<Rightarrow> int32 option" where
  "handle_to_fortran wide c t kind key =
     (if kind \<le> MANA_NUM_KINDS \<and> lookup_virt_id_entry wide t key \<noteq> None then Some (ucast key)
      else case find_constant c key of
             None \<Rightarrow> None
           | Some (Some k) \<Rightarrow> Some (c_fortran k)
           | Some None \<Rightarrow> Some (ucast key))"

section \<open>Constructors\<close>

definition make_gid :: "'l env \<Rightarrow> ('l, int64) act" where
  "make_gid env =
     andthen (gets (\<lambda>s. gids_made s * of_int (world_size env) + of_int (world_rank env))) (\<lambda>g.
     andthen (modify (\<lambda>s. s \<lparr> gids_made := gids_made s + 1 \<rparr>)) (\<lambda>_. ret g))"

definition translate_all :: "'l env \<Rightarrow> mana_mpi_handle \<Rightarrow> int \<Rightarrow> ('l, int list) act" where
  "translate_all env grp n =
     andthen (gets (\<lambda>s. g_world_group (ctab s))) (\<lambda>world_group.
     andthen (next_func env ''Group_translate_ranks''
                [VHandle grp, VInt n, VInts (map int [0..<nat n]), VHandle world_group]) (\<lambda>(rc, outs).
     ret (the_ints outs 0)))"

definition new_comm_desc :: "'l env \<Rightarrow> mana_mpi_handle \<Rightarrow> ('l, mana_comm_desc) act" where
  "new_comm_desc env real_comm =
     andthen (next_func env ''Comm_size'' [VHandle real_comm]) (\<lambda>(rc, o1). let size = the_int o1 0 in
     andthen (next_func env ''Comm_rank'' [VHandle real_comm]) (\<lambda>(rc, o2). let rank = the_int o2 0 in
     andthen (next_func env ''Comm_group'' [VHandle real_comm]) (\<lambda>(rc, o3). let local_group = the_handle o3 0 in
     andthen (translate_all env local_group size) (\<lambda>global_ranks.
     andthen (next_func env ''Group_free'' [VHandle local_group]) (\<lambda>_.
     andthen (next_func env ''Topo_test'' [VHandle real_comm]) (\<lambda>(rc, o4).
     let topology = out_int (int_const env ''UNDEFINED'') o4 0 in
     andthen (if topology = int_const env ''CART''
              then andthen (next_func env ''Cartdim_get'' [VHandle real_comm]) (\<lambda>(rc, o5). ret (out_int (-1) o5 0))
              else ret (-1)) (\<lambda>ndims.
     andthen (if ndims > 0
              then andthen (next_func env ''Cart_get'' [VHandle real_comm, VInt ndims]) (\<lambda>(rc, o6).
                     ret (the_ints o6 0, the_ints o6 1))
              else ret ([], [])) (\<lambda>(dims, periods).
     andthen (if rank = 0 then make_gid env else ret 0) (\<lambda>g0.
     andthen (if size > 1
              then andthen (next_func env ''Bcast''
                     [VPtr g0, VInt 1, VHandle (lower_const env ''UINT64_T''), VInt 0, VHandle real_comm])
                     (\<lambda>(rc, o7). ret (if o7 = [] then g0 else the_ptr o7 0))
              else ret g0) (\<lambda>g.
     andthen (\<lambda>s. bind_result (add_comm_clock g (ccs s)) (\<lambda>c. Ok ((), s \<lparr> ccs := c \<rparr>))) (\<lambda>_.
     ret \<lparr> cd_size = size, cd_rank = rank, cd_global_ranks = global_ranks, cart_ndims = ndims,
           cart_dims = dims, cart_periods = periods, gid = g, clock = g \<rparr>)))))))))))"

definition add_virt :: "mana_mpi_handle \<Rightarrow> descriptor \<Rightarrow> nat \<Rightarrow> ('l, mana_mpi_handle) act" where
  "add_virt real d kind = (\<lambda>s. on_table (add_virt_id (ctab s) real d kind) s)"

definition new_virt_comm :: "'l env \<Rightarrow> mana_mpi_handle \<Rightarrow> ('l, mana_mpi_handle) act" where
  "new_virt_comm env real_comm =
     (if real_comm = lower_const env ''COMM_NULL'' then ret (MPI_COMM_NULL env)
      else andthen (new_comm_desc env real_comm) (\<lambda>d. add_virt real_comm (CommDesc d) MANA_COMM_KIND))"

definition new_virt_group :: "'l env \<Rightarrow> mana_mpi_handle \<Rightarrow> ('l, mana_mpi_handle) act" where
  "new_virt_group env real_group =
     andthen (next_func env ''Group_size'' [VHandle real_group]) (\<lambda>(rc, o1). let size = the_int o1 0 in
     andthen (next_func env ''Group_rank'' [VHandle real_group]) (\<lambda>(rc, o2). let rank = the_int o2 0 in
     andthen (translate_all env real_group size) (\<lambda>global_ranks.
     add_virt real_group (GroupDesc \<lparr> g_size = size, g_rank = rank, g_global_ranks = global_ranks \<rparr>) MANA_GROUP_KIND)))"

definition new_virt_request :: "mana_mpi_handle \<Rightarrow> ('l, mana_mpi_handle) act" where
  "new_virt_request real_request = add_virt real_request NoDesc MANA_REQUEST_KIND"

definition update_entry :: "'l env \<Rightarrow> mana_mpi_handle \<Rightarrow> (virt_id_entry \<Rightarrow> virt_id_entry) \<Rightarrow> ('l, unit) act" where
  "update_entry env h f =
     change_table (\<lambda>t. bind_result (get_virt_id_entry (wide_handles env) t h) (\<lambda>slot.
       Ok (set_entry slot (f (slot_entry t slot)) t)))"

definition new_virt_collective_request :: "'l env \<Rightarrow> mana_mpi_handle \<Rightarrow> ('l, mana_mpi_handle) act" where
  "new_virt_collective_request env real_request =
     andthen (new_virt_request real_request) (\<lambda>request.
     andthen (update_entry env request (\<lambda>e. e \<lparr> collective := True \<rparr>)) (\<lambda>_. ret request))"

text \<open>The fields of a new descriptor of an operation are set by the \<^verbatim>\<open>MPI_Op_create\<close> wrapper.\<close>

definition new_virt_op :: "mana_mpi_handle \<Rightarrow> ('l, mana_mpi_handle) act" where
  "new_virt_op real_op = add_virt real_op (OpDesc \<lparr> user_fn = 0, commute = 0 \<rparr>) MANA_OP_KIND"

definition new_virt_file :: "mana_mpi_handle \<Rightarrow> ('l, mana_mpi_handle) act" where
  "new_virt_file real_file = add_virt real_file NoDesc MANA_FILE_KIND"

definition init_world_comm :: "'l env \<Rightarrow> ('l, unit) act" where
  "init_world_comm env =
     andthen (next_func env ''Comm_dup'' [VHandle (lower_const env ''COMM_WORLD'')]) (\<lambda>(rc, outs).
     andthen (new_virt_comm env (the_handle outs 0)) (\<lambda>comm.
     andthen (modify (\<lambda>s. s \<lparr> world_comm := comm \<rparr>)) (\<lambda>_.
     andthen (new_comm_desc env (lower_const env ''COMM_SELF'')) (\<lambda>d.
     modify (\<lambda>s. s \<lparr> self_desc := d \<rparr>)))))"

section \<open>Requests\<close>

definition complete_virt_request :: "'l env \<Rightarrow> mana_mpi_handle \<Rightarrow> mpi_status \<Rightarrow> ('l, unit) act" where
  "complete_virt_request env request st =
     update_entry env request (\<lambda>e. e \<lparr> status := st, completed := True,
       real_id := lower_const env ''REQUEST_NULL'' \<rparr>)"

definition completed_request_status :: "'l env \<Rightarrow> 'l proc \<Rightarrow> mana_mpi_handle \<Rightarrow> mpi_status option" where
  "completed_request_status env s request =
     (case lookup env s request of
        None \<Rightarrow> None
      | Some e \<Rightarrow> if completed e then Some (status e) else None)"

definition update_virt :: "'l env \<Rightarrow> mana_mpi_handle \<Rightarrow> mana_mpi_handle \<Rightarrow> ('l, unit) act" where
  "update_virt env h real = change_table (update_virt_id (wide_handles env) h real)"

definition free_virt :: "'l env \<Rightarrow> mana_mpi_handle \<Rightarrow> ('l, unit) act" where
  "free_virt env h = change_table (free_virt_id (wide_handles env) h)"

section \<open>Queries\<close>

text \<open>The entries of a kind, with the sequence number of their creation.\<close>

definition virt_id_live_count :: "'l proc \<Rightarrow> nat" where
  "virt_id_live_count s = virt_id_live (vtab s)"

definition is_kind :: "virt_id_entry \<Rightarrow> nat \<Rightarrow> bool" where
  "is_kind e kind \<longleftrightarrow> virt e \<noteq> 0 \<and> handle_kind (virt e) = int kind"

definition entries :: "vtable \<Rightarrow> virt_id_entry list" where
  "entries t = map (slot_entry t) [0..<virt_id_high_water t]"

definition live_virt_comms :: "'l proc \<Rightarrow> mana_mpi_handle list" where
  "live_virt_comms s =
     map (\<lambda>e. ucast (virt e)) (sort_key seq (filter (\<lambda>e. is_kind e MANA_COMM_KIND) (entries (vtab s))))"

definition has_gid :: "int64 \<Rightarrow> virt_id_entry \<Rightarrow> bool" where
  "has_gid g e \<longleftrightarrow> is_kind e MANA_COMM_KIND \<and> (case desc e of CommDesc d \<Rightarrow> gid d = g | _ \<Rightarrow> False)"

definition find_virt_comm :: "'l env \<Rightarrow> int64 \<Rightarrow> 'l proc \<Rightarrow> mana_mpi_handle" where
  "find_virt_comm env g s =
     (if map_option gid (get_comm_desc env (MPI_COMM_WORLD env) s) = Some g then MPI_COMM_WORLD env
      else if gid (self_desc s) = g then MPI_COMM_SELF env
      else case find (has_gid g) (entries (vtab s)) of
             Some e \<Rightarrow> ucast (virt e)
           | None \<Rightarrow> MPI_COMM_NULL env)"

definition pending_collective_requests :: "'l env \<Rightarrow> 'l proc \<Rightarrow> mana_mpi_handle list" where
  "pending_collective_requests env s =
     map (\<lambda>e. ucast (virt e))
       (sort_key seq (filter (\<lambda>e. is_kind e MANA_REQUEST_KIND \<and> collective e \<and>
          real_id e \<noteq> lower_const env ''REQUEST_NULL'') (entries (vtab s))))"

end
