(* ===== verification/Pending_Log.thy ===== *)
theory Pending_Log
  imports Virtual_Objects
begin

text \<open>
  The log of the pending \<^verbatim>\<open>MPI_Isend\<close>, \<^verbatim>\<open>MPI_Irecv\<close> and \<^verbatim>\<open>MPI_Issend\<close> calls (\<^verbatim>\<open>p2p_drain.cpp\<close>): a doubly
  linked list through the entries of the virtual-ID table, in posting order.  An entry is named by its
  slot.  A section under \<^verbatim>\<open>pendingLock\<close> is one action.
\<close>

section \<open>Operations\<close>

definition with_entry :: "nat \<Rightarrow> (virt_id_entry \<Rightarrow> virt_id_entry) \<Rightarrow> 'l proc \<Rightarrow> 'l proc" where
  "with_entry i f s = s \<lparr> vtab := set_entry i (f (slot_entry (vtab s) i)) (vtab s) \<rparr>"

definition link_last :: "nat \<Rightarrow> 'l proc \<Rightarrow> 'l proc" where
  "link_last i s =
     (let old_tail = pending_tail s;
          s = with_entry i (\<lambda>e. e \<lparr> pending_prev := old_tail, pending_next := None \<rparr>) s;
          s = (case old_tail of
                 Some t \<Rightarrow> with_entry t (\<lambda>e. e \<lparr> pending_next := Some i \<rparr>) s
               | None \<Rightarrow> s \<lparr> pending_head := Some i \<rparr>)
      in s \<lparr> pending_tail := Some i \<rparr>)"

definition addPendingRequestToLog ::
  "'l env \<Rightarrow> mpi_req_t \<Rightarrow> int64 \<Rightarrow> int64 \<Rightarrow> int \<Rightarrow> mana_mpi_handle \<Rightarrow> int \<Rightarrow> int \<Rightarrow> mana_mpi_handle \<Rightarrow>
   mana_mpi_handle \<Rightarrow> ('l, unit) act"
where
  "addPendingRequestToLog env req sbuf rbuf cnt type remote tag comm rq =
     andthen (lift (\<lambda>s. get_virt_id_entry (wide_handles env) (vtab s) rq)) (\<lambda>i.
     modify (\<lambda>s.
       let s = with_entry i (\<lambda>e. e \<lparr> call := \<lparr> req_type = req, sendbuf = sbuf, recvbuf = rbuf, nb_count = cnt,
                  nb_datatype = type, nb_comm = comm, remote_node = remote, nb_tag = tag, later_sends = 0 \<rparr> \<rparr>) s;
           s = (if req = ISSEND_REQUEST then s \<lparr> pending_issends := pending_issends s + 1 \<rparr> else s)
       in link_last i s))"

definition unlink :: "nat \<Rightarrow> 'l proc \<Rightarrow> 'l proc" where
  "unlink i s =
     (let e = slot_entry (vtab s) i;
          s = (case pending_prev e of
                 Some p \<Rightarrow> with_entry p (\<lambda>x. x \<lparr> pending_next := pending_next e \<rparr>) s
               | None \<Rightarrow> s \<lparr> pending_head := pending_next e \<rparr>);
          s = (case pending_next e of
                 Some n \<Rightarrow> with_entry n (\<lambda>x. x \<lparr> pending_prev := pending_prev e \<rparr>) s
               | None \<Rightarrow> s \<lparr> pending_tail := pending_prev e \<rparr>)
      in with_entry i (\<lambda>x. x \<lparr> pending_prev := None, pending_next := None,
                               call := (call x) \<lparr> req_type := UNKNOW_REQUEST \<rparr> \<rparr>) s)"

definition clearPendingRequestFromLog :: "'l env \<Rightarrow> mana_mpi_handle \<Rightarrow> ('l, unit) act" where
  "clearPendingRequestFromLog env req =
     modify (\<lambda>s. case lookup_virt_id_entry (wide_handles env) (vtab s) req of
       None \<Rightarrow> s
     | Some i \<Rightarrow>
         let t = req_type (call (slot_entry (vtab s) i))
         in if t = UNKNOW_REQUEST then s
            else unlink i (if t = ISSEND_REQUEST then s \<lparr> pending_issends := pending_issends s - 1 \<rparr> else s))"

definition replacePendingCall :: "'l env \<Rightarrow> mana_mpi_handle \<Rightarrow> mpi_nonblocking_call \<Rightarrow> ('l, unit) act" where
  "replacePendingCall env req c = (\<lambda>s.
     case lookup_virt_id_entry (wide_handles env) (vtab s) req of
       None \<Rightarrow> Fault Assert_failed
     | Some i \<Rightarrow>
         let t = req_type (call (slot_entry (vtab s) i))
         in if t = UNKNOW_REQUEST then Fault Assert_failed
            else let s = (if t = ISSEND_REQUEST \<and> req_type c \<noteq> ISSEND_REQUEST
                          then s \<lparr> pending_issends := pending_issends s - 1 \<rparr> else s)
                 in Ok ((), with_entry i (\<lambda>e. e \<lparr> call := c \<rparr>) s))"

text \<open>The slots from an entry to the end of the log; \<open>None\<close> if the links do not end.\<close>

partial_function (option) log_from :: "vtable \<Rightarrow> nat option \<Rightarrow> nat list option" where
  "log_from t p =
     (case p of
        None \<Rightarrow> Some []
      | Some i \<Rightarrow> Option.bind (log_from t (pending_next (slot_entry t i))) (\<lambda>is. Some (i # is)))"

definition log_slots :: "('l, nat list) act" where
  "log_slots = (\<lambda>s. case log_from (vtab s) (pending_head s) of None \<Rightarrow> Fault Spin | Some is \<Rightarrow> Ok (is, s))"

definition count_later_send :: "mana_mpi_handle \<Rightarrow> int \<Rightarrow> int \<Rightarrow> virt_id_entry \<Rightarrow> virt_id_entry" where
  "count_later_send comm dest tag e =
     (let c = call e
      in if req_type c = ISSEND_REQUEST \<and> nb_comm c = comm \<and> remote_node c = dest \<and> nb_tag c = tag
         then e \<lparr> call := c \<lparr> later_sends := later_sends c + 1 \<rparr> \<rparr> else e)"

definition countSendAfterIssends :: "mana_mpi_handle \<Rightarrow> int \<Rightarrow> int \<Rightarrow> ('l, unit) act" where
  "countSendAfterIssends comm dest tag = (\<lambda>s.
     if pending_issends s = 0 then Ok ((), s)
     else andthen log_slots (\<lambda>is. modify (\<lambda>s. fold (\<lambda>i. with_entry i (count_later_send comm dest tag)) is s)) s)"

definition pendingRequestsInPostingOrder :: "('l, mana_mpi_handle list) act" where
  "pendingRequestsInPostingOrder =
     andthen log_slots (\<lambda>is. gets (\<lambda>s. map (\<lambda>i. ucast (virt (slot_entry (vtab s) i))) is))"

definition pendingRequestType :: "'l env \<Rightarrow> mana_mpi_handle \<Rightarrow> 'l proc \<Rightarrow> mpi_req_t" where
  "pendingRequestType env req s =
     (case lookup env s req of None \<Rightarrow> UNKNOW_REQUEST | Some e \<Rightarrow> req_type (call e))"

definition getPendingCall :: "'l env \<Rightarrow> mana_mpi_handle \<Rightarrow> 'l proc \<Rightarrow> mpi_nonblocking_call option" where
  "getPendingCall env req s =
     (case lookup env s req of
        None \<Rightarrow> None
      | Some e \<Rightarrow> if req_type (call e) \<noteq> UNKNOW_REQUEST then Some (call e) else None)"

definition pendingCallUsesDatatype :: "mana_mpi_handle \<Rightarrow> ('l, bool) act" where
  "pendingCallUsesDatatype type =
     andthen log_slots (\<lambda>is. gets (\<lambda>s. list_ex (\<lambda>i. nb_datatype (call (slot_entry (vtab s) i)) = type) is))"

text \<open>\<^verbatim>\<open>replayMpiP2pOnRestart\<close>: the return code of \<^verbatim>\<open>MPI_Irecv\<close> is not assigned to \<^verbatim>\<open>retval\<close>, so the
  assertion on it always holds.\<close>

definition replay_request :: "'l env \<Rightarrow> mana_mpi_handle \<Rightarrow> ('l, unit) act" where
  "replay_request env request = (\<lambda>s.
     case getPendingCall env request s of
       None \<Rightarrow> Ok ((), s)
     | Some c \<Rightarrow>
         andthen (real_of env (nb_comm c)) (\<lambda>realComm.
         andthen (real_of env (nb_datatype c)) (\<lambda>realType.
         case req_type c of
           IRECV_REQUEST \<Rightarrow>
             andthen (next_func env ''Irecv'' [VPtr (recvbuf c), VInt (nb_count c), VHandle realType,
                        VInt (remote_node c), VInt (nb_tag c), VHandle realComm]) (\<lambda>(rc, outs).
             update_virt env request (the_handle outs 0))
         | ISEND_REQUEST \<Rightarrow> fail Assert_failed
         | ISSEND_REQUEST \<Rightarrow> fail Assert_failed
         | UNKNOW_REQUEST \<Rightarrow> ret ())) s)"

definition replayMpiP2pOnRestart :: "'l env \<Rightarrow> ('l, unit) act" where
  "replayMpiP2pOnRestart env =
     andthen pendingRequestsInPostingOrder (\<lambda>reqs. andthen (each (replay_request env) reqs) (\<lambda>_. ret ()))"

end
