(* ===== verification/Datatypes.thy ===== *)
theory Datatypes
  imports Pending_Log
begin

text \<open>
  Derived datatypes (\<^verbatim>\<open>virtual_id.cpp\<close>): their descriptors hold references to the datatypes they were made
  from, so a datatype that another one still needs is remade at restart.  A datatype that the application
  freed stays while a pending point-to-point call uses it.
\<close>

definition alloc_datatype_desc :: "('l, mana_datatype_desc) act" where
  "alloc_datatype_desc =
     andthen (modify (\<lambda>s. s \<lparr> vtab := (vtab s) \<lparr> datatype_desc_pool := tl (datatype_desc_pool (vtab s)) \<rparr> \<rparr>)) (\<lambda>_.
     ret zero_datatype_desc)"

text \<open>The datatypes that \<^verbatim>\<open>for_each_oldtype\<close> visits.\<close>

definition oldtypes_of :: "mana_datatype_desc \<Rightarrow> mana_mpi_handle list" where
  "oldtypes_of d =
     (if constructor d = MANA_TYPE_STRUCT then map (\<lambda>i. oldtypes d ! i) [0..<nat (td_count d)] else [oldtype d])"

definition datatype_desc :: "'l env \<Rightarrow> mana_mpi_handle \<Rightarrow> 'l proc \<Rightarrow> mana_datatype_desc option" where
  "datatype_desc env type s =
     (case lookup env s type of
        None \<Rightarrow> None
      | Some e \<Rightarrow> (case desc e of TypeDesc d \<Rightarrow> Some d | _ \<Rightarrow> None))"

definition set_datatype_desc :: "'l env \<Rightarrow> mana_mpi_handle \<Rightarrow> (mana_datatype_desc \<Rightarrow> mana_datatype_desc) \<Rightarrow> ('l, unit) act" where
  "set_datatype_desc env type f = modify (\<lambda>s.
     case lookup_virt_id_entry (wide_handles env) (vtab s) type of
       None \<Rightarrow> s
     | Some i \<Rightarrow> with_entry i (\<lambda>e. case desc e of TypeDesc d \<Rightarrow> e \<lparr> desc := TypeDesc (f d) \<rparr> | _ \<Rightarrow> e) s)"

definition new_virt_datatype :: "'l env \<Rightarrow> mana_mpi_handle \<Rightarrow> mana_datatype_desc \<Rightarrow> ('l, mana_mpi_handle) act" where
  "new_virt_datatype env real_datatype d =
     andthen (each (\<lambda>old. set_datatype_desc env old (\<lambda>x. x \<lparr> refs := refs x + 1 \<rparr>)) (oldtypes_of d)) (\<lambda>_.
     add_virt real_datatype (TypeDesc (d \<lparr> refs := 1 \<rparr>)) MANA_DATATYPE_KIND)"

definition commit_virt_datatype :: "'l env \<Rightarrow> mana_mpi_handle \<Rightarrow> ('l, unit) act" where
  "commit_virt_datatype env type = set_datatype_desc env type (\<lambda>d. d \<lparr> committed := True \<rparr>)"

text \<open>\<^verbatim>\<open>release_datatype\<close> recurses into the datatypes that a freed one was made from.  The model takes a
  list of releases to do; a struct of zero datatypes releases its \<^verbatim>\<open>oldtype\<close> field, as the code does.\<close>

definition released_olds :: "mana_datatype_desc \<Rightarrow> mana_mpi_handle list" where
  "released_olds d =
     (let olds = (if constructor d = MANA_TYPE_STRUCT then map (\<lambda>i. oldtypes d ! i) [0..<nat (td_count d)] else [])
      in if olds = [] then [oldtype d] else olds)"

partial_function (option) release_all ::
  "'l env \<Rightarrow> mana_mpi_handle list \<Rightarrow> 'l proc \<Rightarrow> (unit \<times> 'l proc) result option"
where
  "release_all env types s =
     (case types of
        [] \<Rightarrow> Some (Ok ((), s))
      | type # rest \<Rightarrow>
          (case datatype_desc env type s of
             None \<Rightarrow> release_all env rest s
           | Some d \<Rightarrow>
               (case set_datatype_desc env type (\<lambda>d. d \<lparr> refs := refs d - 1 \<rparr>) s of
                  Inl e \<Rightarrow> Some (Inl e)
                | Inr (_, s1) \<Rightarrow>
                    if refs d - 1 > 0 then release_all env rest s1
                    else (case free_virt env type s1 of
                            Inl e \<Rightarrow> Some (Inl e)
                          | Inr (_, s2) \<Rightarrow> release_all env (released_olds d @ rest) s2))))"

definition release_datatype :: "'l env \<Rightarrow> mana_mpi_handle \<Rightarrow> ('l, unit) act" where
  "release_datatype env type = (\<lambda>s. case release_all env [type] s of None \<Rightarrow> Fault Spin | Some r \<Rightarrow> r)"

text \<open>The loop of \<^verbatim>\<open>release_freed_datatypes\<close>: \<open>keep\<close> are the elements before the index, \<open>rest\<close> the ones from it.\<close>

fun release_freed :: "'l env \<Rightarrow> mana_mpi_handle list \<Rightarrow> mana_mpi_handle list \<Rightarrow> ('l, unit) act" where
  "release_freed env keep [] = ret ()"
| "release_freed env keep (freed # rest) =
     andthen (pendingCallUsesDatatype freed) (\<lambda>uses.
       if uses then release_freed env (keep @ [freed]) rest
       else andthen (modify (\<lambda>s. s \<lparr> freed_types := keep @ rest \<rparr>)) (\<lambda>_.
            andthen (release_datatype env freed) (\<lambda>_.
            release_freed env keep rest)))"

definition release_freed_datatypes :: "'l env \<Rightarrow> ('l, unit) act" where
  "release_freed_datatypes env = (\<lambda>s. release_freed env [] (freed_types s) s)"

definition free_virt_datatype :: "'l env \<Rightarrow> mana_mpi_handle \<Rightarrow> ('l, unit) act" where
  "free_virt_datatype env type = (\<lambda>s.
     if datatype_desc env type s = None then Ok ((), s)
     else andthen (release_freed_datatypes env) (\<lambda>_.
          andthen (pendingCallUsesDatatype type) (\<lambda>uses.
            if uses then modify (\<lambda>s. s \<lparr> freed_types := freed_types s @ [type] \<rparr>)
            else release_datatype env type)) s)"

end
