(* ===== verification/Sample_Process.thy ===== *)
theory Sample_Process
  imports Virtual_Objects
begin

text \<open>
  A concrete process on which properties of the wrappers are applied: a table with given entries in its
  first slots, no predefined constants, and a library that succeeds, gives no outputs and counts its calls.
\<close>

definition sample_table :: "virt_id_entry list \<Rightarrow> vtable" where
  "sample_table es = empty_vtable
     \<lparr> virt_id_chunks := (\<lambda>c. if c = 0 then Some (\<lambda>i. if i < length es then es ! i else zero_entry) else None),
       virt_id_high_water := length es, virt_id_next_seq := length es, virt_id_live := length es \<rparr>"

definition sample_env :: "nat env" where
  "sample_env = \<lparr> wide_handles = True, lib = (\<lambda>f args n. ((0, []), n + 1)),
     upper_const = (\<lambda>n. of_nat (length n)), lower_const = (\<lambda>n. 0x100 + of_nat (length n)),
     int_const = (\<lambda>n. - int (length n)), in_place = 1, fortran_in_place = 2,
     world_rank = 0, world_size = 4, ckpt_fsaddr = False,
     coordinator = (\<lambda>r n. (K_none, n)), callback = (\<lambda>c (a, n). ((0, 0, 0), a, n + 1)) \<rparr>"

definition no_attributes :: attr_state where
  "no_attributes = \<lparr> keyval_vec = [], tuple_map = [], self_keyvals = [], tag_ub = 0, appnum = (0, 0), universe_size = (0, 0),
     lastusedcode = (0, 0) \<rparr>"

definition sample_cc :: cc where
  "sample_cc = \<lparr> ckpt_pending = False, current_phase = IS_READY, clocks = [(7, \<lparr> ck_seq = 3, ck_target = 0 \<rparr>)],
     raised_clocks = [], added_clock = False, targets_version = 0, pending_frees = [] \<rparr>"

definition sample_desc :: "int64 \<Rightarrow> mana_comm_desc" where
  "sample_desc g = \<lparr> cd_size = 4, cd_rank = 0, cd_global_ranks = [0, 1, 2, 3], cart_ndims = -1, cart_dims = [],
     cart_periods = [], gid = g, clock = g \<rparr>"

definition sample_comm :: virt_id_entry where
  "sample_comm = zero_entry \<lparr> real_id := 0x44000000, desc := CommDesc (sample_desc 7), seq := 1, virt := 0x10000000 \<rparr>"

definition sample_process :: "virt_id_entry list \<Rightarrow> nat proc" where
  "sample_process es = \<lparr> ctab = no_constants, vtab = sample_table es, ccs = sample_cc, low = 0, gids_made = 0,
     world_comm = 0x10000000, self_desc = sample_desc 8, mana_state = RUNNING, depth = 0, freed_types = [],
     pending_head = None, pending_tail = None, pending_issends = 0, local_sent = 0, local_recv = 0,
     message_queue = [],
     g_pending_recv = \<lparr> pr_state = PENDING_RECV_IDLE, pr_source = 0, pr_tag = 0, pr_comm = 0, pr_count = 0,
       pr_datatype = 0 \<rparr>,
     p2p_dummy_phase = False, p2p_wait = P2P_WAIT_BLOCKING, active_comms = [], ssend_ack_comm = 0,
     ssend_notices = [], next_ack_tag = 0, owed_acks = [], dummy_sends = [], attributes = no_attributes \<rparr>"

lemma sample_table_sel [simp]:
  "slot_entry (sample_table es) 0 = (if es = [] then zero_entry else es ! 0)"
  "virt_id_high_water (sample_table es) = length es"
  by (simp_all add: slot_entry_def sample_table_def chunk_of_def)

lemma sample_env_sel [simp]:
  "wide_handles sample_env = True" "lib sample_env f args n = ((0, []), n + 1)"
  "upper_const sample_env c = of_nat (length c)" "lower_const sample_env c = 0x100 + of_nat (length c)"
  "int_const sample_env c = - int (length c)" "world_rank sample_env = 0" "world_size sample_env = 4"
  by (simp_all add: sample_env_def)

lemma sample_process_sel [simp]:
  "ctab (sample_process es) = no_constants" "vtab (sample_process es) = sample_table es"
  "ccs (sample_process es) = sample_cc" "low (sample_process es) = 0" "depth (sample_process es) = 0"
  "world_comm (sample_process es) = 0x10000000" "self_desc (sample_process es) = sample_desc 8"
  "pending_head (sample_process es) = None" "pending_tail (sample_process es) = None"
  by (simp_all add: sample_process_def)

lemma sample_cc_sel [simp]: "pending_frees sample_cc = []" "\<not> must_wait sample_cc"
  "\<not> must_wait (commit_finish_phase (begin_critical_section d sample_cc))"
  by (auto simp: sample_cc_def must_wait_def commit_finish_phase_def begin_critical_section_def Let_def
      split: option.split)

lemma sample_comm_lookup [simp]: "lookup_virt_id_entry True (sample_table (sample_comm # es)) 0x10000000 = Some 0"
  by (simp add: lookup_virt_id_entry_def sample_table_def chunk_of_def sample_comm_def)

lemma sample_comm_real [simp]:
  "get_real_id True no_constants (sample_table (sample_comm # es)) 0x10000000 = Ok 0x44000000"
  by (simp add: get_real_id_def sample_comm_def [THEN arg_cong, of real_id])

end
