(* ===== verification/Request_Wrappers.thy ===== *)
theory Request_Wrappers
  imports Datatypes Sample_Process
begin

text \<open>
  The wrappers of request completion (\<^verbatim>\<open>mpi_request_wrappers.cpp\<close>).  A status is an option: \<open>None\<close> stands for a status
  that the call does not write.  An output flag keeps its value if the library does not write it.  The array of requests
  is returned with the completed ones set to null.
\<close>

section \<open>One request\<close>

definition out_status :: "lval list \<Rightarrow> nat \<Rightarrow> mpi_status option" where
  "out_status outs k = (if k < length outs then Some (the_status outs k) else None)"

definition count_received_message :: "('l, unit) act" where
  "count_received_message = modify (\<lambda>s. s \<lparr> local_recv := local_recv s + 1 \<rparr>)"

definition is_counted_irecv :: "'l env \<Rightarrow> mana_mpi_handle \<Rightarrow> 'l proc \<Rightarrow> bool" where
  "is_counted_irecv env request s =
     (case getPendingCall env request s of
        None \<Rightarrow> False
      | Some c \<Rightarrow> req_type c = IRECV_REQUEST \<and> remote_node c \<noteq> int_const env ''PROC_NULL'')"

definition MPI_Test_internal ::
  "'l env \<Rightarrow> mana_mpi_handle \<Rightarrow> int \<Rightarrow> bool \<Rightarrow> ('l, int \<times> int \<times> mpi_status option) act"
where
  "MPI_Test_internal env request flag isRealRequest =
     andthen (if isRealRequest then ret request else real_of env request) (\<lambda>real_request.
     andthen (gets (\<lambda>s. if \<not> isRealRequest \<and> real_request = lower_const env ''REQUEST_NULL''
                        then completed_request_status env s request else None)) (\<lambda>kept.
     case kept of
       Some st \<Rightarrow> ret (MPI_SUCCESS, 1, Some st)
     | None \<Rightarrow> andthen (next_func env ''Test'' [VHandle real_request]) (\<lambda>(retval, outs).
               ret (retval, out_int flag outs 0, out_status outs 1))))"

definition finish_request :: "'l env \<Rightarrow> mana_mpi_handle \<Rightarrow> ('l, unit) act" where
  "finish_request env request =
     andthen (clearPendingRequestFromLog env request) (\<lambda>_.
     andthen (release_freed_datatypes env) (\<lambda>_.
     free_virt env request))"

definition count_if_irecv :: "'l env \<Rightarrow> int \<Rightarrow> mana_mpi_handle \<Rightarrow> ('l, unit) act" where
  "count_if_irecv env flag request =
     andthen (gets (is_counted_irecv env request)) (\<lambda>counted.
     when_act (flag \<noteq> 0 \<and> request \<noteq> MPI_REQUEST_NULL env \<and> counted) count_received_message)"

type_synonym test_result = "int \<times> int \<times> mpi_status option \<times> mana_mpi_handle"

definition PMPI_Test :: "'l env \<Rightarrow> mana_mpi_handle \<Rightarrow> int \<Rightarrow> ('l, test_result) act" where
  "PMPI_Test env request flag =
     (if request = MPI_REQUEST_NULL env then ret (MPI_SUCCESS, 1, None, request)
      else
        andthen LOWER_HALF_DISABLE_CKPT (\<lambda>_.
        andthen (real_of env request) (\<lambda>real_request.
        if real_request = lower_const env ''REQUEST_NULL''
        then andthen (gets (\<lambda>s. completed_request_status env s request)) (\<lambda>st.
             andthen (finish_request env request) (\<lambda>_.
             andthen LOWER_HALF_ENABLE_CKPT (\<lambda>_.
             ret (MPI_SUCCESS, 1, st, MPI_REQUEST_NULL env))))
        else andthen (MPI_Test_internal env real_request flag True) (\<lambda>(retval, flag, st).
             andthen (count_if_irecv env flag request) (\<lambda>_.
             andthen (if retval = MPI_SUCCESS \<and> flag \<noteq> 0
                      then andthen (finish_request env request) (\<lambda>_. ret (MPI_REQUEST_NULL env))
                      else ret request) (\<lambda>request.
             andthen LOWER_HALF_ENABLE_CKPT (\<lambda>_.
             ret (retval, flag, st, request))))))))"

text \<open>One pass of the loop of \<^verbatim>\<open>MPI_Wait\<close>, and the loop; \<open>None\<close> if it never ends.\<close>

definition wait_pass :: "'l env \<Rightarrow> mana_mpi_handle \<Rightarrow> ('l, int \<times> int \<times> mpi_status option) act" where
  "wait_pass env request =
     andthen LOWER_HALF_DISABLE_CKPT (\<lambda>_.
     andthen (MPI_Test_internal env request 0 False) (\<lambda>(retval, flag, st).
     andthen (count_if_irecv env flag request) (\<lambda>_.
     andthen (when_act (flag \<noteq> 0) (finish_request env request)) (\<lambda>_.
     andthen LOWER_HALF_ENABLE_CKPT (\<lambda>_.
     ret (retval, flag, st))))))"

partial_function (option) wait_loop ::
  "'l env \<Rightarrow> mana_mpi_handle \<Rightarrow> 'l proc \<Rightarrow> ((int \<times> mpi_status option) \<times> 'l proc) result option"
where
  "wait_loop env request s =
     (case wait_pass env request s of
        Inl e \<Rightarrow> Some (Inl e)
      | Inr ((retval, flag, st), t) \<Rightarrow>
          if flag \<noteq> 0 then Some (Ok ((retval, st), t)) else wait_loop env request t)"

definition PMPI_Wait :: "'l env \<Rightarrow> mana_mpi_handle \<Rightarrow> ('l, int \<times> mpi_status option \<times> mana_mpi_handle) act" where
  "PMPI_Wait env request =
     (if request = MPI_REQUEST_NULL env then ret (MPI_SUCCESS, None, request)
      else andthen (\<lambda>s. case wait_loop env request s of None \<Rightarrow> Fault Spin | Some r \<Rightarrow> r) (\<lambda>(retval, st).
           ret (retval, st, MPI_REQUEST_NULL env)))"

definition PMPI_Request_get_status :: "'l env \<Rightarrow> mana_mpi_handle \<Rightarrow> int \<Rightarrow> ('l, int \<times> int \<times> mpi_status option) act" where
  "PMPI_Request_get_status env request flag =
     andthen LOWER_HALF_DISABLE_CKPT (\<lambda>_.
     andthen (real_of env request) (\<lambda>real_request.
     andthen (gets (\<lambda>s. if real_request = lower_const env ''REQUEST_NULL''
                        then completed_request_status env s request else None)) (\<lambda>kept.
     case kept of
       Some st \<Rightarrow> andthen LOWER_HALF_ENABLE_CKPT (\<lambda>_. ret (MPI_SUCCESS, 1, Some st))
     | None \<Rightarrow>
         andthen (next_func env ''Request_get_status'' [VHandle real_request]) (\<lambda>(retval, outs).
         andthen LOWER_HALF_ENABLE_CKPT (\<lambda>_.
         ret (retval, out_int flag outs 0, out_status outs 1))))))"

text \<open>The datatype is passed to the library as the application gave it.\<close>

definition PMPI_Get_elements :: "'l env \<Rightarrow> mpi_status \<Rightarrow> mana_mpi_handle \<Rightarrow> ('l, int \<times> lval list) act" where
  "PMPI_Get_elements env st datatype =
     andthen LOWER_HALF_DISABLE_CKPT (\<lambda>_.
     andthen (next_func env ''Get_elements'' [VStatus st, VHandle datatype]) (\<lambda>(retval, outs).
     andthen LOWER_HALF_ENABLE_CKPT (\<lambda>_.
     ret (retval, outs))))"

definition PMPI_Get_elements_x :: "'l env \<Rightarrow> mpi_status \<Rightarrow> mana_mpi_handle \<Rightarrow> ('l, int \<times> lval list) act" where
  "PMPI_Get_elements_x env st datatype =
     andthen LOWER_HALF_DISABLE_CKPT (\<lambda>_.
     andthen (next_func env ''Get_elements_x'' [VStatus st, VHandle datatype]) (\<lambda>(retval, outs).
     andthen LOWER_HALF_ENABLE_CKPT (\<lambda>_.
     ret (retval, outs))))"

section \<open>Arrays of requests\<close>

text \<open>The loop of \<^verbatim>\<open>MPI_Testall\<close>: the return code, the last flag, whether a request is incomplete, the statuses and the
  requests.\<close>

fun testall_loop ::
  "'l env \<Rightarrow> mana_mpi_handle list \<Rightarrow> int \<Rightarrow> bool \<Rightarrow> ('l, int \<times> int \<times> bool \<times> mpi_status option list \<times> mana_mpi_handle list) act"
where
  "testall_loop env [] flag incomplete = ret (MPI_SUCCESS, flag, incomplete, [], [])"
| "testall_loop env (r # rs) flag incomplete =
     andthen (PMPI_Test env r flag) (\<lambda>(retval, flag, st, r).
       if retval \<noteq> MPI_SUCCESS then ret (retval, 0, incomplete, [st], r # rs)
       else andthen (testall_loop env rs flag (incomplete \<or> flag = 0)) (\<lambda>(retval, flag, incomplete, sts, rs).
            ret (retval, flag, incomplete, st # sts, r # rs)))"

definition PMPI_Testall ::
  "'l env \<Rightarrow> mana_mpi_handle list \<Rightarrow> int \<Rightarrow> ('l, int \<times> int \<times> mpi_status option list \<times> mana_mpi_handle list) act"
where
  "PMPI_Testall env rs flag =
     andthen (testall_loop env rs flag False) (\<lambda>(retval, flag, incomplete, sts, rs).
     ret (retval, if incomplete then 0 else flag, sts, rs))"

text \<open>The loop of \<^verbatim>\<open>MPI_Testany\<close> from index \<open>i\<close>: the return code, the index, the flag, the status and the requests.\<close>

fun testany_loop ::
  "'l env \<Rightarrow> nat \<Rightarrow> mana_mpi_handle list \<Rightarrow> int \<Rightarrow> ('l, int \<times> nat option \<times> int \<times> mpi_status option \<times> mana_mpi_handle list) act"
where
  "testany_loop env i [] flag = ret (MPI_SUCCESS, None, flag, None, [])"
| "testany_loop env i (r # rs) flag =
     (if r = MPI_REQUEST_NULL env
      then andthen (testany_loop env (i + 1) rs flag) (\<lambda>(retval, ix, flag, st, rs). ret (retval, ix, flag, st, r # rs))
      else andthen (PMPI_Test env r flag) (\<lambda>(retval, flag, st, r).
             if retval \<noteq> MPI_SUCCESS then ret (retval, None, flag, st, r # rs)
             else if flag \<noteq> 0 then ret (retval, Some i, flag, st, r # rs)
             else andthen (testany_loop env (i + 1) rs flag) (\<lambda>(retval, ix, flag, st, rs). ret (retval, ix, flag, st, r # rs))))"

definition PMPI_Testany ::
  "'l env \<Rightarrow> mana_mpi_handle list \<Rightarrow> ('l, int \<times> int \<times> int \<times> mpi_status option \<times> mana_mpi_handle list) act"
where
  "PMPI_Testany env rs =
     andthen (testany_loop env 0 rs 1) (\<lambda>(retval, ix, flag, st, rs).
     ret (retval, case ix of Some i \<Rightarrow> int i | None \<Rightarrow> int_const env ''UNDEFINED'', flag, st, rs))"

fun PMPI_Waitall ::
  "'l env \<Rightarrow> mana_mpi_handle list \<Rightarrow> ('l, int \<times> mpi_status option list \<times> mana_mpi_handle list) act"
where
  "PMPI_Waitall env [] = ret (MPI_SUCCESS, [], [])"
| "PMPI_Waitall env (r # rs) =
     andthen (PMPI_Wait env r) (\<lambda>(retval, st, r).
       if retval \<noteq> MPI_SUCCESS then ret (retval, [st], r # rs)
       else andthen (PMPI_Waitall env rs) (\<lambda>(retval, sts, rs). ret (retval, st # sts, r # rs)))"

text \<open>A pass of the loop of \<^verbatim>\<open>MPI_Waitany\<close> over the requests from index \<open>i\<close>, with \<open>was_null\<close> for each: the index and the
  return code if the call returns, whether all were null, the status and the requests.\<close>

type_synonym any_pass = "(nat option \<times> int) option \<times> bool \<times> mpi_status option \<times> mana_mpi_handle list"

definition cons_request :: "mana_mpi_handle \<Rightarrow> any_pass \<Rightarrow> any_pass" where
  "cons_request r p = (case p of (done, null, st, rs) \<Rightarrow> (done, null, st, r # rs))"

fun waitany_pass :: "'l env \<Rightarrow> nat \<Rightarrow> (mana_mpi_handle \<times> bool) list \<Rightarrow> int \<Rightarrow> bool \<Rightarrow> ('l, any_pass) act" where
  "waitany_pass env i [] flag all_null = ret (None, all_null, None, [])"
| "waitany_pass env i ((r, was_null) # rs) flag all_null =
     (if r = MPI_REQUEST_NULL env
      then if was_null
           then andthen (waitany_pass env (i + 1) rs flag all_null) (\<lambda>p. ret (cons_request r p))
           else ret (Some (Some i, MPI_SUCCESS), all_null, None, r # map fst rs)
      else
        andthen LOWER_HALF_DISABLE_CKPT (\<lambda>_.
        andthen (MPI_Test_internal env r flag False) (\<lambda>(retval, flag, st).
        if retval \<noteq> MPI_SUCCESS
        then andthen LOWER_HALF_ENABLE_CKPT (\<lambda>_. ret (Some (None, retval), False, st, r # map fst rs))
        else if flag \<noteq> 0
        then andthen (count_if_irecv env flag r) (\<lambda>_.
             andthen (finish_request env r) (\<lambda>_.
             andthen LOWER_HALF_ENABLE_CKPT (\<lambda>_.
             ret (Some (Some i, retval), False, st, MPI_REQUEST_NULL env # map fst rs))))
        else andthen LOWER_HALF_ENABLE_CKPT (\<lambda>_.
             andthen (waitany_pass env (i + 1) rs flag False) (\<lambda>p. ret (cons_request r p))))))"

partial_function (option) waitany_loop ::
  "'l env \<Rightarrow> (mana_mpi_handle \<times> bool) list \<Rightarrow> 'l proc \<Rightarrow>
   ((int \<times> int \<times> mpi_status option \<times> mana_mpi_handle list) \<times> 'l proc) result option"
where
  "waitany_loop env rs s =
     (case waitany_pass env 0 rs 0 True s of
        Inl e \<Rightarrow> Some (Inl e)
      | Inr ((done, all_null, st, rs'), t) \<Rightarrow>
          (case done of
             Some (ix, retval) \<Rightarrow>
               Some (Ok ((retval, case ix of Some i \<Rightarrow> int i | None \<Rightarrow> int_const env ''UNDEFINED'', st, rs'), t))
           | None \<Rightarrow>
               if all_null then Some (Ok ((MPI_SUCCESS, int_const env ''UNDEFINED'', st, rs'), t))
               else waitany_loop env rs t))"

definition PMPI_Waitany ::
  "'l env \<Rightarrow> mana_mpi_handle list \<Rightarrow> ('l, int \<times> int \<times> mpi_status option \<times> mana_mpi_handle list) act"
where
  "PMPI_Waitany env rs = (\<lambda>s.
     case waitany_loop env (map (\<lambda>r. (r, r = MPI_REQUEST_NULL env)) rs) s of None \<Rightarrow> Fault Spin | Some r \<Rightarrow> r)"

end
