(* ===== verification/Type_Wrappers.thy ===== *)
theory Type_Wrappers
  imports Datatypes Sample_Process
begin

text \<open>
  The wrappers of derived datatypes (\<^verbatim>\<open>mpi_type_wrappers.cpp\<close>).  A constructor makes the datatype in the lower
  half and records its arguments in a descriptor, from which the datatype is made again at restart
  (\<^verbatim>\<open>reconstruct_datatype_desc\<close> in \<^verbatim>\<open>virtual_id.cpp\<close>).  The property is that the recorded call is the call that
  was made.  A query returns the return code and the outputs of the library.  The
  value of an array argument is the \<open>count\<close> elements that the library reads.
\<close>

section \<open>Constructors\<close>

definition recorded_type ::
  "'l env \<Rightarrow> int \<Rightarrow> lval list \<Rightarrow> (mana_datatype_desc \<Rightarrow> mana_datatype_desc) \<Rightarrow> ('l, mana_mpi_handle) act"
where
  "recorded_type env retval outs fill =
     (let newtype = the_handle outs 0
      in if retval = MPI_SUCCESS
         then andthen alloc_datatype_desc (\<lambda>desc. new_virt_datatype env newtype (fill desc))
         else ret newtype)"

definition PMPI_Type_contiguous ::
  "'l env \<Rightarrow> int \<Rightarrow> mana_mpi_handle \<Rightarrow> ('l, int \<times> mana_mpi_handle) act"
where
  "PMPI_Type_contiguous env count oldtype' =
     andthen LOWER_HALF_DISABLE_CKPT (\<lambda>_.
     andthen (real_of env oldtype') (\<lambda>real_datatype.
     andthen (next_func env ''Type_contiguous'' [VInt count, VHandle real_datatype]) (\<lambda>(retval, outs).
     andthen (recorded_type env retval outs (\<lambda>desc. desc \<lparr> constructor := MANA_TYPE_CONTIGUOUS, td_count := count, oldtype := oldtype' \<rparr>)) (\<lambda>newtype.
     andthen LOWER_HALF_ENABLE_CKPT (\<lambda>_.
     ret (retval, newtype))))))"

definition PMPI_Type_create_hvector ::
  "'l env \<Rightarrow> int \<Rightarrow> int \<Rightarrow> int \<Rightarrow> mana_mpi_handle \<Rightarrow> ('l, int \<times> mana_mpi_handle) act"
where
  "PMPI_Type_create_hvector env count blocklength' stride' oldtype' =
     andthen LOWER_HALF_DISABLE_CKPT (\<lambda>_.
     andthen (real_of env oldtype') (\<lambda>real_datatype.
     andthen (next_func env ''Type_create_hvector'' [VInt count, VInt blocklength', VInt stride', VHandle real_datatype]) (\<lambda>(retval, outs).
     andthen (recorded_type env retval outs (\<lambda>desc. desc \<lparr> constructor := MANA_TYPE_HVECTOR, td_count := count, blocklength := blocklength', hstride := stride', oldtype := oldtype' \<rparr>)) (\<lambda>newtype.
     andthen LOWER_HALF_ENABLE_CKPT (\<lambda>_.
     ret (retval, newtype))))))"

definition PMPI_Type_vector ::
  "'l env \<Rightarrow> int \<Rightarrow> int \<Rightarrow> int \<Rightarrow> mana_mpi_handle \<Rightarrow> ('l, int \<times> mana_mpi_handle) act"
where
  "PMPI_Type_vector env count blocklength' stride' oldtype' =
     andthen LOWER_HALF_DISABLE_CKPT (\<lambda>_.
     andthen (real_of env oldtype') (\<lambda>real_datatype.
     andthen (next_func env ''Type_vector'' [VInt count, VInt blocklength', VInt stride', VHandle real_datatype]) (\<lambda>(retval, outs).
     andthen (recorded_type env retval outs (\<lambda>desc. desc \<lparr> constructor := MANA_TYPE_VECTOR, td_count := count, blocklength := blocklength', stride := stride', oldtype := oldtype' \<rparr>)) (\<lambda>newtype.
     andthen LOWER_HALF_ENABLE_CKPT (\<lambda>_.
     ret (retval, newtype))))))"

definition PMPI_Type_create_struct ::
  "'l env \<Rightarrow> int \<Rightarrow> int list \<Rightarrow> int list \<Rightarrow> mana_mpi_handle list \<Rightarrow> ('l, int \<times> mana_mpi_handle) act"
where
  "PMPI_Type_create_struct env count array_of_blocklengths array_of_displacements array_of_types =
     andthen LOWER_HALF_DISABLE_CKPT (\<lambda>_.
     andthen (each (real_of env) (take (nat count) array_of_types)) (\<lambda>real_datatypes.
     andthen (next_func env ''Type_create_struct'' [VInt count, VInts (take (nat count) array_of_blocklengths), VInts (take (nat count) array_of_displacements), VHandles real_datatypes]) (\<lambda>(retval, outs).
     andthen (recorded_type env retval outs (\<lambda>desc. desc \<lparr> constructor := MANA_TYPE_STRUCT, td_count := count,
         blocklengths := take (nat count) array_of_blocklengths, hdisplacements := take (nat count) array_of_displacements,
         oldtypes := take (nat count) array_of_types \<rparr>)) (\<lambda>newtype.
     andthen LOWER_HALF_ENABLE_CKPT (\<lambda>_.
     ret (retval, newtype))))))"

definition PMPI_Type_struct ::
  "'l env \<Rightarrow> int \<Rightarrow> int list \<Rightarrow> int list \<Rightarrow> mana_mpi_handle list \<Rightarrow> ('l, int \<times> mana_mpi_handle) act"
where
  "PMPI_Type_struct env count array_of_blocklengths array_of_displacements array_of_types =
     PMPI_Type_create_struct env count array_of_blocklengths array_of_displacements array_of_types"

definition PMPI_Type_create_hindexed ::
  "'l env \<Rightarrow> int \<Rightarrow> int list \<Rightarrow> int list \<Rightarrow> mana_mpi_handle \<Rightarrow> ('l, int \<times> mana_mpi_handle) act"
where
  "PMPI_Type_create_hindexed env count array_of_blocklengths array_of_displacements oldtype' =
     andthen LOWER_HALF_DISABLE_CKPT (\<lambda>_.
     andthen (real_of env oldtype') (\<lambda>real_datatype.
     andthen (next_func env ''Type_create_hindexed'' [VInt count, VInts (take (nat count) array_of_blocklengths), VInts (take (nat count) array_of_displacements), VHandle real_datatype]) (\<lambda>(retval, outs).
     andthen (recorded_type env retval outs (\<lambda>desc. desc \<lparr> constructor := MANA_TYPE_HINDEXED, td_count := count,
         blocklengths := take (nat count) array_of_blocklengths, hdisplacements := take (nat count) array_of_displacements,
         oldtype := oldtype' \<rparr>)) (\<lambda>newtype.
     andthen LOWER_HALF_ENABLE_CKPT (\<lambda>_.
     ret (retval, newtype))))))"

definition PMPI_Type_create_hindexed_block ::
  "'l env \<Rightarrow> int \<Rightarrow> int \<Rightarrow> int list \<Rightarrow> mana_mpi_handle \<Rightarrow> ('l, int \<times> mana_mpi_handle) act"
where
  "PMPI_Type_create_hindexed_block env count blocklength' array_of_displacements oldtype' =
     PMPI_Type_create_hindexed env count (replicate (nat count) blocklength') array_of_displacements oldtype'"

definition PMPI_Type_hindexed_block ::
  "'l env \<Rightarrow> int \<Rightarrow> int \<Rightarrow> int list \<Rightarrow> mana_mpi_handle \<Rightarrow> ('l, int \<times> mana_mpi_handle) act"
where
  "PMPI_Type_hindexed_block env count blocklength' array_of_displacements oldtype' =
     PMPI_Type_create_hindexed_block env count blocklength' array_of_displacements oldtype'"

definition PMPI_Type_indexed ::
  "'l env \<Rightarrow> int \<Rightarrow> int list \<Rightarrow> int list \<Rightarrow> mana_mpi_handle \<Rightarrow> ('l, int \<times> mana_mpi_handle) act"
where
  "PMPI_Type_indexed env count array_of_blocklengths array_of_displacements oldtype' =
     andthen LOWER_HALF_DISABLE_CKPT (\<lambda>_.
     andthen (real_of env oldtype') (\<lambda>real_datatype.
     andthen (next_func env ''Type_indexed'' [VInt count, VInts (take (nat count) array_of_blocklengths), VInts (take (nat count) array_of_displacements), VHandle real_datatype]) (\<lambda>(retval, outs).
     andthen (recorded_type env retval outs (\<lambda>desc. desc \<lparr> constructor := MANA_TYPE_INDEXED, td_count := count,
         blocklengths := take (nat count) array_of_blocklengths, displacements := take (nat count) array_of_displacements,
         oldtype := oldtype' \<rparr>)) (\<lambda>newtype.
     andthen LOWER_HALF_ENABLE_CKPT (\<lambda>_.
     ret (retval, newtype))))))"

definition PMPI_Type_dup ::
  "'l env \<Rightarrow> mana_mpi_handle \<Rightarrow> ('l, int \<times> mana_mpi_handle) act"
where
  "PMPI_Type_dup env oldtype' =
     andthen LOWER_HALF_DISABLE_CKPT (\<lambda>_.
     andthen (real_of env oldtype') (\<lambda>real_datatype.
     andthen (next_func env ''Type_dup'' [VHandle real_datatype]) (\<lambda>(retval, outs).
     andthen (recorded_type env retval outs (\<lambda>desc. desc \<lparr> constructor := MANA_TYPE_DUP, oldtype := oldtype' \<rparr>)) (\<lambda>newtype.
     andthen LOWER_HALF_ENABLE_CKPT (\<lambda>_.
     ret (retval, newtype))))))"

definition PMPI_Type_create_resized ::
  "'l env \<Rightarrow> mana_mpi_handle \<Rightarrow> int \<Rightarrow> int \<Rightarrow> ('l, int \<times> mana_mpi_handle) act"
where
  "PMPI_Type_create_resized env oldtype' lb extent =
     andthen LOWER_HALF_DISABLE_CKPT (\<lambda>_.
     andthen (real_of env oldtype') (\<lambda>real_datatype.
     andthen (next_func env ''Type_create_resized'' [VHandle real_datatype, VInt lb, VInt extent]) (\<lambda>(retval, outs).
     andthen (recorded_type env retval outs (\<lambda>desc. desc \<lparr> constructor := MANA_TYPE_RESIZED, td_lb := lb, td_extent := extent, oldtype := oldtype' \<rparr>)) (\<lambda>newtype.
     andthen LOWER_HALF_ENABLE_CKPT (\<lambda>_.
     ret (retval, newtype))))))"

section \<open>Commit and free\<close>

definition PMPI_Type_free :: "'l env \<Rightarrow> mana_mpi_handle \<Rightarrow> ('l, int \<times> mana_mpi_handle) act" where
  "PMPI_Type_free env type =
     andthen LOWER_HALF_DISABLE_CKPT (\<lambda>_.
     andthen (real_of env type) (\<lambda>real_datatype.
     andthen (next_func env ''Type_free'' [VHandle real_datatype]) (\<lambda>(retval, outs).
     andthen (if retval = MPI_SUCCESS
              then andthen (free_virt_datatype env type) (\<lambda>_. ret (upper_const env ''DATATYPE_NULL''))
              else ret type) (\<lambda>type.
     andthen LOWER_HALF_ENABLE_CKPT (\<lambda>_.
     ret (retval, type))))))"

definition PMPI_Type_commit :: "'l env \<Rightarrow> mana_mpi_handle \<Rightarrow> ('l, int) act" where
  "PMPI_Type_commit env type =
     andthen LOWER_HALF_DISABLE_CKPT (\<lambda>_.
     andthen (real_of env type) (\<lambda>real_datatype.
     andthen (next_func env ''Type_commit'' [VHandle real_datatype]) (\<lambda>(retval, outs).
     andthen (when_act (retval = MPI_SUCCESS) (commit_virt_datatype env type)) (\<lambda>_.
     andthen LOWER_HALF_ENABLE_CKPT (\<lambda>_.
     ret retval)))))"

section \<open>Queries\<close>

definition PMPI_Type_size :: "'l env \<Rightarrow> mana_mpi_handle \<Rightarrow> ('l, int \<times> lval list) act" where
  "PMPI_Type_size env datatype =
     andthen LOWER_HALF_DISABLE_CKPT (\<lambda>_.
     andthen (real_of env datatype) (\<lambda>real_datatype.
     andthen (next_func env ''Type_size'' [VHandle real_datatype]) (\<lambda>(retval, outs).
     andthen LOWER_HALF_ENABLE_CKPT (\<lambda>_.
     ret (retval, outs)))))"

definition PMPI_Type_get_extent :: "'l env \<Rightarrow> mana_mpi_handle \<Rightarrow> ('l, int \<times> lval list) act" where
  "PMPI_Type_get_extent env datatype =
     andthen LOWER_HALF_DISABLE_CKPT (\<lambda>_.
     andthen (real_of env datatype) (\<lambda>real_datatype.
     andthen (next_func env ''Type_get_extent'' [VHandle real_datatype]) (\<lambda>(retval, outs).
     andthen LOWER_HALF_ENABLE_CKPT (\<lambda>_.
     ret (retval, outs)))))"

definition PMPI_Pack_size :: "'l env \<Rightarrow> int \<Rightarrow> mana_mpi_handle \<Rightarrow> mana_mpi_handle \<Rightarrow> ('l, int \<times> lval list) act" where
  "PMPI_Pack_size env incount datatype comm =
     andthen LOWER_HALF_DISABLE_CKPT (\<lambda>_.
     andthen (real_of env datatype) (\<lambda>real_datatype.
     andthen (real_of env comm) (\<lambda>real_comm.
     andthen (next_func env ''Pack_size'' [VInt incount, VHandle real_datatype, VHandle real_comm]) (\<lambda>(retval, outs).
     andthen LOWER_HALF_ENABLE_CKPT (\<lambda>_.
     ret (retval, outs))))))"

definition PMPI_Pack :: "'l env \<Rightarrow> int64 \<Rightarrow> int \<Rightarrow> mana_mpi_handle \<Rightarrow> int64 \<Rightarrow> int \<Rightarrow> int \<Rightarrow> mana_mpi_handle \<Rightarrow> ('l, int \<times> lval list) act" where
  "PMPI_Pack env inbuf incount datatype outbuf outsize position comm =
     andthen LOWER_HALF_DISABLE_CKPT (\<lambda>_.
     andthen (real_of env datatype) (\<lambda>real_datatype.
     andthen (real_of env comm) (\<lambda>real_comm.
     andthen (next_func env ''Pack'' [VPtr inbuf, VInt incount, VHandle real_datatype, VPtr outbuf, VInt outsize, VInt position, VHandle real_comm]) (\<lambda>(retval, outs).
     andthen LOWER_HALF_ENABLE_CKPT (\<lambda>_.
     ret (retval, outs))))))"

definition PMPI_Type_get_name :: "'l env \<Rightarrow> mana_mpi_handle \<Rightarrow> ('l, int \<times> lval list) act" where
  "PMPI_Type_get_name env datatype =
     andthen LOWER_HALF_DISABLE_CKPT (\<lambda>_.
     andthen (real_of env datatype) (\<lambda>real_datatype.
     andthen (next_func env ''Type_get_name'' [VHandle real_datatype]) (\<lambda>(retval, outs).
     andthen LOWER_HALF_ENABLE_CKPT (\<lambda>_.
     ret (retval, outs)))))"

definition PMPI_Type_size_x :: "'l env \<Rightarrow> mana_mpi_handle \<Rightarrow> ('l, int \<times> lval list) act" where
  "PMPI_Type_size_x env datatype =
     andthen LOWER_HALF_DISABLE_CKPT (\<lambda>_.
     andthen (real_of env datatype) (\<lambda>real_datatype.
     andthen (next_func env ''Type_size_x'' [VHandle real_datatype]) (\<lambda>(retval, outs).
     andthen LOWER_HALF_ENABLE_CKPT (\<lambda>_.
     ret (retval, outs)))))"

end
