(* ===== verification/P2p_Wrappers.thy ===== *)
theory P2p_Wrappers
  imports Request_Wrappers Type_Wrappers "HOL-Library.Signed_Division"
begin

text \<open>
  Point-to-point messages: the buffer of drained messages (\<^verbatim>\<open>p2p_drain.cpp\<close>) and the wrappers of
  \<^verbatim>\<open>mpi_p2p_wrappers.cpp\<close> and of the probes.  A wait for the end of the drain is the fault \<open>Spin\<close>, because the thread
  itself cannot end it.  The notes that a thread is in a blocking call are part of the gate (theory \<^verbatim>\<open>Lower_Half_Gate\<close>)
  and have no effect here.  The contents of buffers are the library's: a buffer is its address.
\<close>

section \<open>The buffer of drained messages\<close>

definition msg_matches :: "'l env \<Rightarrow> int \<Rightarrow> int \<Rightarrow> mana_mpi_handle \<Rightarrow> mpi_message \<Rightarrow> bool" where
  "msg_matches env source tag comm m \<longleftrightarrow>
     (st_source (m_status m) = source \<or> source = int_const env ''ANY_SOURCE'') \<and>
     (st_tag (m_status m) = tag \<or> tag = int_const env ''ANY_TAG'') \<and> m_comm m = comm"

text \<open>The status of the first matching message, if there is one.\<close>

definition existsMatchingMsgBuffer :: "'l env \<Rightarrow> int \<Rightarrow> int \<Rightarrow> mana_mpi_handle \<Rightarrow> 'l proc \<Rightarrow> mpi_status option" where
  "existsMatchingMsgBuffer env source tag comm s =
     (if message_queue s = [] then None
      else map_option m_status (find (msg_matches env source tag comm) (message_queue s)))"

text \<open>32-bit integers of C: a product wraps, and division truncates.\<close>

definition int_mult :: "int \<Rightarrow> int \<Rightarrow> int" where
  "int_mult a b = sint (word_of_int (a * b) :: int32)"

definition unpacked_elements :: "int \<Rightarrow> int \<Rightarrow> int \<Rightarrow> int" where
  "unpacked_elements count bytes msg_bytes =
     (let type_size = (if count > 0 then bytes sdiv count else 0);
          elements = (if type_size > 0 then msg_bytes sdiv type_size else 0)
      in if elements > count then count else elements)"

section \<open>Sends\<close>

definition wait_p2p_drain :: "('l, unit) act" where
  "wait_p2p_drain = (\<lambda>s. if mana_state s = CKPT_P2P then Fault Spin else Ok ((), s))"

definition wait_running :: "('l, unit) act" where
  "wait_running = (\<lambda>s. if mana_state s \<noteq> RUNNING then Fault Spin else Ok ((), s))"

definition count_send :: "'l env \<Rightarrow> mana_mpi_handle \<Rightarrow> int \<Rightarrow> int \<Rightarrow> ('l, unit) act" where
  "count_send env comm dest tag =
     when_act (dest \<noteq> int_const env ''PROC_NULL'')
       (andthen (modify (\<lambda>s. s \<lparr> local_sent := local_sent s + 1 \<rparr>)) (\<lambda>_. countSendAfterIssends comm dest tag))"

definition MPI_Isend_internal ::
  "'l env \<Rightarrow> int64 \<Rightarrow> int \<Rightarrow> mana_mpi_handle \<Rightarrow> int \<Rightarrow> int \<Rightarrow> mana_mpi_handle \<Rightarrow> bool \<Rightarrow> ('l, int \<times> mana_mpi_handle) act"
where
  "MPI_Isend_internal env buf count datatype dest tag comm synchronous =
     andthen (count_send env comm dest tag) (\<lambda>_.
     andthen (real_of env comm) (\<lambda>realComm.
     andthen (real_of env datatype) (\<lambda>realType.
     andthen (next_func env (if synchronous then ''Issend'' else ''Isend'')
       [VPtr buf, VInt count, VHandle realType, VInt dest, VInt tag, VHandle realComm]) (\<lambda>(retval, outs).
     let request = the_handle outs 0 in
     if retval = MPI_SUCCESS
     then andthen (new_virt_request request) (\<lambda>request.
          andthen (addPendingRequestToLog env
            (if synchronous \<and> dest \<noteq> int_const env ''PROC_NULL'' then ISSEND_REQUEST else ISEND_REQUEST)
            buf 0 count datatype dest tag comm request) (\<lambda>_.
          ret (retval, request)))
     else ret (retval, request)))))"

definition PMPI_Isend ::
  "'l env \<Rightarrow> int64 \<Rightarrow> int \<Rightarrow> mana_mpi_handle \<Rightarrow> int \<Rightarrow> int \<Rightarrow> mana_mpi_handle \<Rightarrow> ('l, int \<times> mana_mpi_handle) act"
where
  "PMPI_Isend env buf count datatype dest tag comm =
     andthen wait_p2p_drain (\<lambda>_.
     andthen LOWER_HALF_DISABLE_CKPT (\<lambda>_.
     andthen (MPI_Isend_internal env buf count datatype dest tag comm False) (\<lambda>r.
     andthen LOWER_HALF_ENABLE_CKPT (\<lambda>_. ret r))))"

definition PMPI_Issend ::
  "'l env \<Rightarrow> int64 \<Rightarrow> int \<Rightarrow> mana_mpi_handle \<Rightarrow> int \<Rightarrow> int \<Rightarrow> mana_mpi_handle \<Rightarrow> ('l, int \<times> mana_mpi_handle) act"
where
  "PMPI_Issend env buf count datatype dest tag comm =
     andthen wait_p2p_drain (\<lambda>_.
     andthen LOWER_HALF_DISABLE_CKPT (\<lambda>_.
     andthen (MPI_Isend_internal env buf count datatype dest tag comm True) (\<lambda>r.
     andthen LOWER_HALF_ENABLE_CKPT (\<lambda>_. ret r))))"

definition send_by_polling ::
  "'l env \<Rightarrow> int64 \<Rightarrow> int \<Rightarrow> mana_mpi_handle \<Rightarrow> int \<Rightarrow> int \<Rightarrow> mana_mpi_handle \<Rightarrow> ('l, int) act"
where
  "send_by_polling env buf count datatype dest tag comm =
     andthen (PMPI_Isend env buf count datatype dest tag comm) (\<lambda>(retval, request).
     if retval \<noteq> MPI_SUCCESS then ret retval
     else andthen (PMPI_Wait env request) (\<lambda>(retval, st, request). ret retval))"

text \<open>\<^verbatim>\<open>MPI_Send\<close> and \<^verbatim>\<open>MPI_Rsend\<close> in the blocking mode differ in the library's function only.\<close>

definition blocking_send ::
  "'l env \<Rightarrow> string \<Rightarrow> int64 \<Rightarrow> int \<Rightarrow> mana_mpi_handle \<Rightarrow> int \<Rightarrow> int \<Rightarrow> mana_mpi_handle \<Rightarrow> ('l, int) act"
where
  "blocking_send env f buf count datatype dest tag comm =
     andthen wait_p2p_drain (\<lambda>_.
     andthen LOWER_HALF_DISABLE_CKPT (\<lambda>_.
     andthen (count_send env comm dest tag) (\<lambda>_.
     andthen (real_of env comm) (\<lambda>realComm.
     andthen (real_of env datatype) (\<lambda>realType.
     andthen (next_func env f [VPtr buf, VInt count, VHandle realType, VInt dest, VInt tag, VHandle realComm])
       (\<lambda>(retval, outs).
     andthen LOWER_HALF_ENABLE_CKPT (\<lambda>_.
     ret retval)))))))"

definition PMPI_Send ::
  "'l env \<Rightarrow> int64 \<Rightarrow> int \<Rightarrow> mana_mpi_handle \<Rightarrow> int \<Rightarrow> int \<Rightarrow> mana_mpi_handle \<Rightarrow> ('l, int) act"
where
  "PMPI_Send env buf count datatype dest tag comm = (\<lambda>s.
     if p2p_wait s = P2P_WAIT_POLLING then send_by_polling env buf count datatype dest tag comm s
     else blocking_send env ''Send'' buf count datatype dest tag comm s)"

definition PMPI_Rsend ::
  "'l env \<Rightarrow> int64 \<Rightarrow> int \<Rightarrow> mana_mpi_handle \<Rightarrow> int \<Rightarrow> int \<Rightarrow> mana_mpi_handle \<Rightarrow> ('l, int) act"
where
  "PMPI_Rsend env buf count datatype dest tag comm = (\<lambda>s.
     if p2p_wait s = P2P_WAIT_POLLING then send_by_polling env buf count datatype dest tag comm s
     else blocking_send env ''Rsend'' buf count datatype dest tag comm s)"

definition PMPI_Ssend ::
  "'l env \<Rightarrow> int64 \<Rightarrow> int \<Rightarrow> mana_mpi_handle \<Rightarrow> int \<Rightarrow> int \<Rightarrow> mana_mpi_handle \<Rightarrow> ('l, int) act"
where
  "PMPI_Ssend env buf count datatype dest tag comm =
     andthen (PMPI_Issend env buf count datatype dest tag comm) (\<lambda>(retval, request).
     if retval \<noteq> MPI_SUCCESS then ret retval
     else andthen (PMPI_Wait env request) (\<lambda>(retval, st, request). ret retval))"

definition sendSsendAck :: "'l env \<Rightarrow> int \<Rightarrow> int \<Rightarrow> ('l, unit) act" where
  "sendSsendAck env rank tag =
     andthen (gets ssend_ack_comm) (\<lambda>ack_comm.
     andthen (MPI_Isend_internal env 0 0 (upper_const env ''BYTE'') rank tag ack_comm False) (\<lambda>(retval, request).
     andthen (assert_act (retval = MPI_SUCCESS)) (\<lambda>_.
     andthen (PMPI_Wait env request) (\<lambda>(retval, st, request).
     assert_act (retval = MPI_SUCCESS)))))"

section \<open>Receives\<close>

definition remove_first :: "('a \<Rightarrow> bool) \<Rightarrow> 'a list \<Rightarrow> 'a list" where
  "remove_first P xs = takeWhile (\<lambda>x. \<not> P x) xs @ tl (dropWhile (\<lambda>x. \<not> P x) xs)"

definition unpack_message :: "'l env \<Rightarrow> int64 \<Rightarrow> mana_mpi_handle \<Rightarrow> int \<Rightarrow> mpi_message \<Rightarrow> ('l, unit) act" where
  "unpack_message env buf datatype elements m =
     andthen (real_of env datatype) (\<lambda>realType.
     andthen (real_of env (MPI_COMM_SELF env)) (\<lambda>realComm.
     andthen (next_func env ''Unpack'' [VPtr (m_buf m), VInt (m_size m), VInt 0, VPtr buf, VInt elements,
       VHandle realType, VHandle realComm]) (\<lambda>(retval, outs).
     assert_act (retval = MPI_SUCCESS))))"

definition consumeMatchingMsgBuffer ::
  "'l env \<Rightarrow> int64 \<Rightarrow> int \<Rightarrow> mana_mpi_handle \<Rightarrow> int \<Rightarrow> int \<Rightarrow> mana_mpi_handle \<Rightarrow> int \<Rightarrow> ('l, mpi_status) act"
where
  "consumeMatchingMsgBuffer env buf count datatype source tag comm bytes = (\<lambda>s.
     case find (msg_matches env source tag comm) (message_queue s) of
       None \<Rightarrow> Fault Assert_failed
     | Some m \<Rightarrow>
         andthen (let elements = unpacked_elements count bytes (m_size m)
                  in when_act (elements > 0) (unpack_message env buf datatype elements m)) (\<lambda>_.
         andthen (modify (\<lambda>s. s \<lparr> message_queue := remove_first (msg_matches env source tag comm) (message_queue s) \<rparr>)) (\<lambda>_.
         andthen (when_act (ack_to m \<ge> 0) (sendSsendAck env (ack_to m) (ack_tag m))) (\<lambda>_.
         ret (m_status m)))) s)"

text \<open>A receive that the buffer serves.\<close>

definition take_buffered ::
  "'l env \<Rightarrow> int64 \<Rightarrow> int \<Rightarrow> mana_mpi_handle \<Rightarrow> int \<Rightarrow> int \<Rightarrow> mana_mpi_handle \<Rightarrow> ('l, mpi_status) act"
where
  "take_buffered env buf count datatype source tag comm =
     andthen (PMPI_Type_size env datatype) (\<lambda>(retval, outs).
     consumeMatchingMsgBuffer env buf count datatype source tag comm (int_mult (the_int outs 0) count))"

definition MPI_Irecv_internal ::
  "'l env \<Rightarrow> int64 \<Rightarrow> int \<Rightarrow> mana_mpi_handle \<Rightarrow> int \<Rightarrow> int \<Rightarrow> mana_mpi_handle \<Rightarrow> ('l, int \<times> mana_mpi_handle) act"
where
  "MPI_Irecv_internal env buf count datatype source tag comm =
     andthen (gets (existsMatchingMsgBuffer env source tag comm)) (\<lambda>found.
     case found of
       Some _ \<Rightarrow>
         andthen (take_buffered env buf count datatype source tag comm) (\<lambda>st.
         andthen (new_virt_request (MPI_REQUEST_NULL env + 1)) (\<lambda>request.
         andthen (complete_virt_request env request st) (\<lambda>_.
         ret (MPI_SUCCESS, request))))
     | None \<Rightarrow>
         andthen (real_of env comm) (\<lambda>realComm.
         andthen (real_of env datatype) (\<lambda>realType.
         andthen (next_func env ''Irecv'' [VPtr buf, VInt count, VHandle realType, VInt source, VInt tag,
           VHandle realComm]) (\<lambda>(retval, outs).
         let request = the_handle outs 0 in
         if retval = MPI_SUCCESS
         then andthen (new_virt_request request) (\<lambda>request.
              andthen (addPendingRequestToLog env IRECV_REQUEST 0 buf count datatype source tag comm request) (\<lambda>_.
              ret (retval, request)))
         else ret (retval, request)))))"

definition PMPI_Irecv ::
  "'l env \<Rightarrow> int64 \<Rightarrow> int \<Rightarrow> mana_mpi_handle \<Rightarrow> int \<Rightarrow> int \<Rightarrow> mana_mpi_handle \<Rightarrow> ('l, int \<times> mana_mpi_handle) act"
where
  "PMPI_Irecv env buf count datatype source tag comm =
     andthen wait_p2p_drain (\<lambda>_.
     andthen LOWER_HALF_DISABLE_CKPT (\<lambda>_.
     andthen (MPI_Irecv_internal env buf count datatype source tag comm) (\<lambda>r.
     andthen LOWER_HALF_ENABLE_CKPT (\<lambda>_. ret r))))"

definition recv_by_polling ::
  "'l env \<Rightarrow> int64 \<Rightarrow> int \<Rightarrow> mana_mpi_handle \<Rightarrow> int \<Rightarrow> int \<Rightarrow> mana_mpi_handle \<Rightarrow> ('l, int \<times> mpi_status option) act"
where
  "recv_by_polling env buf count datatype source tag comm =
     andthen wait_p2p_drain (\<lambda>_.
     andthen LOWER_HALF_DISABLE_CKPT (\<lambda>_.
     andthen (MPI_Irecv_internal env buf count datatype source tag comm) (\<lambda>(retval, request).
     andthen LOWER_HALF_ENABLE_CKPT (\<lambda>_.
     if retval \<noteq> MPI_SUCCESS then ret (retval, None)
     else andthen (PMPI_Wait env request) (\<lambda>(retval, st, request). ret (retval, st))))))"

text \<open>\<^verbatim>\<open>MPI_Recv\<close> in the blocking mode, up to the call of the library: it is served from the buffer, waits for the end
  of the checkpoint, or is published in \<^verbatim>\<open>g_pending_recv\<close> and enters the lower half.  The checkpoint thread runs while the
  call blocks, so the second half is an action of its own, which takes the outcome of the call.\<close>

datatype recv_entry = Served mpi_status | Parked | Entered

definition recv_enter ::
  "'l env \<Rightarrow> int64 \<Rightarrow> int \<Rightarrow> mana_mpi_handle \<Rightarrow> int \<Rightarrow> int \<Rightarrow> mana_mpi_handle \<Rightarrow> ('l, recv_entry) act"
where
  "recv_enter env buf count datatype source tag comm =
     andthen wait_p2p_drain (\<lambda>_.
     andthen LOWER_HALF_DISABLE_CKPT (\<lambda>_.
     andthen (gets (existsMatchingMsgBuffer env source tag comm)) (\<lambda>found.
     case found of
       Some _ \<Rightarrow>
         andthen (take_buffered env buf count datatype source tag comm) (\<lambda>st.
         andthen LOWER_HALF_ENABLE_CKPT (\<lambda>_.
         ret (Served st)))
     | None \<Rightarrow>
         andthen (modify (\<lambda>s. s \<lparr> g_pending_recv := (g_pending_recv s) \<lparr> pr_source := source, pr_tag := tag,
           pr_comm := comm, pr_count := count, pr_datatype := datatype \<rparr> \<rparr>)) (\<lambda>_.
         andthen (gets (\<lambda>s. pr_state (g_pending_recv s))) (\<lambda>state.
         if state \<noteq> PENDING_RECV_IDLE
         then andthen LOWER_HALF_ENABLE_CKPT (\<lambda>_. ret Parked)
         else andthen (modify (\<lambda>s. s \<lparr> g_pending_recv := (g_pending_recv s) \<lparr> pr_state := PENDING_RECV_ACTIVE \<rparr> \<rparr>)) (\<lambda>_.
              ret Entered))))))"

definition recv_call ::
  "'l env \<Rightarrow> int64 \<Rightarrow> int \<Rightarrow> mana_mpi_handle \<Rightarrow> int \<Rightarrow> int \<Rightarrow> mana_mpi_handle \<Rightarrow> ('l, int \<times> mpi_status option) act"
where
  "recv_call env buf count datatype source tag comm =
     andthen (real_of env comm) (\<lambda>realComm.
     andthen (real_of env datatype) (\<lambda>realType.
     andthen (next_func env ''Recv'' [VPtr buf, VInt count, VHandle realType, VInt source, VInt tag,
       VHandle realComm]) (\<lambda>(retval, outs).
     ret (retval, out_status outs 0))))"

text \<open>After the call: whether the message was a dummy.\<close>

definition recv_return :: "'l env \<Rightarrow> int \<Rightarrow> ('l, bool) act" where
  "recv_return env source =
     andthen (gets p2p_dummy_phase) (\<lambda>dummy.
     andthen (if dummy
              then modify (\<lambda>s. s \<lparr> g_pending_recv := (g_pending_recv s) \<lparr> pr_state := PENDING_RECV_CLOSED \<rparr> \<rparr>)
              else andthen (modify (\<lambda>s. s \<lparr> g_pending_recv := (g_pending_recv s) \<lparr> pr_state := PENDING_RECV_IDLE \<rparr> \<rparr>)) (\<lambda>_.
                   when_act (source \<noteq> int_const env ''PROC_NULL'') count_received_message)) (\<lambda>_.
     andthen LOWER_HALF_ENABLE_CKPT (\<lambda>_.
     ret dummy)))"

text \<open>The loop of \<^verbatim>\<open>MPI_Recv\<close>.  \<open>ckpt\<close> is what the checkpoint thread does while the call blocks and while the receive is
  parked.\<close>

partial_function (option) recv_loop ::
  "'l env \<Rightarrow> ('l proc \<Rightarrow> 'l proc) \<Rightarrow> int64 \<Rightarrow> int \<Rightarrow> mana_mpi_handle \<Rightarrow> int \<Rightarrow> int \<Rightarrow> mana_mpi_handle \<Rightarrow> 'l proc \<Rightarrow>
   ((int \<times> mpi_status option) \<times> 'l proc) result option"
where
  "recv_loop env ckpt buf count datatype source tag comm s =
     (case recv_enter env buf count datatype source tag comm s of
        Inl e \<Rightarrow> Some (Inl e)
      | Inr (Served st, t) \<Rightarrow> Some (Ok ((MPI_SUCCESS, Some st), t))
      | Inr (Parked, t) \<Rightarrow>
          (case wait_running (ckpt t) of
             Inl e \<Rightarrow> Some (Inl e)
           | Inr (_, u) \<Rightarrow> recv_loop env ckpt buf count datatype source tag comm u)
      | Inr (Entered, t) \<Rightarrow>
          (case recv_call env buf count datatype source tag comm t of
             Inl e \<Rightarrow> Some (Inl e)
           | Inr ((retval, st), u) \<Rightarrow>
               (case recv_return env source (ckpt u) of
                  Inl e \<Rightarrow> Some (Inl e)
                | Inr (dummy, v) \<Rightarrow>
                    if dummy
                    then (case wait_running (ckpt v) of
                            Inl e \<Rightarrow> Some (Inl e)
                          | Inr (_, w) \<Rightarrow> recv_loop env ckpt buf count datatype source tag comm w)
                    else Some (Ok ((retval, st), v)))))"

definition PMPI_Recv ::
  "'l env \<Rightarrow> ('l proc \<Rightarrow> 'l proc) \<Rightarrow> int64 \<Rightarrow> int \<Rightarrow> mana_mpi_handle \<Rightarrow> int \<Rightarrow> int \<Rightarrow> mana_mpi_handle \<Rightarrow>
   ('l, int \<times> mpi_status option) act"
where
  "PMPI_Recv env ckpt buf count datatype source tag comm = (\<lambda>s.
     if p2p_wait s = P2P_WAIT_POLLING then recv_by_polling env buf count datatype source tag comm s
     else if source = int_const env ''PROC_NULL''
     then andthen LOWER_HALF_DISABLE_CKPT (\<lambda>_.
          andthen (recv_call env buf count datatype source tag comm) (\<lambda>r.
          andthen LOWER_HALF_ENABLE_CKPT (\<lambda>_. ret r))) s
     else case recv_loop env ckpt buf count datatype source tag comm s of None \<Rightarrow> Fault Spin | Some r \<Rightarrow> r)"

section \<open>Combined sends and receives\<close>

definition PMPI_Sendrecv ::
  "'l env \<Rightarrow> int64 \<Rightarrow> int \<Rightarrow> mana_mpi_handle \<Rightarrow> int \<Rightarrow> int \<Rightarrow> int64 \<Rightarrow> int \<Rightarrow> mana_mpi_handle \<Rightarrow> int \<Rightarrow> int \<Rightarrow>
   mana_mpi_handle \<Rightarrow> ('l, int \<times> mpi_status option) act"
where
  "PMPI_Sendrecv env sbuf sendcount sendtype dest sendtag rbuf recvcount recvtype source recvtag comm =
     andthen wait_p2p_drain (\<lambda>_.
     andthen LOWER_HALF_DISABLE_CKPT (\<lambda>_.
     andthen (MPI_Isend_internal env sbuf sendcount sendtype dest sendtag comm False) (\<lambda>(retval, req0).
     andthen (if retval = MPI_SUCCESS
              then MPI_Irecv_internal env rbuf recvcount recvtype source recvtag comm
              else ret (retval, 0)) (\<lambda>(retval, req1).
     andthen LOWER_HALF_ENABLE_CKPT (\<lambda>_.
     if retval \<noteq> MPI_SUCCESS then ret (retval, None)
     else andthen (PMPI_Waitall env [req0, req1]) (\<lambda>(retval, sts, rs).
          ret (retval, if length sts > 1 then sts ! 1 else None)))))))"

text \<open>\<open>tmpbuf\<close> is the address that \<^verbatim>\<open>malloc\<close> returns; \<^verbatim>\<open>memcpy\<close> copies it to \<open>buf\<close> after the wait, whatever was received.\<close>

definition PMPI_Sendrecv_replace ::
  "'l env \<Rightarrow> int64 \<Rightarrow> int64 \<Rightarrow> int \<Rightarrow> mana_mpi_handle \<Rightarrow> int \<Rightarrow> int \<Rightarrow> int \<Rightarrow> int \<Rightarrow> mana_mpi_handle \<Rightarrow>
   ('l, int \<times> mpi_status option) act"
where
  "PMPI_Sendrecv_replace env tmpbuf buf count datatype dest sendtag source recvtag comm =
     andthen (PMPI_Type_size env datatype) (\<lambda>(rc, outs).
     andthen wait_p2p_drain (\<lambda>_.
     andthen LOWER_HALF_DISABLE_CKPT (\<lambda>_.
     andthen (MPI_Irecv_internal env tmpbuf count datatype source recvtag comm) (\<lambda>(retval, req0).
     andthen (if retval = MPI_SUCCESS
              then MPI_Isend_internal env buf count datatype dest sendtag comm False
              else ret (retval, 0)) (\<lambda>(retval, req1).
     andthen LOWER_HALF_ENABLE_CKPT (\<lambda>_.
     if retval \<noteq> MPI_SUCCESS then ret (retval, None)
     else andthen (PMPI_Waitall env [req0, req1]) (\<lambda>(retval, sts, rs).
          ret (retval, hd sts))))))))"

section \<open>Probes\<close>

definition MPI_Iprobe_internal ::
  "'l env \<Rightarrow> int \<Rightarrow> int \<Rightarrow> mana_mpi_handle \<Rightarrow> int \<Rightarrow> ('l, int \<times> int \<times> mpi_status option) act"
where
  "MPI_Iprobe_internal env source tag comm flag =
     andthen LOWER_HALF_DISABLE_CKPT (\<lambda>_.
     andthen (real_of env comm) (\<lambda>realComm.
     andthen (next_func env ''Iprobe'' [VInt source, VInt tag, VHandle realComm]) (\<lambda>(retval, outs).
     andthen LOWER_HALF_ENABLE_CKPT (\<lambda>_.
     ret (retval, out_int flag outs 0, out_status outs 1)))))"

definition PMPI_Iprobe ::
  "'l env \<Rightarrow> int \<Rightarrow> int \<Rightarrow> mana_mpi_handle \<Rightarrow> int \<Rightarrow> ('l, int \<times> int \<times> mpi_status option) act"
where
  "PMPI_Iprobe env source tag comm flag =
     andthen wait_p2p_drain (\<lambda>_.
     andthen LOWER_HALF_DISABLE_CKPT (\<lambda>_.
     andthen (gets (existsMatchingMsgBuffer env source tag comm)) (\<lambda>found.
     andthen (case found of
                Some st \<Rightarrow> ret (MPI_SUCCESS, 1, Some st)
              | None \<Rightarrow> MPI_Iprobe_internal env source tag comm flag) (\<lambda>r.
     andthen LOWER_HALF_ENABLE_CKPT (\<lambda>_. ret r)))))"

partial_function (option) probe_loop ::
  "'l env \<Rightarrow> int \<Rightarrow> int \<Rightarrow> mana_mpi_handle \<Rightarrow> 'l proc \<Rightarrow> ((int \<times> mpi_status option) \<times> 'l proc) result option"
where
  "probe_loop env source tag comm s =
     (case PMPI_Iprobe env source tag comm 0 s of
        Inl e \<Rightarrow> Some (Inl e)
      | Inr ((retval, flag, st), t) \<Rightarrow>
          if flag \<noteq> 0 then Some (Ok ((retval, st), t)) else probe_loop env source tag comm t)"

definition PMPI_Probe :: "'l env \<Rightarrow> int \<Rightarrow> int \<Rightarrow> mana_mpi_handle \<Rightarrow> ('l, int \<times> mpi_status option) act" where
  "PMPI_Probe env source tag comm = (\<lambda>s.
     case probe_loop env source tag comm s of None \<Rightarrow> Fault Spin | Some r \<Rightarrow> r)"

end
