(* ===== verification/P2p_Drain.thy ===== *)
theory P2p_Drain
  imports P2p_Wrappers
begin

text \<open>
  The point-to-point drain (\<^verbatim>\<open>p2p_drain.cpp\<close>): before a checkpoint every message that was sent is received, by a pending
  receive or into MANA's buffer, the pending sends complete, and a blocked \<^verbatim>\<open>MPI_Recv\<close> gets a dummy message.  The drain
  reaches the other ranks through the library and through DMTCP's coordinator, which are parameters.  The global sums of
  messages and the round are results of the actions.  Times and counts for the drain's statistics are left out.  The actions are
  those of the checkpoint thread; \<open>Recv_Slot\<close> has its interleaving with a thread in \<^verbatim>\<open>MPI_Recv\<close>.  A status that
  the library does not write is zero here and uninitialised in the code.
\<close>

section \<open>The coordinator\<close>

definition ask :: "'l env \<Rightarrow> drain_request \<Rightarrow> ('l, drain_reply) act" where
  "ask env r = (\<lambda>s. case coordinator env r (low s) of (x, l) \<Rightarrow> Ok (x, s \<lparr> low := l \<rparr>))"

definition kvGet :: "'l env \<Rightarrow> drain_key \<Rightarrow> int \<Rightarrow> ('l, int) act" where
  "kvGet env k val = andthen (ask env (K_get64 k)) (\<lambda>r. ret (case r of K_value v \<Rightarrow> v | _ \<Rightarrow> val))"

definition kvIncr :: "'l env \<Rightarrow> drain_key \<Rightarrow> int \<Rightarrow> ('l, unit) act" where
  "kvIncr env k val = andthen (ask env (K_incrby k val)) (\<lambda>_. ret ())"

definition kvFetchAdd :: "'l env \<Rightarrow> drain_key \<Rightarrow> int \<Rightarrow> ('l, int) act" where
  "kvFetchAdd env k val =
     andthen (ask env (K_incrby k val)) (\<lambda>r. case r of K_value old \<Rightarrow> ret old | _ \<Rightarrow> fail Assert_failed)"

definition kvOr :: "'l env \<Rightarrow> drain_key \<Rightarrow> int64 \<Rightarrow> ('l, unit) act" where
  "kvOr env k val = andthen (ask env (K_or k val)) (\<lambda>_. ret ())"

definition kvSetString :: "'l env \<Rightarrow> drain_key \<Rightarrow> int list \<Rightarrow> ('l, unit) act" where
  "kvSetString env k val = andthen (ask env (K_set k val)) (\<lambda>_. ret ())"

definition kvGetString :: "'l env \<Rightarrow> drain_key \<Rightarrow> ('l, int list option) act" where
  "kvGetString env k = andthen (ask env (K_get k)) (\<lambda>r. ret (case r of K_string v \<Rightarrow> Some v | _ \<Rightarrow> None))"

definition globalBarrier :: "'l env \<Rightarrow> string \<Rightarrow> ('l, unit) act" where
  "globalBarrier env name = andthen (ask env (K_barrier name)) (\<lambda>_. ret ())"

definition drainStatsNow :: "'l env \<Rightarrow> ('l, int) act" where
  "drainStatsNow env = andthen (ask env K_now) (\<lambda>r. ret (case r of K_value v \<Rightarrow> v | _ \<Rightarrow> 0))"

definition alloc_memory :: "'l env \<Rightarrow> int \<Rightarrow> ('l, int64) act" where
  "alloc_memory env n = andthen (ask env (K_malloc n)) (\<lambda>r. ret (case r of K_value v \<Rightarrow> word_of_int v | _ \<Rightarrow> 0))"

text \<open>The wait mode that \<^verbatim>\<open>MANA_P2P_WAIT\<close> gives (the code prints a warning for an unknown value).\<close>

definition initialize_drain_send_recv :: "'l env \<Rightarrow> string option \<Rightarrow> ('l, unit) act" where
  "initialize_drain_send_recv env wait =
     andthen (modify (\<lambda>s. s \<lparr> p2p_wait := (if wait = Some ''blocking'' then P2P_WAIT_BLOCKING else p2p_wait s),
       active_comms := List.insert (MPI_COMM_SELF env) (List.insert (MPI_COMM_WORLD env) (active_comms s)) \<rparr>)) (\<lambda>_.
     andthen (next_func env ''Comm_dup'' [VHandle (lower_const env ''COMM_WORLD'')]) (\<lambda>(retval, outs).
     andthen (assert_act (retval = MPI_SUCCESS)) (\<lambda>_.
     andthen (new_virt_comm env (the_handle outs 0)) (\<lambda>comm.
     modify (\<lambda>s. s \<lparr> ssend_ack_comm := comm \<rparr>)))))"

section \<open>Pending requests\<close>

definition PMPI_Get_count :: "'l env \<Rightarrow> mpi_status \<Rightarrow> mana_mpi_handle \<Rightarrow> ('l, int \<times> lval list) act" where
  "PMPI_Get_count env st datatype =
     andthen LOWER_HALF_DISABLE_CKPT (\<lambda>_.
     andthen (real_of env datatype) (\<lambda>realType.
     andthen (next_func env ''Get_count'' [VStatus st, VHandle realType]) (\<lambda>(retval, outs).
     andthen LOWER_HALF_ENABLE_CKPT (\<lambda>_.
     ret (retval, outs)))))"

definition recvMsgIntoInternalBuffer :: "'l env \<Rightarrow> mpi_status \<Rightarrow> mana_mpi_handle \<Rightarrow> ('l, int) act" where
  "recvMsgIntoInternalBuffer env st comm =
     andthen (PMPI_Get_count env st (upper_const env ''BYTE'')) (\<lambda>(rc, o1). let count = the_int o1 0 in
     andthen (alloc_memory env count) (\<lambda>buf.
     andthen (real_of env comm) (\<lambda>realComm.
     andthen (next_func env ''Recv'' [VPtr buf, VInt count, VHandle (lower_const env ''BYTE''), VInt (st_source st),
       VInt (st_tag st), VHandle realComm]) (\<lambda>(retval, outs).
     andthen (assert_act (retval = MPI_SUCCESS)) (\<lambda>_.
     andthen count_received_message (\<lambda>_.
     andthen (modify (\<lambda>s. s \<lparr> message_queue := message_queue s @ [\<lparr> m_buf = buf, m_count = count,
       m_datatype = upper_const env ''BYTE'', m_size = count, m_comm = comm, m_status = st, ack_to = -1, ack_tag = 0 \<rparr>] \<rparr>)) (\<lambda>_.
     ret count)))))))"

definition awaitSsendAck :: "'l env \<Rightarrow> mana_mpi_handle \<Rightarrow> ('l, unit) act" where
  "awaitSsendAck env request = (\<lambda>s.
     case find (\<lambda>n. sn_request n = request) (ssend_notices s) of
       None \<Rightarrow> Fault Assert_failed
     | Some notice \<Rightarrow>
         andthen (real_of env (ssend_ack_comm s)) (\<lambda>realComm.
         andthen (next_func env ''Irecv'' [VPtr 0, VInt 0, VHandle (lower_const env ''BYTE''), VInt (sn_receiver notice),
           VInt (sn_ack_tag notice), VHandle realComm]) (\<lambda>(retval, outs).
         andthen (assert_act (retval = MPI_SUCCESS)) (\<lambda>_.
         andthen (update_virt env request (the_handle outs 0)) (\<lambda>_.
         replacePendingCall env request \<lparr> req_type = IRECV_REQUEST, sendbuf = 0, recvbuf = 0, nb_count = 0,
           nb_datatype = upper_const env ''BYTE'', nb_comm = ssend_ack_comm s, remote_node = sn_receiver notice,
           nb_tag = sn_ack_tag notice, later_sends = 0 \<rparr>)))) s)"

definition written :: "mpi_status option \<Rightarrow> mpi_status" where
  "written st = (case st of Some x \<Rightarrow> x | None \<Rightarrow> zero_status)"

definition complete_request :: "'l env \<Rightarrow> mana_mpi_handle \<Rightarrow> ('l, unit) act" where
  "complete_request env request = (\<lambda>s.
     case getPendingCall env request s of
       None \<Rightarrow> Ok ((), s)
     | Some c \<Rightarrow>
         andthen (MPI_Test_internal env request 0 False) (\<lambda>(rc, flag, st).
         if flag = 0 then ret ()
         else if req_type c = IRECV_REQUEST
         then andthen (when_act (remote_node c \<noteq> int_const env ''PROC_NULL'') count_received_message) (\<lambda>_.
              andthen (complete_virt_request env request (written st)) (\<lambda>_.
              clearPendingRequestFromLog env request))
         else if req_type c = ISSEND_REQUEST then awaitSsendAck env request
         else andthen (update_virt env request (lower_const env ''REQUEST_NULL'')) (\<lambda>_.
              clearPendingRequestFromLog env request)) s)"

definition completePendingP2pRequests :: "'l env \<Rightarrow> ('l, unit) act" where
  "completePendingP2pRequests env =
     andthen pendingRequestsInPostingOrder (\<lambda>reqs. andthen (each (complete_request env) reqs) (\<lambda>_. ret ()))"

text \<open>The loops that test a request until it is complete.\<close>

partial_function (option) request_until ::
  "'l env \<Rightarrow> mana_mpi_handle \<Rightarrow> 'l proc \<Rightarrow> (mpi_status option \<times> 'l proc) result option"
where
  "request_until env request s =
     (case MPI_Test_internal env request 0 False s of
        Inl e \<Rightarrow> Some (Inl e)
      | Inr ((rc, flag, st), t) \<Rightarrow> if flag \<noteq> 0 then Some (Ok (st, t)) else request_until env request t)"

definition must_complete :: "'l env \<Rightarrow> mana_mpi_handle \<Rightarrow> ('l, mpi_status option) act" where
  "must_complete env request = (\<lambda>s. case request_until env request s of None \<Rightarrow> Fault Spin | Some r \<Rightarrow> r)"

definition complete_send :: "'l env \<Rightarrow> mana_mpi_handle \<Rightarrow> ('l, unit) act" where
  "complete_send env request = (\<lambda>s.
     let type = pendingRequestType env request s
     in if type \<noteq> ISEND_REQUEST \<and> type \<noteq> ISSEND_REQUEST then Ok ((), s)
        else andthen (must_complete env request) (\<lambda>_.
             if type = ISSEND_REQUEST then awaitSsendAck env request
             else andthen (update_virt env request (lower_const env ''REQUEST_NULL'')) (\<lambda>_.
                  clearPendingRequestFromLog env request)) s)"

definition completePendingIsends :: "'l env \<Rightarrow> ('l, unit) act" where
  "completePendingIsends env =
     andthen pendingRequestsInPostingOrder (\<lambda>reqs. andthen (each (complete_send env) reqs) (\<lambda>_. ret ()))"

definition countPendingIsends :: "'l env \<Rightarrow> ('l, int) act" where
  "countPendingIsends env =
     andthen pendingRequestsInPostingOrder (\<lambda>reqs.
     gets (\<lambda>s. int (length (filter (\<lambda>r. pendingRequestType env r s \<in> {ISEND_REQUEST, ISSEND_REQUEST}) reqs))))"

text \<open>\<^verbatim>\<open>test_pending_nonblocking_collectives\<close> and \<^verbatim>\<open>complete_pending_nonblocking_collectives\<close> of \<^verbatim>\<open>seq_num.cpp\<close>.\<close>

definition test_collective :: "'l env \<Rightarrow> mana_mpi_handle \<Rightarrow> ('l, int) act" where
  "test_collective env request =
     andthen (MPI_Test_internal env request 0 False) (\<lambda>(rc, flag, st).
     andthen (assert_act (rc = MPI_SUCCESS)) (\<lambda>_.
     if flag \<noteq> 0 then andthen (update_virt env request (lower_const env ''REQUEST_NULL'')) (\<lambda>_. ret 0) else ret 1))"

definition test_pending_nonblocking_collectives :: "'l env \<Rightarrow> ('l, int) act" where
  "test_pending_nonblocking_collectives env =
     andthen (gets (pending_collective_requests env)) (\<lambda>reqs.
     andthen (each (test_collective env) reqs) (\<lambda>ns. ret (sum_list ns)))"

partial_function (option) collective_until ::
  "'l env \<Rightarrow> mana_mpi_handle \<Rightarrow> 'l proc \<Rightarrow> (unit \<times> 'l proc) result option"
where
  "collective_until env request s =
     (case MPI_Test_internal env request 0 False s of
        Inl e \<Rightarrow> Some (Inl e)
      | Inr ((rc, flag, st), t) \<Rightarrow>
          if rc \<noteq> MPI_SUCCESS then Some (Fault Assert_failed)
          else if flag \<noteq> 0 then Some (Ok ((), t)) else collective_until env request t)"

definition complete_pending_nonblocking_collectives :: "'l env \<Rightarrow> ('l, unit) act" where
  "complete_pending_nonblocking_collectives env =
     andthen (gets (pending_collective_requests env)) (\<lambda>reqs.
     andthen (each (\<lambda>r. andthen (\<lambda>s. case collective_until env r s of None \<Rightarrow> Fault Spin | Some x \<Rightarrow> x) (\<lambda>_.
       update_virt env r (lower_const env ''REQUEST_NULL''))) reqs) (\<lambda>_. ret ()))"

section \<open>Messages without a receive\<close>

definition pendingRecvMatches :: "'l env \<Rightarrow> mana_mpi_handle \<Rightarrow> mpi_status \<Rightarrow> 'l proc \<Rightarrow> bool" where
  "pendingRecvMatches env comm st s \<longleftrightarrow>
     (let p = g_pending_recv s
      in pr_state p = PENDING_RECV_ACTIVE \<and> pr_comm p = comm \<and>
         (pr_source p = st_source st \<or> pr_source p = int_const env ''ANY_SOURCE'') \<and>
         (pr_tag p = st_tag st \<or> pr_tag p = int_const env ''ANY_TAG''))"

definition irecv_matches :: "'l env \<Rightarrow> mana_mpi_handle \<Rightarrow> mpi_status \<Rightarrow> 'l proc \<Rightarrow> mana_mpi_handle \<Rightarrow> bool" where
  "irecv_matches env comm st s req =
     (case getPendingCall env req s of
        None \<Rightarrow> False
      | Some c \<Rightarrow> req_type c = IRECV_REQUEST \<and> nb_comm c = comm \<and>
          (nb_tag c = st_tag st \<or> nb_tag c = int_const env ''ANY_TAG'') \<and>
          (remote_node c = st_source st \<or> remote_node c = int_const env ''ANY_SOURCE''))"

text \<open>A probed message: whether the probing of the communicator goes on.\<close>

definition drain_message :: "'l env \<Rightarrow> mana_mpi_handle \<Rightarrow> mpi_status \<Rightarrow> ('l, bool) act" where
  "drain_message env comm st =
     andthen pendingRequestsInPostingOrder (\<lambda>reqs.
     andthen (gets (\<lambda>s. find (irecv_matches env comm st s) reqs)) (\<lambda>matched.
     case matched of
       Some request \<Rightarrow>
         andthen (must_complete env request) (\<lambda>recv_status.
         andthen count_received_message (\<lambda>_.
         andthen (complete_virt_request env request (written recv_status)) (\<lambda>_.
         andthen (clearPendingRequestFromLog env request) (\<lambda>_.
         ret True))))
     | None \<Rightarrow>
         andthen (gets (pendingRecvMatches env comm st)) (\<lambda>left.
         if left then ret False
         else andthen (recvMsgIntoInternalBuffer env st comm) (\<lambda>bytes. ret True))))"

partial_function (option) drain_comm :: "'l env \<Rightarrow> mana_mpi_handle \<Rightarrow> 'l proc \<Rightarrow> (unit \<times> 'l proc) result option" where
  "drain_comm env comm s =
     (case MPI_Iprobe_internal env (int_const env ''ANY_SOURCE'') (int_const env ''ANY_TAG'') comm 1 s of
        Inl e \<Rightarrow> Some (Inl e)
      | Inr ((retval, flag, st), t) \<Rightarrow>
          if retval \<noteq> MPI_SUCCESS then Some (Fault Assert_failed)
          else if flag = 0 then Some (Ok ((), t))
          else (case drain_message env comm (written st) t of
                  Inl e \<Rightarrow> Some (Inl e)
                | Inr (again, u) \<Rightarrow> if again then drain_comm env comm u else Some (Ok ((), u))))"

definition skip_comm :: "'l env \<Rightarrow> mana_mpi_handle \<Rightarrow> ('l, bool) act" where
  "skip_comm env comm = (\<lambda>s.
     if comm = MPI_COMM_NULL env then Ok (True, s)
     else case is_predefined_id (wide_handles env) (ctab s) comm of
            None \<Rightarrow> Fault Spin
          | Some predefined \<Rightarrow>
              Ok (\<not> predefined \<and> lookup_virt_id_entry (wide_handles env) (vtab s) comm = None, s))"

definition probe_comm :: "'l env \<Rightarrow> mana_mpi_handle \<Rightarrow> ('l, unit) act" where
  "probe_comm env comm =
     andthen (skip_comm env comm) (\<lambda>skip.
     if skip then ret () else (\<lambda>s. case drain_comm env comm s of None \<Rightarrow> Fault Spin | Some r \<Rightarrow> r))"

definition drainRemainingP2pMsgs :: "'l env \<Rightarrow> ('l, unit) act" where
  "drainRemainingP2pMsgs env =
     andthen (gets (\<lambda>s. active_comms s @ filter (\<lambda>c. c \<noteq> world_comm s) (live_virt_comms s))) (\<lambda>comms.
     andthen (each (probe_comm env) comms) (\<lambda>_. ret ()))"

text \<open>The sums of the counts of all ranks in a round.\<close>

definition registerLocalSendsAndRecvs :: "'l env \<Rightarrow> nat \<Rightarrow> ('l, int \<times> int) act" where
  "registerLocalSendsAndRecvs env round =
     andthen (gets local_sent) (\<lambda>sent.
     andthen (kvIncr env (SentKey round) sent) (\<lambda>_.
     andthen (gets local_recv) (\<lambda>recv.
     andthen (kvIncr env (RecvKey round) recv) (\<lambda>_.
     andthen (globalBarrier env ''MPI:Register-p2p-send-recv'') (\<lambda>_.
     andthen (kvGet env (SentKey round) 0) (\<lambda>global_sent.
     andthen (kvGet env (RecvKey round) 0) (\<lambda>global_recv.
     ret (global_sent, global_recv))))))))"

definition drain_pass :: "'l env \<Rightarrow> nat \<Rightarrow> ('l, int \<times> int) act" where
  "drain_pass env round =
     andthen (completePendingP2pRequests env) (\<lambda>_.
     andthen (drainRemainingP2pMsgs env) (\<lambda>_.
     registerLocalSendsAndRecvs env round))"

partial_function (option) drain_in_flight ::
  "'l env \<Rightarrow> nat \<Rightarrow> int \<Rightarrow> int \<Rightarrow> 'l proc \<Rightarrow> (unit \<times> 'l proc) result option"
where
  "drain_in_flight env round global_sent global_recv s =
     (if global_sent > global_recv
      then (case drain_pass env round s of
              Inl e \<Rightarrow> Some (Inl e)
            | Inr ((sent, recv), t) \<Rightarrow> drain_in_flight env (round + 1) sent recv t)
      else Some (Ok ((), s)))"

definition drainInFlightP2p :: "'l env \<Rightarrow> ('l, unit) act" where
  "drainInFlightP2p env =
     andthen (registerLocalSendsAndRecvs env 0) (\<lambda>(sent, recv).
     andthen (\<lambda>s. case drain_in_flight env 1 sent recv s of None \<Rightarrow> Fault Spin | Some r \<Rightarrow> r) (\<lambda>_.
     completePendingIsends env))"

end
