(* ===== verification/P2p_Dummies.thy ===== *)
theory P2p_Dummies
  imports P2p_Drain
begin

text \<open>
  The second half of the point-to-point drain (\<^verbatim>\<open>p2p_drain.cpp\<close>): the dummies for the ranks that are blocked in
  \<^verbatim>\<open>MPI_Recv\<close>, the acknowledgements of \<^verbatim>\<open>MPI_Issend\<close>, the drain with and without barriers.
\<close>

section \<open>Dummies\<close>

definition test_dummy :: "'l env \<Rightarrow> mana_mpi_handle \<times> int64 \<Rightarrow> ('l, (mana_mpi_handle \<times> int64) list) act" where
  "test_dummy env d =
     andthen (next_func env ''Test'' [VHandle (fst d)]) (\<lambda>(retval, outs).
     andthen (assert_act (retval = MPI_SUCCESS)) (\<lambda>_.
     ret (if out_int 0 outs 0 \<noteq> 0 then [] else [d])))"

definition testDummySends :: "'l env \<Rightarrow> ('l, int) act" where
  "testDummySends env =
     andthen (gets dummy_sends) (\<lambda>ds.
     andthen (each (test_dummy env) ds) (\<lambda>kept.
     andthen (modify (\<lambda>s. s \<lparr> dummy_sends := concat kept \<rparr>)) (\<lambda>_.
     ret (int (length (concat kept))))))"

text \<open>The first member, from index \<open>i\<close> on, whose bit is not set in the bitmap of the blocked ranks.  A word of the bitmap
  is read once.\<close>

fun first_unblocked :: "'l env \<Rightarrow> nat \<Rightarrow> int list \<Rightarrow> (int \<rightharpoonup> int64) \<Rightarrow> ('l, nat option) act" where
  "first_unblocked env i [] words = ret None"
| "first_unblocked env i (rank # members) words =
     andthen (case words (rank div 64) of
                Some w \<Rightarrow> ret w
              | None \<Rightarrow> andthen (kvGet env (BlockedKey (rank div 64)) 0) (\<lambda>w. ret (word_of_int w))) (\<lambda>w.
     if \<not> bit w (nat (rank mod 64)) then ret (Some i)
     else first_unblocked env (Suc i) members (words(rank div 64 \<mapsto> w)))"

definition dummy_sender :: "'l env \<Rightarrow> int \<Rightarrow> mana_comm_desc \<Rightarrow> ('l, nat) act" where
  "dummy_sender env source cdesc =
     (if source \<noteq> int_const env ''ANY_SOURCE''
      then andthen (assert_act (0 \<le> source \<and> source < cd_size cdesc)) (\<lambda>_. ret (nat source))
      else andthen (first_unblocked env 0 (take (nat (cd_size cdesc)) (cd_global_ranks cdesc)) Map.empty) (\<lambda>sender.
           case sender of None \<Rightarrow> fail Assert_failed | Some i \<Rightarrow> ret i))"

definition postDummy :: "'l env \<Rightarrow> ('l, unit) act" where
  "postDummy env = (\<lambda>s. let p = g_pending_recv s in
     case get_comm_desc env (pr_comm p) s of
       None \<Rightarrow> Fault Abort
     | Some cdesc \<Rightarrow>
         andthen (dummy_sender env (pr_source p) cdesc) (\<lambda>sender. let sender_world_rank = cd_global_ranks cdesc ! sender in
         andthen (real_of env (pr_datatype p)) (\<lambda>realType.
         andthen (next_func env ''Type_size'' [VHandle realType]) (\<lambda>(rc, outs).
         andthen (kvFetchAdd env (NDummies sender_world_rank) 1) (\<lambda>slot.
         kvSetString env (DummyKey sender_world_rank slot)
           [uint (gid cdesc), cd_rank cdesc, (if pr_tag p = int_const env ''ANY_TAG'' then 0 else pr_tag p),
            the_int outs 0 * pr_count p])))) s)"

definition send_dummy :: "'l env \<Rightarrow> bool \<Rightarrow> int \<Rightarrow> ('l, unit) act" where
  "send_dummy env nonblocking k =
     andthen (kvGetString env (DummyKey (world_rank env) k)) (\<lambda>dummy.
     case dummy of
       Some (comm_gid # dest # tag # bytes # _) \<Rightarrow>
         andthen (gets (find_virt_comm env (word_of_int comm_gid))) (\<lambda>virtComm.
         andthen (assert_act (virtComm \<noteq> MPI_COMM_NULL env)) (\<lambda>_.
         andthen (real_of env virtComm) (\<lambda>realComm.
         andthen (alloc_memory env (if bytes > 0 then bytes else 1)) (\<lambda>buf.
         andthen (next_func env (if nonblocking then ''Isend'' else ''Send'') [VPtr buf, VInt (signed_take_bit 31 bytes),
           VHandle (lower_const env ''BYTE''), VInt dest, VInt tag, VHandle realComm]) (\<lambda>(rc, outs).
         andthen (assert_act (rc = MPI_SUCCESS)) (\<lambda>_.
         when_act nonblocking (modify (\<lambda>s. s \<lparr> dummy_sends := dummy_sends s @
           [(out_handle (lower_const env ''REQUEST_NULL'') outs 0, buf)] \<rparr>))))))))
     | _ \<Rightarrow> fail Assert_failed)"

definition sendPostedDummies :: "'l env \<Rightarrow> bool \<Rightarrow> ('l, unit) act" where
  "sendPostedDummies env nonblocking =
     andthen (kvGet env (NDummies (world_rank env)) 0) (\<lambda>count.
     andthen (each (send_dummy env nonblocking) (map int [0..<nat count])) (\<lambda>_. ret ()))"

text \<open>The slot of \<^verbatim>\<open>g_pending_recv\<close>: \<^verbatim>\<open>IDLE\<close> becomes \<^verbatim>\<open>CLOSED\<close>.  The result is whether it is \<^verbatim>\<open>ACTIVE\<close>.\<close>

definition close_slot :: "('l, bool) act" where
  "close_slot =
     andthen (gets (\<lambda>s. pr_state (g_pending_recv s))) (\<lambda>state.
     andthen (when_act (state = PENDING_RECV_IDLE)
       (modify (\<lambda>s. s \<lparr> g_pending_recv := (g_pending_recv s) \<lparr> pr_state := PENDING_RECV_CLOSED \<rparr> \<rparr>))) (\<lambda>_.
     ret (state = PENDING_RECV_ACTIVE)))"

definition publish_blocked :: "'l env \<Rightarrow> bool \<Rightarrow> ('l, unit) act" where
  "publish_blocked env blocked =
     andthen (when_act blocked (kvOr env (BlockedKey (world_rank env div 64)) (push_bit (nat (world_rank env mod 64)) 1))) (\<lambda>_.
     modify (\<lambda>s. s \<lparr> p2p_dummy_phase := True \<rparr>))"

definition unblockPendingRecvs :: "'l env \<Rightarrow> ('l, unit) act" where
  "unblockPendingRecvs env =
     andthen close_slot (\<lambda>blocked.
     andthen (gets p2p_wait) (\<lambda>wait.
     andthen (assert_act (\<not> blocked \<or> wait = P2P_WAIT_BLOCKING)) (\<lambda>_.
     andthen (publish_blocked env blocked) (\<lambda>_.
     andthen (globalBarrier env ''MPI:P2P-Pending-Recv-Published'') (\<lambda>_.
     andthen (when_act blocked (postDummy env)) (\<lambda>_.
     andthen (globalBarrier env ''MPI:P2P-Pending-Recv-Posted'') (\<lambda>_.
     andthen (sendPostedDummies env False) (\<lambda>_.
     globalBarrier env ''MPI:P2P-Pending-Recv-Dummies-Sent''))))))))"

section \<open>Acknowledgements of synchronous sends\<close>

definition publish_notice :: "'l env \<Rightarrow> mana_mpi_handle \<Rightarrow> ('l, unit) act" where
  "publish_notice env request = (\<lambda>s.
     case getPendingCall env request s of
       None \<Rightarrow> Ok ((), s)
     | Some c \<Rightarrow>
         if req_type c \<noteq> ISSEND_REQUEST then Ok ((), s)
         else case get_comm_desc env (nb_comm c) s of
                None \<Rightarrow> replacePendingCall env request (c \<lparr> req_type := ISEND_REQUEST \<rparr>) s
              | Some cdesc \<Rightarrow> let dest = cd_global_ranks cdesc ! nat (remote_node c); tag = next_ack_tag s in
                  andthen (modify (\<lambda>s. s \<lparr> next_ack_tag := (tag + 1) mod 32768 \<rparr>)) (\<lambda>_.
                  andthen (kvFetchAdd env (NSsends dest) 1) (\<lambda>slot.
                  andthen (kvSetString env (SsendKey dest slot)
                    [uint (gid cdesc), cd_rank cdesc, nb_tag c, later_sends c, world_rank env, tag]) (\<lambda>_.
                  modify (\<lambda>s. s \<lparr> ssend_notices := ssend_notices s @
                    [\<lparr> sn_request = request, sn_receiver = dest, sn_ack_tag = tag \<rparr>] \<rparr>)))) s)"

definition publishSsendNotices :: "'l env \<Rightarrow> ('l, unit) act" where
  "publishSsendNotices env =
     andthen (modify (\<lambda>s. s \<lparr> ssend_notices := [] \<rparr>)) (\<lambda>_.
     andthen pendingRequestsInPostingOrder (\<lambda>reqs.
     andthen (each (publish_notice env) reqs) (\<lambda>_. ret ())))"

text \<open>The position of the message to acknowledge: from the end of the buffer, the one with this envelope that
  \<open>later_sends\<close> such messages follow.\<close>

definition has_envelope :: "mana_mpi_handle \<Rightarrow> int \<Rightarrow> int \<Rightarrow> mpi_message \<Rightarrow> bool" where
  "has_envelope comm source tag m \<longleftrightarrow> m_comm m = comm \<and> st_source (m_status m) = source \<and> st_tag (m_status m) = tag"

fun nth_match :: "('a \<Rightarrow> bool) \<Rightarrow> 'a list \<Rightarrow> int \<Rightarrow> nat option" where
  "nth_match P [] n = None"
| "nth_match P (x # xs) n =
     (if P x then (if n = 0 then Some 0 else map_option Suc (nth_match P xs (n - 1))) else map_option Suc (nth_match P xs n))"

definition markSsendAck ::
  "mana_mpi_handle \<Rightarrow> int \<Rightarrow> int \<Rightarrow> int \<Rightarrow> int \<Rightarrow> int \<Rightarrow> ('l, bool) act"
where
  "markSsendAck comm source tag later sender atag = (\<lambda>s.
     case nth_match (has_envelope comm source tag) (rev (message_queue s)) later of
       None \<Rightarrow> Ok (False, s)
     | Some k \<Rightarrow>
         let i = length (message_queue s) - 1 - k; m = message_queue s ! i
         in if ack_to m = -1
            then Ok (True, s \<lparr> message_queue := (message_queue s)[i := m \<lparr> ack_to := sender, ack_tag := atag \<rparr>] \<rparr>)
            else Fault Assert_failed)"

definition mark_notice :: "'l env \<Rightarrow> int \<Rightarrow> ('l, unit) act" where
  "mark_notice env k =
     andthen (kvGetString env (SsendKey (world_rank env) k)) (\<lambda>notice.
     case notice of
       Some (comm_gid # source # tag # later # sender # atag # _) \<Rightarrow>
         andthen (gets (find_virt_comm env (word_of_int comm_gid))) (\<lambda>comm.
         andthen (assert_act (comm \<noteq> MPI_COMM_NULL env)) (\<lambda>_.
         andthen (markSsendAck comm source tag later sender atag) (\<lambda>marked.
         when_act (\<not> marked) (modify (\<lambda>s. s \<lparr> owed_acks := owed_acks s @ [(sender, atag)] \<rparr>)))))
     | _ \<Rightarrow> fail Assert_failed)"

definition markSsendAcks :: "'l env \<Rightarrow> ('l, unit) act" where
  "markSsendAcks env =
     andthen (kvGet env (NSsends (world_rank env)) 0) (\<lambda>count.
     andthen (each (mark_notice env) (map int [0..<nat count])) (\<lambda>_. ret ()))"

definition sendOwedSsendAcks :: "'l env \<Rightarrow> ('l, unit) act" where
  "sendOwedSsendAcks env =
     andthen (gets owed_acks) (\<lambda>acks.
     andthen (each (\<lambda>(rank, tag). sendSsendAck env rank tag) acks) (\<lambda>_.
     modify (\<lambda>s. s \<lparr> owed_acks := [] \<rparr>)))"

section \<open>The drain\<close>

text \<open>\<^verbatim>\<open>reduceDrainCounters\<close>: the sums of the reduction are the second output of the \<^verbatim>\<open>MPI_Test\<close> that completes it.\<close>

definition progress_pass :: "'l env \<Rightarrow> ('l, unit) act" where
  "progress_pass env =
     andthen (completePendingP2pRequests env) (\<lambda>_.
     andthen (test_pending_nonblocking_collectives env) (\<lambda>_.
     andthen (testDummySends env) (\<lambda>_. ret ())))"

partial_function (option) reduce_until ::
  "'l env \<Rightarrow> mana_mpi_handle \<Rightarrow> 'l proc \<Rightarrow> (int list \<times> 'l proc) result option"
where
  "reduce_until env request s =
     (case next_func env ''Test'' [VHandle request] s of
        Inl e \<Rightarrow> Some (Inl e)
      | Inr ((retval, outs), t) \<Rightarrow>
          if retval \<noteq> MPI_SUCCESS then Some (Fault Assert_failed)
          else if out_int 0 outs 0 \<noteq> 0 then Some (Ok (the_ints outs 1, t))
          else (case progress_pass env t of
                  Inl e \<Rightarrow> Some (Inl e)
                | Inr (_, u) \<Rightarrow> reduce_until env request u))"

definition reduceDrainCounters :: "'l env \<Rightarrow> int list \<Rightarrow> ('l, int list) act" where
  "reduceDrainCounters env local =
     andthen (gets world_comm) (\<lambda>world.
     andthen (real_of env world) (\<lambda>realComm.
     andthen (next_func env ''Iallreduce'' [VInts local, VInt (int (length local)), VHandle (lower_const env ''INT64_T''),
       VHandle (lower_const env ''SUM''), VHandle realComm]) (\<lambda>(retval, outs).
     andthen (assert_act (retval = MPI_SUCCESS)) (\<lambda>_.
     (\<lambda>s. case reduce_until env (the_handle outs 0) s of None \<Rightarrow> Fault Spin | Some r \<Rightarrow> r)))))"

partial_function (option) probe_while :: "'l env \<Rightarrow> int \<Rightarrow> 'l proc \<Rightarrow> (unit \<times> 'l proc) result option" where
  "probe_while env until s =
     (case andthen (MPI_Iprobe_internal env (int_const env ''ANY_SOURCE'') (int_const env ''ANY_TAG'') (world_comm s) 0)
             (\<lambda>_. drainStatsNow env) s of
        Inl e \<Rightarrow> Some (Inl e)
      | Inr (now, t) \<Rightarrow> if now < until then probe_while env until t else Some (Ok ((), t)))"

partial_function (option) poll_done :: "'l env \<Rightarrow> int \<Rightarrow> 'l proc \<Rightarrow> (unit \<times> 'l proc) result option" where
  "poll_done env pause s =
     (case kvGet env DoneKey 0 s of
        Inl e \<Rightarrow> Some (Inl e)
      | Inr (done_count, t) \<Rightarrow>
          if done_count \<ge> world_size env then Some (Ok ((), t))
          else (case andthen (drainStatsNow env) (\<lambda>now s. case probe_while env (now + pause) s of
                                                            None \<Rightarrow> Fault Spin | Some r \<Rightarrow> r) t of
                  Inl e \<Rightarrow> Some (Inl e)
                | Inr (_, u) \<Rightarrow> poll_done env (min (pause * 2) 1000) u))"

definition waitForAllRanksDone :: "'l env \<Rightarrow> ('l, unit) act" where
  "waitForAllRanksDone env =
     andthen (kvIncr env DoneKey 1) (\<lambda>_.
     (\<lambda>s. case poll_done env 20 s of None \<Rightarrow> Fault Spin | Some r \<Rightarrow> r))"

definition drainHasNoBarrier :: "'l env \<Rightarrow> 'l proc \<Rightarrow> bool" where
  "drainHasNoBarrier env s \<longleftrightarrow> p2p_wait s = P2P_WAIT_POLLING \<or> ckpt_fsaddr env"

text \<open>One pass of \<^verbatim>\<open>drainWithoutBarriers\<close>, given the dummy pass and whether this rank is blocked: the sums, and whether
  it is blocked.  \<open>app\<close> is what the application's thread does before the slot is read.\<close>

definition dummy_step :: "'l env \<Rightarrow> nat \<Rightarrow> bool \<Rightarrow> ('l, bool) act" where
  "dummy_step env dummy_pass blocked =
     (if dummy_pass = 1 then
        andthen close_slot (\<lambda>blocked. andthen (publish_blocked env blocked) (\<lambda>_. ret blocked))
      else if dummy_pass = 2 \<and> blocked then andthen (postDummy env) (\<lambda>_. ret blocked)
      else if dummy_pass = 3 then andthen (sendPostedDummies env True) (\<lambda>_. ret blocked)
      else ret blocked)"

definition counting_pass :: "'l env \<Rightarrow> ('l, unit) act \<Rightarrow> ('l, int list) act" where
  "counting_pass env app =
     andthen (completePendingP2pRequests env) (\<lambda>_.
     andthen (test_pending_nonblocking_collectives env) (\<lambda>nbcs.
     andthen (testDummySends env) (\<lambda>dummies.
     andthen (drainRemainingP2pMsgs env) (\<lambda>_.
     andthen (gets local_recv) (\<lambda>recv.
     andthen app (\<lambda>_.
     andthen (gets (\<lambda>s. pr_state (g_pending_recv s) = PENDING_RECV_ACTIVE)) (\<lambda>in_recv.
     andthen (countPendingIsends env) (\<lambda>isends.
     andthen (gets (\<lambda>s. [local_sent s, recv, isends, nbcs, of_bool in_recv, dummies, int (length (ssend_notices s))])) (\<lambda>local.
     reduceDrainCounters env local)))))))))"

definition all_received :: "int list \<Rightarrow> bool" where
  "all_received sums \<longleftrightarrow> sums ! 1 \<ge> sums ! 0 \<and> sums ! 2 = 0 \<and> sums ! 3 = 0"

partial_function (option) drain_passes ::
  "'l env \<Rightarrow> ('l, unit) act \<Rightarrow> nat \<Rightarrow> bool \<Rightarrow> 'l proc \<Rightarrow> (int list \<times> 'l proc) result option"
where
  "drain_passes env app dummy_pass blocked s =
     (case andthen (dummy_step env dummy_pass blocked) (\<lambda>blocked.
           andthen (counting_pass env app) (\<lambda>sums. ret (blocked, sums))) s of
        Inl e \<Rightarrow> Some (Inl e)
      | Inr ((blocked, sums), t) \<Rightarrow>
          let dummy_pass = (if dummy_pass > 0 then dummy_pass + 1 else 0)
          in if all_received sums \<and> sums ! 4 = 0 \<and> sums ! 5 = 0 then Some (Ok (sums, t))
             else drain_passes env app
                    (if all_received sums \<and> sums ! 4 > 0 \<and> dummy_pass = 0 then 1 else dummy_pass) blocked t)"

definition drainWithoutBarriers :: "'l env \<Rightarrow> ('l, unit) act \<Rightarrow> ('l, unit) act" where
  "drainWithoutBarriers env app =
     andthen (\<lambda>s. case drain_passes env app 0 False s of None \<Rightarrow> Fault Spin | Some r \<Rightarrow> r) (\<lambda>sums.
     andthen (when_act (sums ! 6 > 0) (markSsendAcks env)) (\<lambda>_.
     waitForAllRanksDone env))"

definition drainP2p :: "'l env \<Rightarrow> ('l, unit) act \<Rightarrow> ('l, unit) act" where
  "drainP2p env app =
     andthen close_slot (\<lambda>_.
     andthen (publishSsendNotices env) (\<lambda>_.
     andthen (gets (drainHasNoBarrier env)) (\<lambda>without.
     if without then drainWithoutBarriers env app
     else andthen (drainInFlightP2p env) (\<lambda>_.
          andthen (markSsendAcks env) (\<lambda>_.
          unblockPendingRecvs env)))))"

definition resetDrainCounters :: "('l, unit) act" where
  "resetDrainCounters = modify (\<lambda>s. s \<lparr> p2p_dummy_phase := False,
     g_pending_recv := (g_pending_recv s) \<lparr> pr_state := PENDING_RECV_IDLE \<rparr> \<rparr>)"

end
