(* ===== verification/Collective_Wrappers.thy ===== *)
theory Collective_Wrappers
  imports Sample_Process
begin

text \<open>
  The wrappers of the collective MPI calls (\<^verbatim>\<open>mpi_collective_wrappers.cpp\<close>).  A wrapper enters the critical
  section of the communicator's clock, translates the handles, calls the MPI library and leaves the
  critical section.  A non-blocking collective gets a virtual request that a checkpoint completes first.
\<close>

definition in_place_buf :: "'l env \<Rightarrow> int64 \<Rightarrow> int64" where
  "in_place_buf env buf = (if buf = fortran_in_place env then in_place env else buf)"

definition collective_request :: "'l env \<Rightarrow> int \<Rightarrow> lval list \<Rightarrow> ('l, mana_mpi_handle) act" where
  "collective_request env retval outs =
     (if retval = MPI_SUCCESS then new_virt_collective_request env (the_handle outs 0) else ret (the_handle outs 0))"

section \<open>The wrappers\<close>

definition PMPI_Bcast ::
  "'l env \<Rightarrow> int64 \<Rightarrow> int \<Rightarrow> mana_mpi_handle \<Rightarrow> int \<Rightarrow> mana_mpi_handle \<Rightarrow> ('l, int) act"
where
  "PMPI_Bcast env buffer cnt datatype root comm =
     andthen (commit_begin env comm) (\<lambda>_.
     andthen LOWER_HALF_DISABLE_CKPT (\<lambda>_.
     andthen (real_of env comm) (\<lambda>real_comm.
     andthen (real_of env datatype) (\<lambda>real_datatype.
     andthen (next_func env ''Bcast'' [VPtr buffer, VInt cnt, VHandle real_datatype, VInt root, VHandle real_comm]) (\<lambda>(retval, outs).
     andthen LOWER_HALF_ENABLE_CKPT (\<lambda>_.
     andthen (commit_finish env comm) (\<lambda>_.
     ret retval)))))))"

definition PMPI_Ibcast ::
  "'l env \<Rightarrow> int64 \<Rightarrow> int \<Rightarrow> mana_mpi_handle \<Rightarrow> int \<Rightarrow> mana_mpi_handle \<Rightarrow> ('l, int \<times> mana_mpi_handle) act"
where
  "PMPI_Ibcast env buffer cnt datatype root comm =
     andthen (commit_begin env comm) (\<lambda>_.
     andthen LOWER_HALF_DISABLE_CKPT (\<lambda>_.
     andthen (real_of env comm) (\<lambda>real_comm.
     andthen (real_of env datatype) (\<lambda>real_datatype.
     andthen (next_func env ''Ibcast'' [VPtr buffer, VInt cnt, VHandle real_datatype, VInt root, VHandle real_comm]) (\<lambda>(retval, outs).
     andthen (collective_request env retval outs) (\<lambda>request.
     andthen LOWER_HALF_ENABLE_CKPT (\<lambda>_.
     andthen (commit_finish env comm) (\<lambda>_.
     ret (retval, request)))))))))"

definition PMPI_Barrier ::
  "'l env \<Rightarrow> mana_mpi_handle \<Rightarrow> ('l, int) act"
where
  "PMPI_Barrier env comm =
     andthen (commit_begin env comm) (\<lambda>_.
     andthen LOWER_HALF_DISABLE_CKPT (\<lambda>_.
     andthen (real_of env comm) (\<lambda>real_comm.
     andthen (next_func env ''Barrier'' [VHandle real_comm]) (\<lambda>(retval, outs).
     andthen LOWER_HALF_ENABLE_CKPT (\<lambda>_.
     andthen (commit_finish env comm) (\<lambda>_.
     ret retval))))))"

definition PMPI_Ibarrier ::
  "'l env \<Rightarrow> mana_mpi_handle \<Rightarrow> ('l, int \<times> mana_mpi_handle) act"
where
  "PMPI_Ibarrier env comm =
     andthen (commit_begin env comm) (\<lambda>_.
     andthen LOWER_HALF_DISABLE_CKPT (\<lambda>_.
     andthen (real_of env comm) (\<lambda>real_comm.
     andthen (next_func env ''Ibarrier'' [VHandle real_comm]) (\<lambda>(retval, outs).
     andthen (collective_request env retval outs) (\<lambda>request.
     andthen LOWER_HALF_ENABLE_CKPT (\<lambda>_.
     andthen (commit_finish env comm) (\<lambda>_.
     ret (retval, request))))))))"

definition PMPI_Allreduce ::
  "'l env \<Rightarrow> int64 \<Rightarrow> int64 \<Rightarrow> int \<Rightarrow> mana_mpi_handle \<Rightarrow> mana_mpi_handle \<Rightarrow> mana_mpi_handle \<Rightarrow> ('l, int) act"
where
  "PMPI_Allreduce env sbuf rbuf cnt datatype op comm =
     andthen (commit_begin env comm) (\<lambda>_.
     andthen LOWER_HALF_DISABLE_CKPT (\<lambda>_.
     andthen (real_of env comm) (\<lambda>real_comm.
     andthen (real_of env datatype) (\<lambda>real_datatype.
     andthen (real_of env op) (\<lambda>real_op.
     let sbuf = in_place_buf env sbuf in
     andthen (next_func env ''Allreduce'' [VPtr sbuf, VPtr rbuf, VInt cnt, VHandle real_datatype, VHandle real_op, VHandle real_comm]) (\<lambda>(retval, outs).
     andthen LOWER_HALF_ENABLE_CKPT (\<lambda>_.
     andthen (commit_finish env comm) (\<lambda>_.
     ret retval))))))))"

definition PMPI_Reduce ::
  "'l env \<Rightarrow> int64 \<Rightarrow> int64 \<Rightarrow> int \<Rightarrow> mana_mpi_handle \<Rightarrow> mana_mpi_handle \<Rightarrow> int \<Rightarrow> mana_mpi_handle \<Rightarrow> ('l, int) act"
where
  "PMPI_Reduce env sbuf rbuf cnt datatype op root comm =
     andthen (commit_begin env comm) (\<lambda>_.
     andthen LOWER_HALF_DISABLE_CKPT (\<lambda>_.
     andthen (real_of env comm) (\<lambda>real_comm.
     andthen (real_of env datatype) (\<lambda>real_datatype.
     andthen (real_of env op) (\<lambda>real_op.
     let sbuf = in_place_buf env sbuf in
     andthen (next_func env ''Reduce'' [VPtr sbuf, VPtr rbuf, VInt cnt, VHandle real_datatype, VHandle real_op, VInt root, VHandle real_comm]) (\<lambda>(retval, outs).
     andthen LOWER_HALF_ENABLE_CKPT (\<lambda>_.
     andthen (commit_finish env comm) (\<lambda>_.
     ret retval))))))))"

definition PMPI_Ireduce ::
  "'l env \<Rightarrow> int64 \<Rightarrow> int64 \<Rightarrow> int \<Rightarrow> mana_mpi_handle \<Rightarrow> mana_mpi_handle \<Rightarrow> int \<Rightarrow> mana_mpi_handle \<Rightarrow> ('l, int \<times> mana_mpi_handle) act"
where
  "PMPI_Ireduce env sbuf rbuf cnt datatype op root comm =
     andthen (commit_begin env comm) (\<lambda>_.
     andthen LOWER_HALF_DISABLE_CKPT (\<lambda>_.
     andthen (real_of env comm) (\<lambda>real_comm.
     andthen (real_of env datatype) (\<lambda>real_datatype.
     andthen (real_of env op) (\<lambda>real_op.
     let sbuf = in_place_buf env sbuf in
     andthen (next_func env ''Ireduce'' [VPtr sbuf, VPtr rbuf, VInt cnt, VHandle real_datatype, VHandle real_op, VInt root, VHandle real_comm]) (\<lambda>(retval, outs).
     andthen (collective_request env retval outs) (\<lambda>request.
     andthen LOWER_HALF_ENABLE_CKPT (\<lambda>_.
     andthen (commit_finish env comm) (\<lambda>_.
     ret (retval, request))))))))))"

definition PMPI_Reduce_scatter ::
  "'l env \<Rightarrow> int64 \<Rightarrow> int64 \<Rightarrow> int list \<Rightarrow> mana_mpi_handle \<Rightarrow> mana_mpi_handle \<Rightarrow> mana_mpi_handle \<Rightarrow> ('l, int) act"
where
  "PMPI_Reduce_scatter env sbuf rbuf recvcounts datatype op comm =
     andthen (commit_begin env comm) (\<lambda>_.
     andthen LOWER_HALF_DISABLE_CKPT (\<lambda>_.
     andthen (real_of env comm) (\<lambda>real_comm.
     andthen (real_of env datatype) (\<lambda>real_datatype.
     andthen (real_of env op) (\<lambda>real_op.
     let sbuf = in_place_buf env sbuf in
     andthen (next_func env ''Reduce_scatter'' [VPtr sbuf, VPtr rbuf, VInts recvcounts, VHandle real_datatype, VHandle real_op, VHandle real_comm]) (\<lambda>(retval, outs).
     andthen LOWER_HALF_ENABLE_CKPT (\<lambda>_.
     andthen (commit_finish env comm) (\<lambda>_.
     ret retval))))))))"

definition PMPI_Alltoallv ::
  "'l env \<Rightarrow> int64 \<Rightarrow> int list \<Rightarrow> int list \<Rightarrow> mana_mpi_handle \<Rightarrow> int64 \<Rightarrow> int list \<Rightarrow> int list \<Rightarrow> mana_mpi_handle \<Rightarrow> mana_mpi_handle \<Rightarrow> ('l, int) act"
where
  "PMPI_Alltoallv env sbuf sendcounts sdispls sendtype rbuf recvcounts rdispls recvtype comm =
     andthen (commit_begin env comm) (\<lambda>_.
     let sbuf = in_place_buf env sbuf in
     andthen LOWER_HALF_DISABLE_CKPT (\<lambda>_.
     andthen (real_of env comm) (\<lambda>real_comm.
     andthen (real_of env sendtype) (\<lambda>realSendType.
     andthen (real_of env recvtype) (\<lambda>realRecvType.
     andthen (next_func env ''Alltoallv'' [VPtr sbuf, VInts sendcounts, VInts sdispls, VHandle realSendType, VPtr rbuf, VInts recvcounts, VInts rdispls, VHandle realRecvType, VHandle real_comm]) (\<lambda>(retval, outs).
     andthen LOWER_HALF_ENABLE_CKPT (\<lambda>_.
     andthen (commit_finish env comm) (\<lambda>_.
     ret retval))))))))"

definition PMPI_Gather ::
  "'l env \<Rightarrow> int64 \<Rightarrow> int \<Rightarrow> mana_mpi_handle \<Rightarrow> int64 \<Rightarrow> int \<Rightarrow> mana_mpi_handle \<Rightarrow> int \<Rightarrow> mana_mpi_handle \<Rightarrow> ('l, int) act"
where
  "PMPI_Gather env sbuf sendcount sendtype rbuf recvcount recvtype root comm =
     andthen (commit_begin env comm) (\<lambda>_.
     let sbuf = in_place_buf env sbuf in
     andthen LOWER_HALF_DISABLE_CKPT (\<lambda>_.
     andthen (real_of env comm) (\<lambda>real_comm.
     andthen (real_of env sendtype) (\<lambda>realSendType.
     andthen (real_of env recvtype) (\<lambda>realRecvType.
     let sbuf = in_place_buf env sbuf in
     andthen (next_func env ''Gather'' [VPtr sbuf, VInt sendcount, VHandle realSendType, VPtr rbuf, VInt recvcount, VHandle realRecvType, VInt root, VHandle real_comm]) (\<lambda>(retval, outs).
     andthen LOWER_HALF_ENABLE_CKPT (\<lambda>_.
     andthen (commit_finish env comm) (\<lambda>_.
     ret retval))))))))"

definition PMPI_Gatherv ::
  "'l env \<Rightarrow> int64 \<Rightarrow> int \<Rightarrow> mana_mpi_handle \<Rightarrow> int64 \<Rightarrow> int list \<Rightarrow> int list \<Rightarrow> mana_mpi_handle \<Rightarrow> int \<Rightarrow> mana_mpi_handle \<Rightarrow> ('l, int) act"
where
  "PMPI_Gatherv env sbuf sendcount sendtype rbuf recvcounts displs recvtype root comm =
     andthen (commit_begin env comm) (\<lambda>_.
     let sbuf = in_place_buf env sbuf in
     andthen LOWER_HALF_DISABLE_CKPT (\<lambda>_.
     andthen (real_of env comm) (\<lambda>real_comm.
     andthen (real_of env sendtype) (\<lambda>realSendType.
     andthen (real_of env recvtype) (\<lambda>realRecvType.
     andthen (next_func env ''Gatherv'' [VPtr sbuf, VInt sendcount, VHandle realSendType, VPtr rbuf, VInts recvcounts, VInts displs, VHandle realRecvType, VInt root, VHandle real_comm]) (\<lambda>(retval, outs).
     andthen LOWER_HALF_ENABLE_CKPT (\<lambda>_.
     andthen (commit_finish env comm) (\<lambda>_.
     ret retval))))))))"

definition PMPI_Scatter ::
  "'l env \<Rightarrow> int64 \<Rightarrow> int \<Rightarrow> mana_mpi_handle \<Rightarrow> int64 \<Rightarrow> int \<Rightarrow> mana_mpi_handle \<Rightarrow> int \<Rightarrow> mana_mpi_handle \<Rightarrow> ('l, int) act"
where
  "PMPI_Scatter env sbuf sendcount sendtype rbuf recvcount recvtype root comm =
     andthen (commit_begin env comm) (\<lambda>_.
     let rbuf = in_place_buf env rbuf in
     andthen LOWER_HALF_DISABLE_CKPT (\<lambda>_.
     andthen (real_of env comm) (\<lambda>real_comm.
     andthen (real_of env sendtype) (\<lambda>realSendType.
     andthen (real_of env recvtype) (\<lambda>realRecvType.
     andthen (next_func env ''Scatter'' [VPtr sbuf, VInt sendcount, VHandle realSendType, VPtr rbuf, VInt recvcount, VHandle realRecvType, VInt root, VHandle real_comm]) (\<lambda>(retval, outs).
     andthen LOWER_HALF_ENABLE_CKPT (\<lambda>_.
     andthen (commit_finish env comm) (\<lambda>_.
     ret retval))))))))"

definition PMPI_Scatterv ::
  "'l env \<Rightarrow> int64 \<Rightarrow> int list \<Rightarrow> int list \<Rightarrow> mana_mpi_handle \<Rightarrow> int64 \<Rightarrow> int \<Rightarrow> mana_mpi_handle \<Rightarrow> int \<Rightarrow> mana_mpi_handle \<Rightarrow> ('l, int) act"
where
  "PMPI_Scatterv env sbuf sendcounts displs sendtype rbuf recvcount recvtype root comm =
     andthen (commit_begin env comm) (\<lambda>_.
     let rbuf = in_place_buf env rbuf in
     andthen LOWER_HALF_DISABLE_CKPT (\<lambda>_.
     andthen (real_of env comm) (\<lambda>real_comm.
     andthen (real_of env sendtype) (\<lambda>realSendType.
     andthen (real_of env recvtype) (\<lambda>realRecvType.
     andthen (next_func env ''Scatterv'' [VPtr sbuf, VInts sendcounts, VInts displs, VHandle realSendType, VPtr rbuf, VInt recvcount, VHandle realRecvType, VInt root, VHandle real_comm]) (\<lambda>(retval, outs).
     andthen LOWER_HALF_ENABLE_CKPT (\<lambda>_.
     andthen (commit_finish env comm) (\<lambda>_.
     ret retval))))))))"

definition PMPI_Allgather ::
  "'l env \<Rightarrow> int64 \<Rightarrow> int \<Rightarrow> mana_mpi_handle \<Rightarrow> int64 \<Rightarrow> int \<Rightarrow> mana_mpi_handle \<Rightarrow> mana_mpi_handle \<Rightarrow> ('l, int) act"
where
  "PMPI_Allgather env sbuf sendcount sendtype rbuf recvcount recvtype comm =
     andthen (commit_begin env comm) (\<lambda>_.
     let sbuf = in_place_buf env sbuf in
     andthen LOWER_HALF_DISABLE_CKPT (\<lambda>_.
     andthen (real_of env comm) (\<lambda>real_comm.
     andthen (real_of env sendtype) (\<lambda>realSendType.
     andthen (real_of env recvtype) (\<lambda>realRecvType.
     andthen (next_func env ''Allgather'' [VPtr sbuf, VInt sendcount, VHandle realSendType, VPtr rbuf, VInt recvcount, VHandle realRecvType, VHandle real_comm]) (\<lambda>(retval, outs).
     andthen LOWER_HALF_ENABLE_CKPT (\<lambda>_.
     andthen (commit_finish env comm) (\<lambda>_.
     ret retval))))))))"

definition PMPI_Allgatherv ::
  "'l env \<Rightarrow> int64 \<Rightarrow> int \<Rightarrow> mana_mpi_handle \<Rightarrow> int64 \<Rightarrow> int list \<Rightarrow> int list \<Rightarrow> mana_mpi_handle \<Rightarrow> mana_mpi_handle \<Rightarrow> ('l, int) act"
where
  "PMPI_Allgatherv env sbuf sendcount sendtype rbuf recvcounts displs recvtype comm =
     andthen (commit_begin env comm) (\<lambda>_.
     let sbuf = in_place_buf env sbuf in
     andthen LOWER_HALF_DISABLE_CKPT (\<lambda>_.
     andthen (real_of env comm) (\<lambda>real_comm.
     andthen (real_of env sendtype) (\<lambda>realSendType.
     andthen (real_of env recvtype) (\<lambda>realRecvType.
     andthen (next_func env ''Allgatherv'' [VPtr sbuf, VInt sendcount, VHandle realSendType, VPtr rbuf, VInts recvcounts, VInts displs, VHandle realRecvType, VHandle real_comm]) (\<lambda>(retval, outs).
     andthen LOWER_HALF_ENABLE_CKPT (\<lambda>_.
     andthen (commit_finish env comm) (\<lambda>_.
     ret retval))))))))"

definition PMPI_Scan ::
  "'l env \<Rightarrow> int64 \<Rightarrow> int64 \<Rightarrow> int \<Rightarrow> mana_mpi_handle \<Rightarrow> mana_mpi_handle \<Rightarrow> mana_mpi_handle \<Rightarrow> ('l, int) act"
where
  "PMPI_Scan env sbuf rbuf cnt datatype op comm =
     andthen (commit_begin env comm) (\<lambda>_.
     andthen LOWER_HALF_DISABLE_CKPT (\<lambda>_.
     andthen (real_of env comm) (\<lambda>real_comm.
     andthen (real_of env datatype) (\<lambda>real_datatype.
     let sbuf = in_place_buf env sbuf in
     andthen (real_of env op) (\<lambda>real_op.
     andthen (next_func env ''Scan'' [VPtr sbuf, VPtr rbuf, VInt cnt, VHandle real_datatype, VHandle real_op, VHandle real_comm]) (\<lambda>(retval, outs).
     andthen LOWER_HALF_ENABLE_CKPT (\<lambda>_.
     andthen (commit_finish env comm) (\<lambda>_.
     ret retval))))))))"

definition PMPI_Iallreduce ::
  "'l env \<Rightarrow> int64 \<Rightarrow> int64 \<Rightarrow> int \<Rightarrow> mana_mpi_handle \<Rightarrow> mana_mpi_handle \<Rightarrow> mana_mpi_handle \<Rightarrow> ('l, int \<times> mana_mpi_handle) act"
where
  "PMPI_Iallreduce env sbuf rbuf cnt datatype op comm =
     andthen (commit_begin env comm) (\<lambda>_.
     andthen LOWER_HALF_DISABLE_CKPT (\<lambda>_.
     andthen (real_of env comm) (\<lambda>real_comm.
     andthen (real_of env datatype) (\<lambda>real_datatype.
     andthen (real_of env op) (\<lambda>real_op.
     let sbuf = in_place_buf env sbuf in
     andthen (next_func env ''Iallreduce'' [VPtr sbuf, VPtr rbuf, VInt cnt, VHandle real_datatype, VHandle real_op, VHandle real_comm]) (\<lambda>(retval, outs).
     andthen (collective_request env retval outs) (\<lambda>request.
     andthen LOWER_HALF_ENABLE_CKPT (\<lambda>_.
     andthen (commit_finish env comm) (\<lambda>_.
     ret (retval, request))))))))))"

definition PMPI_Ireduce_scatter ::
  "'l env \<Rightarrow> int64 \<Rightarrow> int64 \<Rightarrow> int list \<Rightarrow> mana_mpi_handle \<Rightarrow> mana_mpi_handle \<Rightarrow> mana_mpi_handle \<Rightarrow> ('l, int \<times> mana_mpi_handle) act"
where
  "PMPI_Ireduce_scatter env sbuf rbuf recvcounts datatype op comm =
     andthen (commit_begin env comm) (\<lambda>_.
     andthen LOWER_HALF_DISABLE_CKPT (\<lambda>_.
     andthen (real_of env comm) (\<lambda>real_comm.
     andthen (real_of env datatype) (\<lambda>real_datatype.
     andthen (real_of env op) (\<lambda>real_op.
     let sbuf = in_place_buf env sbuf in
     andthen (next_func env ''Ireduce_scatter'' [VPtr sbuf, VPtr rbuf, VInts recvcounts, VHandle real_datatype, VHandle real_op, VHandle real_comm]) (\<lambda>(retval, outs).
     andthen (collective_request env retval outs) (\<lambda>request.
     andthen LOWER_HALF_ENABLE_CKPT (\<lambda>_.
     andthen (commit_finish env comm) (\<lambda>_.
     ret (retval, request))))))))))"

definition PMPI_Iscan ::
  "'l env \<Rightarrow> int64 \<Rightarrow> int64 \<Rightarrow> int \<Rightarrow> mana_mpi_handle \<Rightarrow> mana_mpi_handle \<Rightarrow> mana_mpi_handle \<Rightarrow> ('l, int \<times> mana_mpi_handle) act"
where
  "PMPI_Iscan env sbuf rbuf cnt datatype op comm =
     andthen (commit_begin env comm) (\<lambda>_.
     andthen LOWER_HALF_DISABLE_CKPT (\<lambda>_.
     andthen (real_of env comm) (\<lambda>real_comm.
     andthen (real_of env datatype) (\<lambda>real_datatype.
     andthen (real_of env op) (\<lambda>real_op.
     let sbuf = in_place_buf env sbuf in
     andthen (next_func env ''Iscan'' [VPtr sbuf, VPtr rbuf, VInt cnt, VHandle real_datatype, VHandle real_op, VHandle real_comm]) (\<lambda>(retval, outs).
     andthen (collective_request env retval outs) (\<lambda>request.
     andthen LOWER_HALF_ENABLE_CKPT (\<lambda>_.
     andthen (commit_finish env comm) (\<lambda>_.
     ret (retval, request))))))))))"

definition PMPI_Ialltoall ::
  "'l env \<Rightarrow> int64 \<Rightarrow> int \<Rightarrow> mana_mpi_handle \<Rightarrow> int64 \<Rightarrow> int \<Rightarrow> mana_mpi_handle \<Rightarrow> mana_mpi_handle \<Rightarrow> ('l, int \<times> mana_mpi_handle) act"
where
  "PMPI_Ialltoall env sbuf sendcount sendtype rbuf recvcount recvtype comm =
     andthen (commit_begin env comm) (\<lambda>_.
     andthen LOWER_HALF_DISABLE_CKPT (\<lambda>_.
     andthen (real_of env comm) (\<lambda>real_comm.
     andthen (real_of env sendtype) (\<lambda>realSendType.
     andthen (real_of env recvtype) (\<lambda>realRecvType.
     let sbuf = in_place_buf env sbuf in
     andthen (next_func env ''Ialltoall'' [VPtr sbuf, VInt sendcount, VHandle realSendType, VPtr rbuf, VInt recvcount, VHandle realRecvType, VHandle real_comm]) (\<lambda>(retval, outs).
     andthen (collective_request env retval outs) (\<lambda>request.
     andthen LOWER_HALF_ENABLE_CKPT (\<lambda>_.
     andthen (commit_finish env comm) (\<lambda>_.
     ret (retval, request))))))))))"

definition PMPI_Ialltoallv ::
  "'l env \<Rightarrow> int64 \<Rightarrow> int list \<Rightarrow> int list \<Rightarrow> mana_mpi_handle \<Rightarrow> int64 \<Rightarrow> int list \<Rightarrow> int list \<Rightarrow> mana_mpi_handle \<Rightarrow> mana_mpi_handle \<Rightarrow> ('l, int \<times> mana_mpi_handle) act"
where
  "PMPI_Ialltoallv env sbuf sendcounts sdispls sendtype rbuf recvcounts rdispls recvtype comm =
     andthen (commit_begin env comm) (\<lambda>_.
     andthen LOWER_HALF_DISABLE_CKPT (\<lambda>_.
     andthen (real_of env comm) (\<lambda>real_comm.
     andthen (real_of env sendtype) (\<lambda>realSendType.
     andthen (real_of env recvtype) (\<lambda>realRecvType.
     let sbuf = in_place_buf env sbuf in
     andthen (next_func env ''Ialltoallv'' [VPtr sbuf, VInts sendcounts, VInts sdispls, VHandle realSendType, VPtr rbuf, VInts recvcounts, VInts rdispls, VHandle realRecvType, VHandle real_comm]) (\<lambda>(retval, outs).
     andthen (collective_request env retval outs) (\<lambda>request.
     andthen LOWER_HALF_ENABLE_CKPT (\<lambda>_.
     andthen (commit_finish env comm) (\<lambda>_.
     ret (retval, request))))))))))"

definition PMPI_Iallgather ::
  "'l env \<Rightarrow> int64 \<Rightarrow> int \<Rightarrow> mana_mpi_handle \<Rightarrow> int64 \<Rightarrow> int \<Rightarrow> mana_mpi_handle \<Rightarrow> mana_mpi_handle \<Rightarrow> ('l, int \<times> mana_mpi_handle) act"
where
  "PMPI_Iallgather env sbuf sendcount sendtype rbuf recvcount recvtype comm =
     andthen (commit_begin env comm) (\<lambda>_.
     andthen LOWER_HALF_DISABLE_CKPT (\<lambda>_.
     andthen (real_of env comm) (\<lambda>real_comm.
     andthen (real_of env sendtype) (\<lambda>realSendType.
     andthen (real_of env recvtype) (\<lambda>realRecvType.
     let sbuf = in_place_buf env sbuf in
     andthen (next_func env ''Iallgather'' [VPtr sbuf, VInt sendcount, VHandle realSendType, VPtr rbuf, VInt recvcount, VHandle realRecvType, VHandle real_comm]) (\<lambda>(retval, outs).
     andthen (collective_request env retval outs) (\<lambda>request.
     andthen LOWER_HALF_ENABLE_CKPT (\<lambda>_.
     andthen (commit_finish env comm) (\<lambda>_.
     ret (retval, request))))))))))"

definition PMPI_Iallgatherv ::
  "'l env \<Rightarrow> int64 \<Rightarrow> int \<Rightarrow> mana_mpi_handle \<Rightarrow> int64 \<Rightarrow> int list \<Rightarrow> int list \<Rightarrow> mana_mpi_handle \<Rightarrow> mana_mpi_handle \<Rightarrow> ('l, int \<times> mana_mpi_handle) act"
where
  "PMPI_Iallgatherv env sbuf sendcount sendtype rbuf recvcounts displs recvtype comm =
     andthen (commit_begin env comm) (\<lambda>_.
     andthen LOWER_HALF_DISABLE_CKPT (\<lambda>_.
     andthen (real_of env comm) (\<lambda>real_comm.
     andthen (real_of env sendtype) (\<lambda>realSendType.
     andthen (real_of env recvtype) (\<lambda>realRecvType.
     let sbuf = in_place_buf env sbuf in
     andthen (next_func env ''Iallgatherv'' [VPtr sbuf, VInt sendcount, VHandle realSendType, VPtr rbuf, VInts recvcounts, VInts displs, VHandle realRecvType, VHandle real_comm]) (\<lambda>(retval, outs).
     andthen (collective_request env retval outs) (\<lambda>request.
     andthen LOWER_HALF_ENABLE_CKPT (\<lambda>_.
     andthen (commit_finish env comm) (\<lambda>_.
     ret (retval, request))))))))))"

definition PMPI_Igather ::
  "'l env \<Rightarrow> int64 \<Rightarrow> int \<Rightarrow> mana_mpi_handle \<Rightarrow> int64 \<Rightarrow> int \<Rightarrow> mana_mpi_handle \<Rightarrow> int \<Rightarrow> mana_mpi_handle \<Rightarrow> ('l, int \<times> mana_mpi_handle) act"
where
  "PMPI_Igather env sbuf sendcount sendtype rbuf recvcount recvtype root comm =
     andthen (commit_begin env comm) (\<lambda>_.
     andthen LOWER_HALF_DISABLE_CKPT (\<lambda>_.
     andthen (real_of env comm) (\<lambda>real_comm.
     andthen (real_of env sendtype) (\<lambda>realSendType.
     andthen (real_of env recvtype) (\<lambda>realRecvType.
     let sbuf = in_place_buf env sbuf in
     andthen (next_func env ''Igather'' [VPtr sbuf, VInt sendcount, VHandle realSendType, VPtr rbuf, VInt recvcount, VHandle realRecvType, VInt root, VHandle real_comm]) (\<lambda>(retval, outs).
     andthen (collective_request env retval outs) (\<lambda>request.
     andthen LOWER_HALF_ENABLE_CKPT (\<lambda>_.
     andthen (commit_finish env comm) (\<lambda>_.
     ret (retval, request))))))))))"

definition PMPI_Igatherv ::
  "'l env \<Rightarrow> int64 \<Rightarrow> int \<Rightarrow> mana_mpi_handle \<Rightarrow> int64 \<Rightarrow> int list \<Rightarrow> int list \<Rightarrow> mana_mpi_handle \<Rightarrow> int \<Rightarrow> mana_mpi_handle \<Rightarrow> ('l, int \<times> mana_mpi_handle) act"
where
  "PMPI_Igatherv env sbuf sendcount sendtype rbuf recvcounts displs recvtype root comm =
     andthen (commit_begin env comm) (\<lambda>_.
     andthen LOWER_HALF_DISABLE_CKPT (\<lambda>_.
     andthen (real_of env comm) (\<lambda>real_comm.
     andthen (real_of env sendtype) (\<lambda>realSendType.
     andthen (real_of env recvtype) (\<lambda>realRecvType.
     let sbuf = in_place_buf env sbuf in
     andthen (next_func env ''Igatherv'' [VPtr sbuf, VInt sendcount, VHandle realSendType, VPtr rbuf, VInts recvcounts, VInts displs, VHandle realRecvType, VInt root, VHandle real_comm]) (\<lambda>(retval, outs).
     andthen (collective_request env retval outs) (\<lambda>request.
     andthen LOWER_HALF_ENABLE_CKPT (\<lambda>_.
     andthen (commit_finish env comm) (\<lambda>_.
     ret (retval, request))))))))))"

definition PMPI_Iscatter ::
  "'l env \<Rightarrow> int64 \<Rightarrow> int \<Rightarrow> mana_mpi_handle \<Rightarrow> int64 \<Rightarrow> int \<Rightarrow> mana_mpi_handle \<Rightarrow> int \<Rightarrow> mana_mpi_handle \<Rightarrow> ('l, int \<times> mana_mpi_handle) act"
where
  "PMPI_Iscatter env sbuf sendcount sendtype rbuf recvcount recvtype root comm =
     andthen (commit_begin env comm) (\<lambda>_.
     andthen LOWER_HALF_DISABLE_CKPT (\<lambda>_.
     andthen (real_of env comm) (\<lambda>real_comm.
     andthen (real_of env sendtype) (\<lambda>realSendType.
     andthen (real_of env recvtype) (\<lambda>realRecvType.
     let rbuf = in_place_buf env rbuf in
     andthen (next_func env ''Iscatter'' [VPtr sbuf, VInt sendcount, VHandle realSendType, VPtr rbuf, VInt recvcount, VHandle realRecvType, VInt root, VHandle real_comm]) (\<lambda>(retval, outs).
     andthen (collective_request env retval outs) (\<lambda>request.
     andthen LOWER_HALF_ENABLE_CKPT (\<lambda>_.
     andthen (commit_finish env comm) (\<lambda>_.
     ret (retval, request))))))))))"

definition PMPI_Iscatterv ::
  "'l env \<Rightarrow> int64 \<Rightarrow> int list \<Rightarrow> int list \<Rightarrow> mana_mpi_handle \<Rightarrow> int64 \<Rightarrow> int \<Rightarrow> mana_mpi_handle \<Rightarrow> int \<Rightarrow> mana_mpi_handle \<Rightarrow> ('l, int \<times> mana_mpi_handle) act"
where
  "PMPI_Iscatterv env sbuf sendcounts displs sendtype rbuf recvcount recvtype root comm =
     andthen (commit_begin env comm) (\<lambda>_.
     andthen LOWER_HALF_DISABLE_CKPT (\<lambda>_.
     andthen (real_of env comm) (\<lambda>real_comm.
     andthen (real_of env sendtype) (\<lambda>realSendType.
     andthen (real_of env recvtype) (\<lambda>realRecvType.
     let rbuf = in_place_buf env rbuf in
     andthen (next_func env ''Iscatterv'' [VPtr sbuf, VInts sendcounts, VInts displs, VHandle realSendType, VPtr rbuf, VInt recvcount, VHandle realRecvType, VInt root, VHandle real_comm]) (\<lambda>(retval, outs).
     andthen (collective_request env retval outs) (\<lambda>request.
     andthen LOWER_HALF_ENABLE_CKPT (\<lambda>_.
     andthen (commit_finish env comm) (\<lambda>_.
     ret (retval, request))))))))))"

definition MPI_Alltoall_internal ::
  "'l env \<Rightarrow> int64 \<Rightarrow> int \<Rightarrow> mana_mpi_handle \<Rightarrow> int64 \<Rightarrow> int \<Rightarrow> mana_mpi_handle \<Rightarrow> mana_mpi_handle \<Rightarrow> ('l, int) act"
where
  "MPI_Alltoall_internal env sbuf sendcount sendtype rbuf recvcount recvtype comm =
     andthen LOWER_HALF_DISABLE_CKPT (\<lambda>_.
     andthen (real_of env comm) (\<lambda>real_comm.
     andthen (real_of env sendtype) (\<lambda>realSendType.
     andthen (real_of env recvtype) (\<lambda>realRecvType.
     let sbuf = in_place_buf env sbuf in
     andthen (next_func env ''Alltoall'' [VPtr sbuf, VInt sendcount, VHandle realSendType, VPtr rbuf, VInt recvcount, VHandle realRecvType, VHandle real_comm]) (\<lambda>(retval, outs).
     andthen LOWER_HALF_ENABLE_CKPT (\<lambda>_.
     ret retval))))))"

definition PMPI_Alltoall ::
  "'l env \<Rightarrow> int64 \<Rightarrow> int \<Rightarrow> mana_mpi_handle \<Rightarrow> int64 \<Rightarrow> int \<Rightarrow> mana_mpi_handle \<Rightarrow> mana_mpi_handle \<Rightarrow> ('l, int) act"
where
  "PMPI_Alltoall env sbuf sendcount sendtype rbuf recvcount recvtype comm =
     andthen (commit_begin env comm) (\<lambda>_.
     andthen (MPI_Alltoall_internal env sbuf sendcount sendtype rbuf recvcount recvtype comm) (\<lambda>retval.
     andthen (commit_finish env comm) (\<lambda>_.
     ret retval)))"

text \<open>The result of a call that makes a communicator.\<close>

definition created_comm :: "'l env \<Rightarrow> int \<Rightarrow> lval list \<Rightarrow> ('l, mana_mpi_handle) act" where
  "created_comm env retval outs =
     (let newcomm = the_handle outs 0
      in if retval = MPI_SUCCESS
         then if newcomm = lower_const env ''COMM_NULL'' then ret (MPI_COMM_NULL env) else new_virt_comm env newcomm
         else ret newcomm)"

definition PMPI_Comm_split :: "'l env \<Rightarrow> mana_mpi_handle \<Rightarrow> int \<Rightarrow> int \<Rightarrow> ('l, int \<times> mana_mpi_handle) act" where
  "PMPI_Comm_split env comm color key =
     andthen (commit_begin env comm) (\<lambda>_.
     andthen LOWER_HALF_DISABLE_CKPT (\<lambda>_.
     andthen (real_of env comm) (\<lambda>real_comm.
     andthen (next_func env ''Comm_split'' [VHandle real_comm, VInt color, VInt key]) (\<lambda>(retval, outs).
     andthen (created_comm env retval outs) (\<lambda>newcomm.
     andthen LOWER_HALF_ENABLE_CKPT (\<lambda>_.
     andthen (commit_finish env comm) (\<lambda>_.
     ret (retval, newcomm))))))))"

section \<open>Blocking collectives\<close>

text \<open>All the wrappers of blocking collectives, with the arguments they need.\<close>

definition blocking_collectives ::
  "'l env \<Rightarrow> int64 \<Rightarrow> int64 \<Rightarrow> int \<Rightarrow> int \<Rightarrow> int list \<Rightarrow> int list \<Rightarrow> int list \<Rightarrow> int list \<Rightarrow> mana_mpi_handle \<Rightarrow> mana_mpi_handle \<Rightarrow>
   mana_mpi_handle \<Rightarrow> int \<Rightarrow> mana_mpi_handle \<Rightarrow> ('l, int) act list"
where
  "blocking_collectives env sbuf rbuf n m ns ms ds es stype rtype op root comm =
     [PMPI_Bcast env sbuf n stype root comm,
      PMPI_Barrier env comm,
      PMPI_Allreduce env sbuf rbuf n stype op comm,
      PMPI_Reduce env sbuf rbuf n stype op root comm,
      PMPI_Reduce_scatter env sbuf rbuf ns stype op comm,
      PMPI_Alltoall env sbuf n stype rbuf m rtype comm,
      PMPI_Alltoallv env sbuf ns ds stype rbuf ms es rtype comm,
      PMPI_Gather env sbuf n stype rbuf m rtype root comm,
      PMPI_Gatherv env sbuf n stype rbuf ms es rtype root comm,
      PMPI_Scatter env sbuf n stype rbuf m rtype root comm,
      PMPI_Scatterv env sbuf ns ds stype rbuf m rtype root comm,
      PMPI_Allgather env sbuf n stype rbuf m rtype comm,
      PMPI_Allgatherv env sbuf n stype rbuf ms es rtype comm,
      PMPI_Scan env sbuf rbuf n stype op comm]"

text \<open>What a blocking collective does: one call of the MPI library on the real communicator, between the
  entry and the exit of a critical section.  Nothing else of the process changes.\<close>

definition one_counted_call :: "'l env \<Rightarrow> mana_mpi_handle \<Rightarrow> 'l proc \<Rightarrow> int \<Rightarrow> 'l proc \<Rightarrow> bool" where
  "one_counted_call env comm s r t \<longleftrightarrow>
     \<not> must_wait (ccs s) \<and>
     (\<exists>real f args outs l.
        get_real_id (wide_handles env) (ctab s) (vtab s) comm = Ok real \<and> VHandle real \<in> set args \<and>
        lib env f args (low s) = ((r, outs), l) \<and>
        t = s \<lparr> ccs := commit_finish_phase (begin_critical_section (clock_of env comm s) (ccs s)), low := l \<rparr>)"

lemmas blocking_defs = PMPI_Bcast_def PMPI_Barrier_def PMPI_Allreduce_def PMPI_Reduce_def PMPI_Reduce_scatter_def
  PMPI_Alltoall_def MPI_Alltoall_internal_def PMPI_Alltoallv_def PMPI_Gather_def PMPI_Gatherv_def PMPI_Scatter_def
  PMPI_Scatterv_def PMPI_Allgather_def PMPI_Allgatherv_def PMPI_Scan_def

lemma counted_callI:
  assumes "\<not> must_wait (ccs s)" and "get_real_id (wide_handles env) (ctab s) (vtab s) comm = Ok real"
    and "r = fst (fst (lib env f args (low s)))" and "VHandle real \<in> set args"
    and "t = s \<lparr> low := snd (lib env f args (low s)),
                ccs := commit_finish_phase (begin_critical_section (clock_of env comm s) (ccs s)) \<rparr>"
  shows "one_counted_call env comm s r t"
  using assms unfolding one_counted_call_def
  by (intro conjI exI [of _ real] exI [of _ f] exI [of _ args] exI [of _ "snd (fst (lib env f args (low s)))"]
      exI [of _ "snd (lib env f args (low s))"]) simp_all



end
