(* ===== verification/Object_Wrappers.thy ===== *)
theory Object_Wrappers
  imports Collective_Wrappers
begin

text \<open>
  The wrappers of groups, operations and Cartesian topologies (\<^verbatim>\<open>mpi_group_wrappers.cpp\<close>,
  \<^verbatim>\<open>mpi_op_wrappers.cpp\<close>, \<^verbatim>\<open>mpi_cart_wrappers.cpp\<close>).  A query translates its handles and returns the return code
  and the outputs of the library; a constructor virtualizes the new object.
\<close>

section \<open>Groups\<close>

definition virtual_group :: "'l env \<Rightarrow> mana_mpi_handle \<Rightarrow> ('l, mana_mpi_handle) act" where
  "virtual_group env grp =
     (if grp = lower_const env ''GROUP_NULL'' then ret (upper_const env ''GROUP_NULL'') else new_virt_group env grp)"

text \<open>\<open>grp0\<close> is the value of the output argument before the call, which a failed call leaves there.\<close>

definition PMPI_Comm_group ::
  "'l env \<Rightarrow> mana_mpi_handle \<Rightarrow> mana_mpi_handle \<Rightarrow> ('l, int \<times> mana_mpi_handle) act"
where
  "PMPI_Comm_group env comm grp0 =
     andthen LOWER_HALF_DISABLE_CKPT (\<lambda>_.
     andthen (real_of env comm) (\<lambda>real_comm.
     andthen (next_func env ''Comm_group'' [VHandle real_comm]) (\<lambda>(retval, outs).
     andthen (virtual_group env (if outs = [] then grp0 else the_handle outs 0)) (\<lambda>grp.
     andthen LOWER_HALF_ENABLE_CKPT (\<lambda>_.
     ret (retval, grp))))))"

definition PMPI_Group_free :: "'l env \<Rightarrow> mana_mpi_handle \<Rightarrow> ('l, int \<times> mana_mpi_handle) act" where
  "PMPI_Group_free env grp =
     andthen LOWER_HALF_DISABLE_CKPT (\<lambda>_.
     andthen (free_virt env grp) (\<lambda>_.
     andthen LOWER_HALF_ENABLE_CKPT (\<lambda>_.
     ret (MPI_SUCCESS, upper_const env ''GROUP_NULL''))))"

definition PMPI_Group_incl ::
  "'l env \<Rightarrow> mana_mpi_handle \<Rightarrow> int \<Rightarrow> int list \<Rightarrow> ('l, int \<times> mana_mpi_handle) act"
where
  "PMPI_Group_incl env grp n ranks =
     andthen LOWER_HALF_DISABLE_CKPT (\<lambda>_.
     andthen (real_of env grp) (\<lambda>real_group.
     andthen (next_func env ''Group_incl'' [VHandle real_group, VInt n, VInts (take (nat n) ranks)]) (\<lambda>(retval, outs).
     andthen (let newgroup = the_handle outs 0
              in if retval = MPI_SUCCESS then virtual_group env newgroup else ret newgroup) (\<lambda>newgroup.
     andthen LOWER_HALF_ENABLE_CKPT (\<lambda>_.
     ret (retval, newgroup))))))"

definition PMPI_Group_size :: "'l env \<Rightarrow> mana_mpi_handle \<Rightarrow> ('l, int \<times> lval list) act" where
  "PMPI_Group_size env grp =
     andthen LOWER_HALF_DISABLE_CKPT (\<lambda>_.
     andthen (real_of env grp) (\<lambda>real_grp.
     andthen (next_func env ''Group_size'' [VHandle real_grp]) (\<lambda>(retval, outs).
     andthen LOWER_HALF_ENABLE_CKPT (\<lambda>_.
     ret (retval, outs)))))"

definition PMPI_Group_compare :: "'l env \<Rightarrow> mana_mpi_handle \<Rightarrow> mana_mpi_handle \<Rightarrow> ('l, int \<times> lval list) act" where
  "PMPI_Group_compare env group1 group2 =
     andthen LOWER_HALF_DISABLE_CKPT (\<lambda>_.
     andthen (real_of env group1) (\<lambda>real_group1.
     andthen (real_of env group2) (\<lambda>real_group2.
     andthen (next_func env ''Group_compare'' [VHandle real_group1, VHandle real_group2]) (\<lambda>(retval, outs).
     andthen LOWER_HALF_ENABLE_CKPT (\<lambda>_.
     ret (retval, outs))))))"

definition PMPI_Group_rank :: "'l env \<Rightarrow> mana_mpi_handle \<Rightarrow> ('l, int \<times> lval list) act" where
  "PMPI_Group_rank env grp =
     andthen LOWER_HALF_DISABLE_CKPT (\<lambda>_.
     andthen (real_of env grp) (\<lambda>real_grp.
     andthen (next_func env ''Group_rank'' [VHandle real_grp]) (\<lambda>(retval, outs).
     andthen LOWER_HALF_ENABLE_CKPT (\<lambda>_.
     ret (retval, outs)))))"

definition PMPI_Group_translate_ranks :: "'l env \<Rightarrow> mana_mpi_handle \<Rightarrow> int \<Rightarrow> int list \<Rightarrow> mana_mpi_handle \<Rightarrow> ('l, int \<times> lval list) act" where
  "PMPI_Group_translate_ranks env group1 n ranks1 group2 =
     andthen LOWER_HALF_DISABLE_CKPT (\<lambda>_.
     andthen (real_of env group1) (\<lambda>real_group1.
     andthen (real_of env group2) (\<lambda>real_group2.
     andthen (next_func env ''Group_translate_ranks'' [VHandle real_group1, VInt n, VInts ranks1, VHandle real_group2]) (\<lambda>(retval, outs).
     andthen LOWER_HALF_ENABLE_CKPT (\<lambda>_.
     ret (retval, outs))))))"

section \<open>Operations\<close>

definition set_op_desc :: "mana_op_desc \<Rightarrow> virt_id_entry \<Rightarrow> virt_id_entry" where
  "set_op_desc d e = e \<lparr> desc := OpDesc d \<rparr>"

definition PMPI_Op_create :: "'l env \<Rightarrow> int64 \<Rightarrow> int \<Rightarrow> ('l, int \<times> mana_mpi_handle) act" where
  "PMPI_Op_create env fn comm_flag =
     andthen LOWER_HALF_DISABLE_CKPT (\<lambda>_.
     andthen (next_func env ''Op_create'' [VPtr fn, VInt comm_flag]) (\<lambda>(retval, outs).
     andthen (let op = the_handle outs 0
              in if retval = MPI_SUCCESS
                 then andthen (new_virt_op op) (\<lambda>op.
                      andthen (update_entry env op (set_op_desc \<lparr> user_fn = fn, commute = comm_flag \<rparr>)) (\<lambda>_.
                      ret op))
                 else ret op) (\<lambda>op.
     andthen LOWER_HALF_ENABLE_CKPT (\<lambda>_.
     ret (retval, op)))))"

text \<open>The argument of the code is a pointer to the handle, which is not null here.\<close>

definition PMPI_Op_free :: "'l env \<Rightarrow> mana_mpi_handle \<Rightarrow> ('l, int \<times> mana_mpi_handle) act" where
  "PMPI_Op_free env op =
     andthen LOWER_HALF_DISABLE_CKPT (\<lambda>_.
     andthen (real_of env op) (\<lambda>real_op.
     andthen (next_func env ''Op_free'' [VHandle real_op]) (\<lambda>(retval, outs).
     andthen (if retval = MPI_SUCCESS
              then andthen (free_virt env op) (\<lambda>_. ret (upper_const env ''OP_NULL''))
              else ret op) (\<lambda>op.
     andthen LOWER_HALF_ENABLE_CKPT (\<lambda>_.
     ret (retval, op))))))"

definition PMPI_Reduce_local :: "'l env \<Rightarrow> int64 \<Rightarrow> int64 \<Rightarrow> int \<Rightarrow> mana_mpi_handle \<Rightarrow> mana_mpi_handle \<Rightarrow> ('l, int \<times> lval list) act" where
  "PMPI_Reduce_local env inbuf inoutbuf count datatype op =
     andthen LOWER_HALF_DISABLE_CKPT (\<lambda>_.
     andthen (real_of env datatype) (\<lambda>real_datatype.
     andthen (real_of env op) (\<lambda>real_op.
     andthen (next_func env ''Reduce_local'' [VPtr inbuf, VPtr inoutbuf, VInt count, VHandle real_datatype, VHandle real_op]) (\<lambda>(retval, outs).
     andthen LOWER_HALF_ENABLE_CKPT (\<lambda>_.
     ret (retval, outs))))))"

section \<open>Cartesian topologies\<close>

definition PMPI_Cart_coords :: "'l env \<Rightarrow> mana_mpi_handle \<Rightarrow> int \<Rightarrow> int \<Rightarrow> ('l, int \<times> lval list) act" where
  "PMPI_Cart_coords env comm rank maxdims =
     andthen LOWER_HALF_DISABLE_CKPT (\<lambda>_.
     andthen (real_of env comm) (\<lambda>real_comm.
     andthen (next_func env ''Cart_coords'' [VHandle real_comm, VInt rank, VInt maxdims]) (\<lambda>(retval, outs).
     andthen LOWER_HALF_ENABLE_CKPT (\<lambda>_.
     ret (retval, outs)))))"

definition PMPI_Cart_get :: "'l env \<Rightarrow> mana_mpi_handle \<Rightarrow> int \<Rightarrow> ('l, int \<times> lval list) act" where
  "PMPI_Cart_get env comm maxdims =
     andthen LOWER_HALF_DISABLE_CKPT (\<lambda>_.
     andthen (real_of env comm) (\<lambda>real_comm.
     andthen (next_func env ''Cart_get'' [VHandle real_comm, VInt maxdims]) (\<lambda>(retval, outs).
     andthen LOWER_HALF_ENABLE_CKPT (\<lambda>_.
     ret (retval, outs)))))"

definition PMPI_Cart_map :: "'l env \<Rightarrow> mana_mpi_handle \<Rightarrow> int \<Rightarrow> int list \<Rightarrow> int list \<Rightarrow> ('l, int \<times> lval list) act" where
  "PMPI_Cart_map env comm ndims dims periods =
     andthen LOWER_HALF_DISABLE_CKPT (\<lambda>_.
     andthen (real_of env comm) (\<lambda>real_comm.
     andthen (next_func env ''Cart_map'' [VHandle real_comm, VInt ndims, VInts dims, VInts periods]) (\<lambda>(retval, outs).
     andthen LOWER_HALF_ENABLE_CKPT (\<lambda>_.
     ret (retval, outs)))))"

definition PMPI_Cart_rank :: "'l env \<Rightarrow> mana_mpi_handle \<Rightarrow> int list \<Rightarrow> ('l, int \<times> lval list) act" where
  "PMPI_Cart_rank env comm coords =
     andthen LOWER_HALF_DISABLE_CKPT (\<lambda>_.
     andthen (real_of env comm) (\<lambda>real_comm.
     andthen (next_func env ''Cart_rank'' [VHandle real_comm, VInts coords]) (\<lambda>(retval, outs).
     andthen LOWER_HALF_ENABLE_CKPT (\<lambda>_.
     ret (retval, outs)))))"

definition PMPI_Cart_shift :: "'l env \<Rightarrow> mana_mpi_handle \<Rightarrow> int \<Rightarrow> int \<Rightarrow> ('l, int \<times> lval list) act" where
  "PMPI_Cart_shift env comm direction disp =
     andthen LOWER_HALF_DISABLE_CKPT (\<lambda>_.
     andthen (real_of env comm) (\<lambda>real_comm.
     andthen (next_func env ''Cart_shift'' [VHandle real_comm, VInt direction, VInt disp]) (\<lambda>(retval, outs).
     andthen LOWER_HALF_ENABLE_CKPT (\<lambda>_.
     ret (retval, outs)))))"

definition PMPI_Cartdim_get :: "'l env \<Rightarrow> mana_mpi_handle \<Rightarrow> ('l, int \<times> lval list) act" where
  "PMPI_Cartdim_get env comm =
     andthen LOWER_HALF_DISABLE_CKPT (\<lambda>_.
     andthen (real_of env comm) (\<lambda>real_comm.
     andthen (next_func env ''Cartdim_get'' [VHandle real_comm]) (\<lambda>(retval, outs).
     andthen LOWER_HALF_ENABLE_CKPT (\<lambda>_.
     ret (retval, outs)))))"

definition PMPI_Dims_create :: "'l env \<Rightarrow> int \<Rightarrow> int \<Rightarrow> int list \<Rightarrow> ('l, int \<times> lval list) act" where
  "PMPI_Dims_create env nnodes ndims dims =
     andthen LOWER_HALF_DISABLE_CKPT (\<lambda>_.
     andthen (next_func env ''Dims_create'' [VInt nnodes, VInt ndims, VInts dims]) (\<lambda>(retval, outs).
     andthen LOWER_HALF_ENABLE_CKPT (\<lambda>_.
     ret (retval, outs))))"

definition new_cart_comm :: "'l env \<Rightarrow> int \<Rightarrow> lval list \<Rightarrow> ('l, mana_mpi_handle) act" where
  "new_cart_comm env retval outs =
     (let newcomm = the_handle outs 0
      in if retval = MPI_SUCCESS then new_virt_comm env newcomm else ret newcomm)"

definition PMPI_Cart_sub :: "'l env \<Rightarrow> mana_mpi_handle \<Rightarrow> int list \<Rightarrow> ('l, int \<times> mana_mpi_handle) act" where
  "PMPI_Cart_sub env comm remain_dims =
     andthen (commit_begin env comm) (\<lambda>_.
     andthen LOWER_HALF_DISABLE_CKPT (\<lambda>_.
     andthen (real_of env comm) (\<lambda>realComm.
     andthen (next_func env ''Cart_sub'' [VHandle realComm, VInts remain_dims]) (\<lambda>(retval, outs).
     andthen (new_cart_comm env retval outs) (\<lambda>new_comm.
     andthen LOWER_HALF_ENABLE_CKPT (\<lambda>_.
     andthen (commit_finish env comm) (\<lambda>_.
     ret (retval, new_comm))))))))"

text \<open>The ranks are never reordered.\<close>

definition PMPI_Cart_create ::
  "'l env \<Rightarrow> mana_mpi_handle \<Rightarrow> int \<Rightarrow> int list \<Rightarrow> int list \<Rightarrow> int \<Rightarrow> ('l, int \<times> mana_mpi_handle) act"
where
  "PMPI_Cart_create env old_comm ndims dims periods reorder =
     (let reorder = 0 in
     andthen (commit_begin env old_comm) (\<lambda>_.
     andthen LOWER_HALF_DISABLE_CKPT (\<lambda>_.
     andthen (real_of env old_comm) (\<lambda>realComm.
     andthen (next_func env ''Cart_create''
                [VHandle realComm, VInt ndims, VInts dims, VInts periods, VInt reorder]) (\<lambda>(retval, outs).
     andthen (new_cart_comm env retval outs) (\<lambda>comm_cart.
     andthen LOWER_HALF_ENABLE_CKPT (\<lambda>_.
     andthen (commit_finish env old_comm) (\<lambda>_.
     ret (retval, comm_cart)))))))))"

end
