(* ===== verification/Reconstruct.thy ===== *)
theory Reconstruct
  imports Type_Wrappers Object_Wrappers "HOL-Library.Product_Lexorder"
begin

text \<open>
  The objects of the application made again in a new lower half (\<^verbatim>\<open>reconstruct_descriptors\<close> and its cases in
  \<^verbatim>\<open>virtual_id.cpp\<close>), from the descriptors that the wrappers recorded.  An entry is named by its slot.
\<close>

section \<open>Communicators, groups and operations\<close>

definition set_real :: "nat \<Rightarrow> mana_mpi_handle \<Rightarrow> ('l, unit) act" where
  "set_real slot real = modify (with_entry slot (\<lambda>e. e \<lparr> real_id := real \<rparr>))"

definition reconstruct_comm_desc :: "'l env \<Rightarrow> nat \<Rightarrow> mana_comm_desc \<Rightarrow> ('l, unit) act" where
  "reconstruct_comm_desc env slot d =
     andthen (gets (\<lambda>s. g_world_group (ctab s))) (\<lambda>world_group.
     andthen (next_func env ''Group_incl'' [VHandle world_group, VInt (cd_size d), VInts (cd_global_ranks d)])
       (\<lambda>(rc, o1). let grp = the_handle o1 0 in
     andthen (next_func env ''Comm_create_group'' [VHandle (lower_const env ''COMM_WORLD''), VHandle grp, VInt 0])
       (\<lambda>(rc, o2). let comm = the_handle o2 0 in
     andthen (next_func env ''Group_free'' [VHandle grp]) (\<lambda>_.
     andthen (if cart_ndims d \<ge> 0
              then let plain = comm in
                   andthen (next_func env ''Cart_create''
                     [VHandle plain, VInt (cart_ndims d), VInts (cart_dims d), VInts (cart_periods d), VInt 0])
                     (\<lambda>(rc, o3). andthen (next_func env ''Comm_free'' [VHandle plain]) (\<lambda>_. ret (the_handle o3 0)))
              else ret comm) (\<lambda>comm.
     set_real slot comm)))))"

definition reconstruct_group_desc :: "'l env \<Rightarrow> nat \<Rightarrow> mana_group_desc \<Rightarrow> ('l, unit) act" where
  "reconstruct_group_desc env slot d =
     andthen (gets (\<lambda>s. g_world_group (ctab s))) (\<lambda>world_group.
     andthen (next_func env ''Group_incl'' [VHandle world_group, VInt (g_size d), VInts (g_global_ranks d)]) (\<lambda>(rc, outs).
     set_real slot (the_handle outs 0)))"

definition reconstruct_op_desc :: "'l env \<Rightarrow> nat \<Rightarrow> mana_op_desc \<Rightarrow> ('l, unit) act" where
  "reconstruct_op_desc env slot d =
     andthen (next_func env ''Op_create'' [VPtr (user_fn d), VInt (commute d)]) (\<lambda>(rc, outs).
     set_real slot (the_handle outs 0))"

section \<open>Datatypes\<close>

text \<open>The real datatypes that a datatype was made from.\<close>

definition old_reals :: "'l env \<Rightarrow> mana_datatype_desc \<Rightarrow> ('l, mana_mpi_handle \<times> mana_mpi_handle list) act" where
  "old_reals env d =
     (if constructor d = MANA_TYPE_STRUCT
      then andthen (each (real_of env) (map (\<lambda>i. oldtypes d ! i) [0..<nat (td_count d)])) (\<lambda>olds.
           ret (upper_const env ''DATATYPE_NULL'', olds))
      else andthen (real_of env (oldtype d)) (\<lambda>old. ret (old, [])))"

text \<open>The call of the library that the switch makes, if it makes one.\<close>

definition type_call ::
  "mana_datatype_desc \<Rightarrow> mana_mpi_handle \<Rightarrow> mana_mpi_handle list \<Rightarrow> (string \<times> lval list) option"
where
  "type_call d old olds =
     (case constructor d of
        MANA_TYPE_CONTIGUOUS \<Rightarrow> Some (''Type_contiguous'', [VInt (td_count d), VHandle old])
      | MANA_TYPE_VECTOR \<Rightarrow>
          Some (''Type_vector'', [VInt (td_count d), VInt (blocklength d), VInt (stride d), VHandle old])
      | MANA_TYPE_HVECTOR \<Rightarrow>
          Some (''Type_create_hvector'', [VInt (td_count d), VInt (blocklength d), VInt (hstride d), VHandle old])
      | MANA_TYPE_INDEXED \<Rightarrow>
          Some (''Type_indexed'', [VInt (td_count d), VInts (blocklengths d), VInts (displacements d), VHandle old])
      | MANA_TYPE_HINDEXED \<Rightarrow>
          Some (''Type_create_hindexed'',
            [VInt (td_count d), VInts (blocklengths d), VInts (hdisplacements d), VHandle old])
      | MANA_TYPE_STRUCT \<Rightarrow>
          Some (''Type_create_struct'',
            [VInt (td_count d), VInts (blocklengths d), VInts (hdisplacements d), VHandles olds])
      | MANA_TYPE_DUP \<Rightarrow> Some (''Type_dup'', [VHandle old])
      | MANA_TYPE_RESIZED \<Rightarrow> Some (''Type_create_resized'', [VHandle old, VInt (td_lb d), VInt (td_extent d)])
      | NO_CONSTRUCTOR \<Rightarrow> None)"

definition reconstruct_datatype_desc :: "'l env \<Rightarrow> nat \<Rightarrow> mana_datatype_desc \<Rightarrow> ('l, unit) act" where
  "reconstruct_datatype_desc env slot d =
     andthen (old_reals env d) (\<lambda>(old, olds).
     andthen (case type_call d old olds of
                Some (f, args) \<Rightarrow> andthen (next_func env f args) (\<lambda>(rc, outs). ret (rc, the_handle outs 0))
              | None \<Rightarrow> ret (int_const env ''ERR_TYPE'', upper_const env ''DATATYPE_NULL'')) (\<lambda>(rc, type).
     andthen (if rc = MPI_SUCCESS \<and> committed d
              then andthen (next_func env ''Type_commit'' [VHandle type]) (\<lambda>(rc, outs). ret rc)
              else ret rc) (\<lambda>rc.
     if rc \<noteq> MPI_SUCCESS then fail Abort else set_real slot type)))"

section \<open>All objects\<close>

text \<open>The slots of the live entries by kind and then by age.\<close>

definition restart_key :: "vtable \<Rightarrow> nat \<Rightarrow> int \<times> nat" where
  "restart_key t slot = (handle_kind (virt (slot_entry t slot)), seq (slot_entry t slot))"

definition restart_order :: "vtable \<Rightarrow> nat list" where
  "restart_order t =
     sort_key (restart_key t) (filter (\<lambda>slot. virt (slot_entry t slot) \<noteq> 0) [0..<virt_id_high_water t])"

text \<open>An entry of a kind with a descriptor has a descriptor of that kind; a read through another pointer
  is a crash.\<close>

definition reconstruct_entry :: "'l env \<Rightarrow> nat \<Rightarrow> ('l, unit) act" where
  "reconstruct_entry env slot = (\<lambda>s.
     let entry = slot_entry (vtab s) slot;
         kind = handle_kind (virt entry)
     in if kind = int MANA_COMM_KIND
        then (case desc entry of CommDesc d \<Rightarrow> reconstruct_comm_desc env slot d s | _ \<Rightarrow> Fault Abort)
        else if kind = int MANA_GROUP_KIND
        then (case desc entry of GroupDesc d \<Rightarrow> reconstruct_group_desc env slot d s | _ \<Rightarrow> Fault Abort)
        else if kind = int MANA_OP_KIND
        then (case desc entry of OpDesc d \<Rightarrow> reconstruct_op_desc env slot d s | _ \<Rightarrow> Fault Abort)
        else if kind = int MANA_DATATYPE_KIND
        then (case desc entry of TypeDesc d \<Rightarrow> reconstruct_datatype_desc env slot d s | _ \<Rightarrow> Fault Abort)
        else if kind = int MANA_REQUEST_KIND \<or> kind = int MANA_FILE_KIND then Ok ((), s)
        else Fault Abort)"

definition reconstruct_descriptors :: "'l env \<Rightarrow> ('l, unit) act" where
  "reconstruct_descriptors env = (\<lambda>s.
     andthen (each (reconstruct_entry env) (restart_order (vtab s))) (\<lambda>_. ret ()) s)"

end
