(* ===== verification/Posting_Order.thy ===== *)
theory Posting_Order
  imports Pending_Log Sample_Process
begin

text \<open>
  The log of pending calls implements a queue.  The abstract log is the list of the handles of the pending
  requests with their calls, in posting order; the code keeps it as a doubly linked list through the entries
  of the virtual-ID table.  The property is that every sequence of posts, completions, counted sends and
  replaced calls does on the linked list what it does on the abstract list, and that a traversal of the links
  ends with the requests in posting order.
\<close>

section \<open>Linked segments\<close>

type_synonym entry_map = "nat \<Rightarrow> virt_id_entry"

text \<open>The segment of entries \<open>is\<close>: \<open>h\<close> points to its first entry, whose \<open>pending_prev\<close> is \<open>p\<close>; \<open>q\<close> is its last
  entry and \<open>m\<close> the \<open>pending_next\<close> of that.\<close>

fun seg :: "entry_map \<Rightarrow> nat option \<Rightarrow> nat option \<Rightarrow> nat list \<Rightarrow> nat option \<Rightarrow> nat option \<Rightarrow> bool" where
  "seg E p h [] q m \<longleftrightarrow> h = m \<and> p = q"
| "seg E p h (i # js) q m \<longleftrightarrow> h = Some i \<and> pending_prev (E i) = p \<and> seg E (Some i) (pending_next (E i)) js q m"

lemma seg_append: "seg E p h (xs @ ys) q m \<longleftrightarrow> (\<exists>x y. seg E p h xs x y \<and> seg E x y ys q m)"
  by (induction xs arbitrary: p h) auto

lemma seg_cong:
  assumes "\<And>i. i \<in> set xs \<Longrightarrow> pending_prev (E' i) = pending_prev (E i) \<and> pending_next (E' i) = pending_next (E i)"
  shows "seg E' p h xs q m = seg E p h xs q m"
  using assms by (induction xs arbitrary: p h) simp_all

lemma seg_ends:
  "seg E p h xs q m \<Longrightarrow> xs \<noteq> [] \<Longrightarrow> h = Some (hd xs) \<and> q = Some (last xs)"
  by (induction xs arbitrary: p h) (auto split: if_splits)

lemma seg_snoc: "seg E p h (xs @ [t]) q m \<longleftrightarrow> seg E p h xs (pending_prev (E t)) (Some t) \<and> q = Some t \<and> pending_next (E t) = m"
  by (auto simp: seg_append)

text \<open>Linking an entry behind the last one.\<close>

lemma seg_link:
  assumes s: "seg E None h xs q None" and i: "i \<notin> set xs"
    and E': "pending_prev (E' i) = q" "pending_next (E' i) = None"
      "\<And>j. j \<noteq> i \<Longrightarrow> pending_prev (E' j) = pending_prev (E j)"
      "\<And>j. j \<noteq> i \<Longrightarrow> pending_next (E' j) = (if q = Some j then Some i else pending_next (E j))"
    and d: "distinct xs"
  shows "seg E' None (if q = None then Some i else h) (xs @ [i]) (Some i) None"
proof (cases xs rule: rev_cases)
  case Nil
  then show ?thesis using s E'(1,2) by auto
next
  case (snoc ys t)
  have st: "seg E None h ys (pending_prev (E t)) (Some t)" "q = Some t" using s snoc by (simp_all add: seg_snoc)
  have "seg E' None h ys (pending_prev (E t)) (Some t) = seg E None h ys (pending_prev (E t)) (Some t)"
  proof (rule seg_cong)
    fix j assume "j \<in> set ys"
    then have "j \<noteq> i" "j \<noteq> t" using i d snoc by auto
    then show "pending_prev (E' j) = pending_prev (E j) \<and> pending_next (E' j) = pending_next (E j)"
      using E'(3,4) st(2) by simp
  qed
  then show ?thesis using st i snoc E' by (auto simp: seg_append)
qed

text \<open>Unlinking an entry.\<close>

lemma seg_unlink:
  assumes s: "seg E None h (xs @ i # ys) q None" and d: "distinct (xs @ i # ys)"
    and E': "\<And>j. j \<noteq> i \<Longrightarrow> pending_next (E' j) =
        (if pending_prev (E i) = Some j then pending_next (E i) else pending_next (E j))"
      "\<And>j. j \<noteq> i \<Longrightarrow> pending_prev (E' j) =
        (if pending_next (E i) = Some j then pending_prev (E i) else pending_prev (E j))"
  shows "seg E' None (if pending_prev (E i) = None then pending_next (E i) else h) (xs @ ys)
    (if pending_next (E i) = None then pending_prev (E i) else q) None"
proof -
  let ?p = "pending_prev (E i)" and ?n = "pending_next (E i)"
  have x: "seg E None h xs ?p (Some i)" and y: "seg E (Some i) ?n ys q None" using s by (auto simp: seg_append)
  have pn: "?p \<noteq> Some i" "?n \<noteq> Some i"
    using seg_ends [OF x] seg_ends [OF y] x y d by (cases "xs = []"; cases "ys = []"; auto)+
  have pxs: "?p = Some j \<Longrightarrow> j \<in> set xs" "?n = Some j \<Longrightarrow> j \<in> set ys" for j
    using seg_ends [OF x] seg_ends [OF y] x y by (cases "xs = []"; cases "ys = []"; auto)+
  have x': "seg E' None (if ?p = None then ?n else h) xs ?p ?n"
  proof (cases xs rule: rev_cases)
    case Nil
    then show ?thesis using x by simp
  next
    case (snoc zs t)
    have t: "seg E None h zs (pending_prev (E t)) (Some t)" "?p = Some t" using x snoc by (simp_all add: seg_snoc)
    have "seg E' None h zs (pending_prev (E t)) (Some t) = seg E None h zs (pending_prev (E t)) (Some t)"
    proof (rule seg_cong)
      fix j assume j: "j \<in> set zs"
      then have "j \<noteq> i" "j \<noteq> t" "?n \<noteq> Some j" using d snoc pxs(2) [of j] by auto
      then show "pending_prev (E' j) = pending_prev (E j) \<and> pending_next (E' j) = pending_next (E j)"
        using E' t(2) by simp
    qed
    moreover have "t \<noteq> i" "?n \<noteq> Some t" using d snoc pxs(2) by auto
    ultimately show ?thesis using t snoc E' by (simp add: seg_snoc)
  qed
  have "seg E' ?p ?n ys (if ?n = None then ?p else q) None"
  proof (cases ys)
    case Nil
    then show ?thesis using y by simp
  next
    case (Cons u us)
    have u: "?n = Some u" "seg E (Some u) (pending_next (E u)) us q None" using y Cons by simp_all
    have "seg E' (Some u) (pending_next (E u)) us q None = seg E (Some u) (pending_next (E u)) us q None"
    proof (rule seg_cong)
      fix j assume j: "j \<in> set us"
      then have "j \<noteq> i" "j \<noteq> u" "?p \<noteq> Some j" using d Cons pxs(1) [of j] by auto
      then show "pending_prev (E' j) = pending_prev (E j) \<and> pending_next (E' j) = pending_next (E j)"
        using E' u(1) by simp
    qed
    moreover have "u \<noteq> i" "?p \<noteq> Some u" using d Cons pxs(1) by auto
    ultimately show ?thesis using u Cons E' by simp
  qed
  with x' show ?thesis unfolding seg_append by (intro exI conjI)
qed

text \<open>A traversal of a segment ends and visits its entries in order.\<close>

lemma log_from_seg: "seg (slot_entry t) p h xs q None \<Longrightarrow> log_from t h = Some xs"
proof (induction xs arbitrary: p h)
  case Nil
  then show ?case by (subst log_from.simps) simp
next
  case (Cons i xs)
  then show ?case by (subst log_from.simps) auto
qed

section \<open>The invariant of the log\<close>

abbreviation ent :: "'l proc \<Rightarrow> entry_map" where
  "ent s \<equiv> slot_entry (vtab s)"

definition is_pending :: "virt_id_entry \<Rightarrow> bool" where
  "is_pending e \<longleftrightarrow> req_type (call e) \<noteq> UNKNOW_REQUEST"

definition log_rep :: "'l proc \<Rightarrow> nat list \<Rightarrow> bool" where
  "log_rep s js \<longleftrightarrow>
     seg (ent s) None (pending_head s) js (pending_tail s) None \<and> distinct js \<and>
     (\<forall>i. is_pending (ent s i) \<longleftrightarrow> i \<in> set js) \<and> (\<forall>i\<in>set js. live (vtab s) i) \<and>
     pending_issends s = int (length (filter (\<lambda>i. req_type (call (ent s i)) = ISSEND_REQUEST) js))"

definition log_inv :: "'l proc \<Rightarrow> nat list \<Rightarrow> bool" where
  "log_inv s js \<longleftrightarrow> vtable_ok (ctab s) (vtab s) \<and> log_rep s js"

definition log_ok :: "'l proc \<Rightarrow> bool" where
  "log_ok s \<longleftrightarrow> (\<exists>js. log_inv s js)"

text \<open>The abstract log: the valid handles, and the pending requests with their calls in posting order.\<close>

type_synonym log_view = "int32 set \<times> (int32 \<times> mpi_nonblocking_call) list"

definition log_list :: "'l proc \<Rightarrow> (int32 \<times> mpi_nonblocking_call) list" where
  "log_list s = (case log_from (vtab s) (pending_head s) of
     None \<Rightarrow> [] | Some js \<Rightarrow> map (\<lambda>i. (virt (ent s i), call (ent s i))) js)"

definition view :: "'l proc \<Rightarrow> log_view" where
  "view s = (dom (handle_map (vtab s)), log_list s)"

text \<open>A change of one entry that keeps what the table needs.\<close>

definition keeps_handle :: "(virt_id_entry \<Rightarrow> virt_id_entry) \<Rightarrow> bool" where
  "keeps_handle f \<longleftrightarrow> (\<forall>e. virt (f e) = virt e \<and> next_free (f e) = next_free e \<and> gen (f e) = gen e \<and> seq (f e) = seq e)"

lemma with_entry_sel [simp]:
  "ctab (with_entry i f s) = ctab s" "pending_head (with_entry i f s) = pending_head s"
  "pending_tail (with_entry i f s) = pending_tail s" "pending_issends (with_entry i f s) = pending_issends s"
  "has_chunk (vtab (with_entry i f s)) j = has_chunk (vtab s) j"
  by (simp_all add: with_entry_def)

lemma ent_with_entry:
  "has_chunk (vtab s) i \<Longrightarrow> ent (with_entry i f s) = (ent s)(i := f (ent s i))"
  by (auto simp: with_entry_def table_simps fun_eq_iff)

lemma live_has_chunk: "vtable_ok c t \<Longrightarrow> live t i \<Longrightarrow> has_chunk t i"
  by (auto simp: vtable_ok_def elim: slot_ok_handle)

text \<open>Changes that keep the handles keep the table and the set of valid handles.\<close>

lemma keep_table:
  assumes ok: "vtable_ok c t" and E: "\<And>j. virt (slot_entry t' j) = virt (slot_entry t j) \<and>
      next_free (slot_entry t' j) = next_free (slot_entry t j) \<and> gen (slot_entry t' j) = gen (slot_entry t j) \<and>
      seq (slot_entry t' j) = seq (slot_entry t j)"
    and chunks: "\<And>j. has_chunk t' j = has_chunk t j"
    and fields: "virt_id_high_water t' = virt_id_high_water t" "virt_id_free_head t' = virt_id_free_head t"
      "virt_id_next_seq t' = virt_id_next_seq t" "virt_id_live t' = virt_id_live t"
  shows "vtable_ok c t'" and "dom (handle_map t') = dom (handle_map t)" and "live t' = live t"
    and "lookup_virt_id_entry wide t' (ucast h) = lookup_virt_id_entry wide t (ucast (h :: int32))"
proof -
  obtain fl where inv: "vtable_inv c t fl {}" using ok by (auto simp: vtable_ok_def)
  have l: "linked t' h fl = linked t h fl" for h by (rule linked_cong) (simp add: E)
  show lv: "live t' = live t" by (simp add: live_def E fun_eq_iff)
  moreover have "slot_ok c t' = slot_ok c t" by (simp add: slot_ok_def fun_eq_iff E fields chunks)
  ultimately have "vtable_inv c t' fl {}" using inv l unfolding vtable_inv_def by (simp add: E fields chunks)
  then show "vtable_ok c t'" by (auto simp: vtable_ok_def)
  have "lookup_virt_id_entry w t' (ucast h) = Some i \<longleftrightarrow> lookup_virt_id_entry w t (ucast (h :: int32)) = Some i" for w h i
    unfolding lookup_handle_iff by (simp add: E chunks)
  then have look: "lookup_virt_id_entry w t' (ucast h) = lookup_virt_id_entry w t (ucast (h :: int32))" for w h
    by (metis not_Some_eq)
  then show "lookup_virt_id_entry wide t' (ucast h) = lookup_virt_id_entry wide t (ucast h)" .
  show "dom (handle_map t') = dom (handle_map t)" by (auto simp: handle_map_def dom_def look)
qed

lemma log_list_inv: "log_rep s js \<Longrightarrow> log_list s = map (\<lambda>i. (virt (ent s i), call (ent s i))) js"
  by (auto simp: log_list_def log_rep_def dest: log_from_seg)

lemma lookup_ent:
  assumes "vtable_ok (ctab s) (vtab s)"
  shows "lookup_virt_id_entry w (vtab s) (ucast h) = Some i \<longleftrightarrow> live (vtab s) i \<and> virt (ent s i) = h"
  using assms lookup_live_iff by (auto simp: vtable_ok_def)

lemma virt_inj:
  assumes "vtable_ok (ctab s) (vtab s)" and "live (vtab s) i" and "live (vtab s) j" and "virt (ent s i) = virt (ent s j)"
  shows "i = j"
  using lookup_ent [OF assms(1), of True "virt (ent s j)"] assms(2-4) by (metis option.inject)

text \<open>What an operation on the log changes of the process: the links and the calls of entries.\<close>

definition log_change :: "'l proc \<Rightarrow> 'l proc \<Rightarrow> bool" where
  "log_change s t \<longleftrightarrow> ctab t = ctab s \<and> (\<forall>j. has_chunk (vtab t) j = has_chunk (vtab s) j) \<and>
     (\<forall>j. virt (ent t j) = virt (ent s j) \<and> next_free (ent t j) = next_free (ent s j) \<and>
        gen (ent t j) = gen (ent s j) \<and> seq (ent t j) = seq (ent s j)) \<and>
     virt_id_high_water (vtab t) = virt_id_high_water (vtab s) \<and> virt_id_free_head (vtab t) = virt_id_free_head (vtab s) \<and>
     virt_id_next_seq (vtab t) = virt_id_next_seq (vtab s) \<and> virt_id_live (vtab t) = virt_id_live (vtab s)"

lemma log_change_refl: "log_change s s"
  by (simp add: log_change_def)

lemma log_change_trans: "log_change s t \<Longrightarrow> log_change t u \<Longrightarrow> log_change s u"
  by (simp add: log_change_def)

lemma log_change_with_entry:
  assumes "keeps_handle f"
  shows "log_change s (with_entry i f s)"
proof (cases "has_chunk (vtab s) i")
  case True
  then show ?thesis
    using assms by (simp add: log_change_def ent_with_entry keeps_handle_def) (simp add: with_entry_def)
next
  case False
  then have "slot_entry (set_entry i e (vtab s)) j = ent s j" for e j
    by (simp add: set_entry_def slot_entry_def has_chunk_def)
  then show ?thesis by (simp add: log_change_def with_entry_def)
qed

lemma log_change_fields [simp]:
  "log_change s (t \<lparr> pending_head := a \<rparr>) = log_change s t" "log_change s (t \<lparr> pending_tail := a \<rparr>) = log_change s t"
  "log_change s (t \<lparr> pending_issends := n \<rparr>) = log_change s t"
  by (simp_all add: log_change_def)

lemma log_change_keeps:
  assumes "log_change s t" and "vtable_ok (ctab s) (vtab s)"
  shows "vtable_ok (ctab t) (vtab t)" and "dom (handle_map (vtab t)) = dom (handle_map (vtab s))"
    and "live (vtab t) = live (vtab s)"
proof -
  note k = keep_table [of "ctab s" "vtab s" "vtab t"]
  show "vtable_ok (ctab t) (vtab t)" "dom (handle_map (vtab t)) = dom (handle_map (vtab s))"
    "live (vtab t) = live (vtab s)"
    using k assms by (simp_all add: log_change_def)
qed

lemmas handle_keepers = keeps_handle_def

lemma with_entry_other_fields [simp]:
  "with_entry i f (s \<lparr> pending_head := a \<rparr>) = (with_entry i f s) \<lparr> pending_head := a \<rparr>"
  "with_entry i f (s \<lparr> pending_tail := a \<rparr>) = (with_entry i f s) \<lparr> pending_tail := a \<rparr>"
  "with_entry i f (s \<lparr> pending_issends := n \<rparr>) = (with_entry i f s) \<lparr> pending_issends := n \<rparr>"
  by (simp_all add: with_entry_def)

section \<open>Posting\<close>

lemma link_last_spec:
  assumes ci: "has_chunk (vtab s) i" and t: "\<forall>t. pending_tail s = Some t \<longrightarrow> has_chunk (vtab s) t \<and> t \<noteq> i"
  shows "log_change s (link_last i s)"
    and "ent (link_last i s) = (\<lambda>j. if j = i then (ent s i) \<lparr> pending_prev := pending_tail s, pending_next := None \<rparr>
       else if pending_tail s = Some j then (ent s j) \<lparr> pending_next := Some i \<rparr> else ent s j)"
    and "pending_head (link_last i s) = (if pending_tail s = None then Some i else pending_head s)"
    and "pending_tail (link_last i s) = Some i" and "pending_issends (link_last i s) = pending_issends s"
proof -
  have k: "keeps_handle (\<lambda>e. e \<lparr> pending_prev := p, pending_next := n \<rparr>)" "keeps_handle (\<lambda>e. e \<lparr> pending_next := n \<rparr>)" for p n
    by (simp_all add: keeps_handle_def)
  show "log_change s (link_last i s)"
  proof (cases "pending_tail s")
    case None
    then show ?thesis using log_change_with_entry [OF k(1)] by (simp add: link_last_def Let_def)
  next
    case (Some u)
    then show ?thesis
      using log_change_trans [OF log_change_with_entry [OF k(1)] log_change_with_entry [OF k(2)]]
      by (simp add: link_last_def Let_def)
  qed
  show "ent (link_last i s) = (\<lambda>j. if j = i then (ent s i) \<lparr> pending_prev := pending_tail s, pending_next := None \<rparr>
       else if pending_tail s = Some j then (ent s j) \<lparr> pending_next := Some i \<rparr> else ent s j)"
    using t ci by (auto simp: link_last_def Let_def ent_with_entry fun_eq_iff split: option.split)
  show "pending_head (link_last i s) = (if pending_tail s = None then Some i else pending_head s)"
    "pending_tail (link_last i s) = Some i" "pending_issends (link_last i s) = pending_issends s"
    by (auto simp: link_last_def Let_def split: option.split)
qed

lemma tail_in_log:
  assumes "log_inv s js" and "pending_tail s = Some t"
  shows "t \<in> set js" and "has_chunk (vtab s) t"
proof -
  have r: "seg (ent s) None (pending_head s) js (pending_tail s) None" using assms(1) by (simp add: log_inv_def log_rep_def)
  have "js \<noteq> []" using r assms(2) by (cases js) auto
  then show "t \<in> set js" using seg_ends [OF r] assms(2) by auto
  then show "has_chunk (vtab s) t"
    using assms(1) by (auto simp: log_inv_def log_rep_def intro: live_has_chunk)
qed

definition posted_call ::
  "mpi_req_t \<Rightarrow> int64 \<Rightarrow> int64 \<Rightarrow> int \<Rightarrow> mana_mpi_handle \<Rightarrow> int \<Rightarrow> int \<Rightarrow> mana_mpi_handle \<Rightarrow> mpi_nonblocking_call"
where
  "posted_call req sbuf rbuf cnt type remote tag comm =
     \<lparr> req_type = req, sendbuf = sbuf, recvbuf = rbuf, nb_count = cnt, nb_datatype = type, nb_comm = comm,
       remote_node = remote, nb_tag = tag, later_sends = 0 \<rparr>"

lemma post_spec:
  fixes h :: int32
  assumes inv: "log_inv s js" and look: "lookup_virt_id_entry (wide_handles env) (vtab s) (ucast h) = Some i"
    and i: "i \<notin> set js" and req: "req \<noteq> UNKNOW_REQUEST"
    and c: "c = posted_call req sbuf rbuf cnt type remote tag comm"
  shows "\<exists>t. addPendingRequestToLog env req sbuf rbuf cnt type remote tag comm (ucast h) s = Ok ((), t) \<and>
    log_change s t \<and> log_inv t (js @ [i]) \<and> call (ent t i) = c \<and> (\<forall>j. j \<noteq> i \<longrightarrow> call (ent t j) = call (ent s j))"
proof -
  have ok: "vtable_ok (ctab s) (vtab s)" and r: "log_rep s js" using inv by (simp_all add: log_inv_def)
  have li: "live (vtab s) i" using look lookup_ent [OF ok] by blast
  have ci: "has_chunk (vtab s) i" by (rule live_has_chunk [OF ok li])
  define s1 where "s1 = with_entry i (\<lambda>e. e \<lparr> call := c \<rparr>) s"
  define s2 where "s2 = (if req = ISSEND_REQUEST then s1 \<lparr> pending_issends := pending_issends s1 + 1 \<rparr> else s1)"
  define t where "t = link_last i s2"
  have e2: "ent s2 = (ent s)(i := (ent s i) \<lparr> call := c \<rparr>)" "pending_tail s2 = pending_tail s"
    "pending_head s2 = pending_head s" "has_chunk (vtab s2) j = has_chunk (vtab s) j" for j
    using ci by (simp_all add: s2_def s1_def ent_with_entry)
  have tl: "\<forall>u. pending_tail s2 = Some u \<longrightarrow> has_chunk (vtab s2) u \<and> u \<noteq> i"
    using tail_in_log [OF inv] e2 i by auto
  note L = link_last_spec [OF e2(4) [THEN iffD2, OF ci] tl, folded t_def]
  have run: "addPendingRequestToLog env req sbuf rbuf cnt type remote tag comm (ucast h) s = Ok ((), t)"
    using look by (simp add: addPendingRequestToLog_def andthen_def lift_def get_virt_id_entry_def modify_def Let_def
        t_def s2_def s1_def c posted_call_def)
  have ch2: "log_change s s2"
    unfolding s2_def s1_def by (simp add: log_change_with_entry keeps_handle_def)
  note ch = log_change_trans [OF ch2 L(1)]
  note keep = log_change_keeps [OF ch ok]
  have ct: "call (ent t i) = c" "\<forall>j. j \<noteq> i \<longrightarrow> call (ent t j) = call (ent s j)" by (simp_all add: L(2) e2)
  have "seg (ent t) None (pending_head t) (js @ [i]) (pending_tail t) None"
    unfolding L(3,4) e2(2,3)
    by (rule seg_link [of "ent s"]) (use r i in \<open>simp_all add: log_rep_def L(2) e2\<close>)
  moreover have "is_pending (ent t j) \<longleftrightarrow> j \<in> set (js @ [i])" for j
    using ct r req by (cases "j = i") (auto simp: is_pending_def log_rep_def c posted_call_def)
  moreover have "filter (\<lambda>j. req_type (call (ent t j)) = ISSEND_REQUEST) js = filter (\<lambda>j. req_type (call (ent s j)) = ISSEND_REQUEST) js"
    by (rule filter_cong) (use ct(2) i in auto)
  moreover have "pending_issends t = pending_issends s + (if req = ISSEND_REQUEST then 1 else 0)"
    by (simp add: L(5) s2_def s1_def)
  ultimately have "log_rep t (js @ [i])"
    using r i li keep(3) ct(1) by (auto simp: log_rep_def c posted_call_def)
  then show ?thesis using run ch keep(1) ct by (auto simp: log_inv_def)
qed

section \<open>Completing\<close>

lemma unlink_spec:
  assumes ci: "has_chunk (vtab s) i"
    and p: "\<forall>p. pending_prev (ent s i) = Some p \<longrightarrow> has_chunk (vtab s) p \<and> p \<noteq> i \<and> pending_next (ent s i) \<noteq> Some p"
    and n: "\<forall>n. pending_next (ent s i) = Some n \<longrightarrow> has_chunk (vtab s) n \<and> n \<noteq> i"
  shows "log_change s (unlink i s)"
    and "ent (unlink i s) = (\<lambda>j. if j = i then (ent s i) \<lparr> pending_prev := None, pending_next := None,
         call := (call (ent s i)) \<lparr> req_type := UNKNOW_REQUEST \<rparr> \<rparr>
       else (ent s j) \<lparr> pending_next := (if pending_prev (ent s i) = Some j then pending_next (ent s i) else pending_next (ent s j)),
         pending_prev := (if pending_next (ent s i) = Some j then pending_prev (ent s i) else pending_prev (ent s j)) \<rparr>)"
    and "pending_head (unlink i s) = (if pending_prev (ent s i) = None then pending_next (ent s i) else pending_head s)"
    and "pending_tail (unlink i s) = (if pending_next (ent s i) = None then pending_prev (ent s i) else pending_tail s)"
    and "pending_issends (unlink i s) = pending_issends s"
proof -
  have k: "keeps_handle (\<lambda>e. e \<lparr> pending_next := x \<rparr>)" "keeps_handle (\<lambda>e. e \<lparr> pending_prev := x \<rparr>)"
    "keeps_handle (\<lambda>x. x \<lparr> pending_prev := None, pending_next := None,
       call := (call x) \<lparr> req_type := UNKNOW_REQUEST \<rparr> \<rparr>)" for x
    by (simp_all add: keeps_handle_def)
  have ch: "log_change s (with_entry j f t)" if "log_change s t" "keeps_handle f" for j f and t :: "'a proc"
    by (rule log_change_trans [OF that(1) log_change_with_entry [OF that(2)]])
  show "log_change s (unlink i s)"
    unfolding unlink_def Let_def by (cases "pending_prev (ent s i)"; cases "pending_next (ent s i)")
      (simp_all add: ch k log_change_refl)
  show "ent (unlink i s) = (\<lambda>j. if j = i then (ent s i) \<lparr> pending_prev := None, pending_next := None,
         call := (call (ent s i)) \<lparr> req_type := UNKNOW_REQUEST \<rparr> \<rparr>
       else (ent s j) \<lparr> pending_next := (if pending_prev (ent s i) = Some j then pending_next (ent s i) else pending_next (ent s j)),
         pending_prev := (if pending_next (ent s i) = Some j then pending_prev (ent s i) else pending_prev (ent s j)) \<rparr>)"
    unfolding unlink_def Let_def using p n ci
    by (cases "pending_prev (ent s i)"; cases "pending_next (ent s i)") (auto simp: ent_with_entry fun_eq_iff)
  show "pending_head (unlink i s) = (if pending_prev (ent s i) = None then pending_next (ent s i) else pending_head s)"
    "pending_tail (unlink i s) = (if pending_next (ent s i) = None then pending_prev (ent s i) else pending_tail s)"
    "pending_issends (unlink i s) = pending_issends s"
    unfolding unlink_def Let_def by (cases "pending_prev (ent s i)"; cases "pending_next (ent s i)"; simp)+
qed

lemma seg_neighbours:
  assumes s: "seg E None h (xs @ i # ys) q None" and d: "distinct (xs @ i # ys)"
  shows "pending_prev (E i) = Some p \<Longrightarrow> p \<in> set xs" and "pending_next (E i) = Some n \<Longrightarrow> n \<in> set ys"
proof -
  have x: "seg E None h xs (pending_prev (E i)) (Some i)" and y: "seg E (Some i) (pending_next (E i)) ys q None"
    using s by (auto simp: seg_append)
  show "p \<in> set xs" if "pending_prev (E i) = Some p"
    using seg_ends [OF x] x that by (cases "xs = []") auto
  show "n \<in> set ys" if "pending_next (E i) = Some n"
    using seg_ends [OF y] y that by (cases "ys = []") auto
qed

lemma unlink_rep:
  assumes inv: "log_inv s js" and i: "i \<in> set js"
    and s': "s' = (if req_type (call (ent s i)) = ISSEND_REQUEST then s \<lparr> pending_issends := pending_issends s - 1 \<rparr> else s)"
  shows "log_change s (unlink i s') \<and> log_inv (unlink i s') (remove1 i js) \<and>
    (\<forall>j. j \<noteq> i \<longrightarrow> call (ent (unlink i s') j) = call (ent s j))"
proof -
  have ok: "vtable_ok (ctab s) (vtab s)" and r: "log_rep s js" using inv by (simp_all add: log_inv_def)
  obtain xs ys where js: "js = xs @ i # ys" "i \<notin> set xs" using split_list_first [OF i] by auto
  have sg: "seg (ent s) None (pending_head s) (xs @ i # ys) (pending_tail s) None" and d: "distinct (xs @ i # ys)"
    using r js by (simp_all add: log_rep_def)
  have chunk: "has_chunk (vtab s) j" if "j \<in> set js" for j
    using that r live_has_chunk [OF ok] by (auto simp: log_rep_def)
  note nb = seg_neighbours [OF sg d]
  have same: "ent s' = ent s" "vtab s' = vtab s" "pending_head s' = pending_head s" "pending_tail s' = pending_tail s"
    "ctab s' = ctab s" by (simp_all add: s')
  have p: "\<forall>p. pending_prev (ent s' i) = Some p \<longrightarrow> has_chunk (vtab s') p \<and> p \<noteq> i \<and> pending_next (ent s' i) \<noteq> Some p"
    using nb chunk d js unfolding same by fastforce
  have n: "\<forall>n. pending_next (ent s' i) = Some n \<longrightarrow> has_chunk (vtab s') n \<and> n \<noteq> i"
    using nb chunk d js unfolding same by fastforce
  note U = unlink_spec [OF chunk [OF i, folded same] p n, unfolded same]
  have ch: "log_change s (unlink i s')"
    using U(1) by (simp add: s' log_change_def split: if_splits)
  note keep = log_change_keeps [OF ch ok]
  have ct: "call (ent (unlink i s') j) = call (ent s j)" if "j \<noteq> i" for j using that by (simp add: U(2))
  have rm: "remove1 i js = xs @ ys" using js by (simp add: remove1_append)
  have "seg (ent (unlink i s')) None (pending_head (unlink i s')) (xs @ ys) (pending_tail (unlink i s')) None"
    unfolding U(3,4) by (rule seg_unlink [OF sg d]) (simp_all add: U(2))
  moreover have "is_pending (ent (unlink i s') j) \<longleftrightarrow> j \<in> set (xs @ ys)" for j
    using ct [of j] r js d by (cases "j = i") (auto simp: is_pending_def log_rep_def U(2))
  moreover have "filter (\<lambda>j. req_type (call (ent (unlink i s') j)) = ISSEND_REQUEST) (xs @ ys) =
      filter (\<lambda>j. req_type (call (ent s j)) = ISSEND_REQUEST) (xs @ ys)"
  proof (rule filter_cong [OF refl])
    fix j assume "j \<in> set (xs @ ys)"
    then have "j \<noteq> i" using d by auto
    then show "(req_type (call (ent (unlink i s') j)) = ISSEND_REQUEST) = (req_type (call (ent s j)) = ISSEND_REQUEST)"
      by (simp add: ct)
  qed
  moreover have "pending_issends (unlink i s') = pending_issends s - (if req_type (call (ent s i)) = ISSEND_REQUEST then 1 else 0)"
    unfolding U(5) by (simp add: s')
  ultimately have "log_rep (unlink i s') (xs @ ys)"
    using r js d keep(3) by (auto simp: log_rep_def)
  then show ?thesis using ch keep(1) ct rm by (simp add: log_inv_def)
qed

lemma clear_spec:
  fixes h :: int32
  assumes inv: "log_inv s js"
  shows "\<exists>t. clearPendingRequestFromLog env (ucast h) s = Ok ((), t) \<and> log_change s t \<and>
    log_inv t (filter (\<lambda>j. virt (ent s j) \<noteq> h) js) \<and> (\<forall>j. virt (ent s j) \<noteq> h \<longrightarrow> call (ent t j) = call (ent s j))"
proof -
  have ok: "vtable_ok (ctab s) (vtab s)" and r: "log_rep s js" using inv by (simp_all add: log_inv_def)
  have lv: "live (vtab s) j" if "j \<in> set js" for j using that r by (simp add: log_rep_def)
  have no: "filter (\<lambda>j. virt (ent s j) \<noteq> h) js = js" if "\<And>j. j \<in> set js \<Longrightarrow> virt (ent s j) \<noteq> h"
    using that by (simp add: filter_id_conv)
  show ?thesis
  proof (cases "lookup_virt_id_entry (wide_handles env) (vtab s) (ucast h)")
    case None
    then have "virt (ent s j) \<noteq> h" if "j \<in> set js" for j
      using lookup_ent [OF ok, of "wide_handles env" h j] lv [OF that] by auto
    then show ?thesis
      using None no inv by (simp add: clearPendingRequestFromLog_def modify_def log_change_refl)
  next
    case (Some i)
    then have i: "live (vtab s) i" "virt (ent s i) = h" using lookup_ent [OF ok] by auto
    show ?thesis
    proof (cases "req_type (call (ent s i)) = UNKNOW_REQUEST")
      case True
      then have ni: "i \<notin> set js" using r by (auto simp: log_rep_def is_pending_def)
      have "virt (ent s j) \<noteq> h" if "j \<in> set js" for j
        using virt_inj [OF ok lv [OF that] i(1)] i(2) that ni by auto
      then show ?thesis
        using Some True no inv by (simp add: clearPendingRequestFromLog_def modify_def log_change_refl Let_def)
    next
      case False
      then have ii: "i \<in> set js" using r by (auto simp: log_rep_def is_pending_def)
      have rm: "filter (\<lambda>j. virt (ent s j) \<noteq> h) js = remove1 i js"
      proof -
        have "remove1 i js = filter (\<lambda>j. j \<noteq> i) js" using r by (simp add: log_rep_def distinct_remove1_removeAll removeAll_filter_not_eq neq_commute)
        also have "\<dots> = filter (\<lambda>j. virt (ent s j) \<noteq> h) js"
          by (rule filter_cong [OF refl]) (use virt_inj [OF ok lv i(1)] i(2) in auto)
        finally show ?thesis by simp
      qed
      show ?thesis
        using unlink_rep [OF inv ii refl] Some False i(2) unfolding rm
        by (auto simp: clearPendingRequestFromLog_def modify_def Let_def)
    qed
  qed
qed

section \<open>Counted sends and replaced calls\<close>

lemma seg_calls:
  assumes "\<And>j. pending_prev (E' j) = pending_prev (E j) \<and> pending_next (E' j) = pending_next (E j)"
  shows "seg E' p h js q m = seg E p h js q m"
  by (rule seg_cong) (use assms in auto)

lemma count_fold:
  assumes "distinct js" and "\<And>j. j \<in> set js \<Longrightarrow> has_chunk (vtab s) j" and "keeps_handle f"
  defines "t \<equiv> fold (\<lambda>i. with_entry i f) js s"
  shows "ent t = (\<lambda>j. if j \<in> set js then f (ent s j) else ent s j) \<and> log_change s t \<and>
    pending_head t = pending_head s \<and> pending_tail t = pending_tail s \<and> pending_issends t = pending_issends s"
  using assms(1,2) unfolding t_def
proof (induction js arbitrary: s)
  case (Cons i js)
  have e: "ent (with_entry i f s) = (ent s)(i := f (ent s i))" using Cons.prems(2) by (simp add: ent_with_entry)
  have ih: "ent (fold (\<lambda>i. with_entry i f) js (with_entry i f s)) =
      (\<lambda>j. if j \<in> set js then f (ent (with_entry i f s) j) else ent (with_entry i f s) j) \<and>
    log_change (with_entry i f s) (fold (\<lambda>i. with_entry i f) js (with_entry i f s)) \<and>
    pending_head (fold (\<lambda>i. with_entry i f) js (with_entry i f s)) = pending_head s \<and>
    pending_tail (fold (\<lambda>i. with_entry i f) js (with_entry i f s)) = pending_tail s \<and>
    pending_issends (fold (\<lambda>i. with_entry i f) js (with_entry i f s)) = pending_issends s"
    using Cons.IH [of "with_entry i f s"] Cons.prems by simp
  then show ?case
    using log_change_trans [OF log_change_with_entry [OF assms(3)]] Cons.prems(1) by (auto simp: e fun_eq_iff)
qed (simp add: log_change_refl)

lemma count_spec:
  assumes inv: "log_inv s js"
  shows "\<exists>t. countSendAfterIssends comm dest tag s = Ok ((), t) \<and> log_change s t \<and> log_inv t js \<and>
    (\<forall>j\<in>set js. call (ent t j) = call (count_later_send comm dest tag (ent s j)))"
proof -
  have ok: "vtable_ok (ctab s) (vtab s)" and r: "log_rep s js" using inv by (simp_all add: log_inv_def)
  have same: "req_type (call (count_later_send comm dest tag e)) = req_type (call e)"
    "pending_prev (count_later_send comm dest tag e) = pending_prev e"
    "pending_next (count_later_send comm dest tag e) = pending_next e" for e
    by (simp_all add: count_later_send_def Let_def)
  show ?thesis
  proof (cases "pending_issends s = 0")
    case True
    then have "req_type (call (ent s j)) \<noteq> ISSEND_REQUEST" if "j \<in> set js" for j
      using r that by (auto simp: log_rep_def filter_empty_conv)
    then show ?thesis using True inv by (simp add: countSendAfterIssends_def log_change_refl count_later_send_def Let_def)
  next
    case False
    let ?t = "fold (\<lambda>i. with_entry i (count_later_send comm dest tag)) js s"
    have k: "keeps_handle (count_later_send comm dest tag)" by (simp add: keeps_handle_def count_later_send_def Let_def)
    have ch: "has_chunk (vtab s) j" if "j \<in> set js" for j
      using r that live_has_chunk [OF ok] by (auto simp: log_rep_def)
    have d: "distinct js" using r by (simp add: log_rep_def)
    note F = count_fold [OF d ch k]
    have from_head: "log_from (vtab s) (pending_head s) = Some js"
      using r log_from_seg by (auto simp: log_rep_def)
    then have run: "countSendAfterIssends comm dest tag s = Ok ((), ?t)"
      using False by (simp add: countSendAfterIssends_def log_slots_def andthen_def modify_def)
    have E: "ent ?t = (\<lambda>j. if j \<in> set js then count_later_send comm dest tag (ent s j) else ent s j)" using F by blast
    have lt: "live (vtab ?t) = live (vtab s)" using F log_change_keeps(3) [OF _ ok] by blast
    have type: "req_type (call (ent ?t j)) = req_type (call (ent s j))" for j by (simp add: E same)
    have "seg (ent ?t) None (pending_head s) js (pending_tail s) None = seg (ent s) None (pending_head s) js (pending_tail s) None"
      by (rule seg_calls) (simp add: E same)
    then have "log_rep ?t js" using r F unfolding log_rep_def is_pending_def type lt by simp
    then show ?thesis using run F log_change_keeps(1) [OF _ ok, of ?t] by (auto simp: log_inv_def)
  qed
qed

lemma replace_spec:
  fixes h :: int32
  assumes inv: "log_inv s js" and i: "i \<in> set js" "virt (ent s i) = h" and c: "req_type c \<noteq> UNKNOW_REQUEST"
    and iss: "req_type c = ISSEND_REQUEST \<Longrightarrow> req_type (call (ent s i)) = ISSEND_REQUEST"
  shows "\<exists>t. replacePendingCall env (ucast h) c s = Ok ((), t) \<and> log_change s t \<and> log_inv t js \<and>
    (\<forall>j\<in>set js. call (ent t j) = (if j = i then c else call (ent s j)))"
proof -
  have ok: "vtable_ok (ctab s) (vtab s)" and r: "log_rep s js" using inv by (simp_all add: log_inv_def)
  have li: "live (vtab s) i" and pi: "req_type (call (ent s i)) \<noteq> UNKNOW_REQUEST"
    using r i(1) by (auto simp: log_rep_def is_pending_def)
  have look: "lookup_virt_id_entry (wide_handles env) (vtab s) (ucast h) = Some i" using lookup_ent [OF ok] li i(2) by blast
  define s1 where "s1 = (if req_type (call (ent s i)) = ISSEND_REQUEST \<and> req_type c \<noteq> ISSEND_REQUEST
    then s \<lparr> pending_issends := pending_issends s - 1 \<rparr> else s)"
  define t where "t = with_entry i (\<lambda>e. e \<lparr> call := c \<rparr>) s1"
  have ci: "has_chunk (vtab s1) i" using live_has_chunk [OF ok li] by (simp add: s1_def)
  have e: "ent t = (ent s)(i := (ent s i) \<lparr> call := c \<rparr>)" unfolding t_def ent_with_entry [OF ci] by (simp add: s1_def)
  have run: "replacePendingCall env (ucast h) c s = Ok ((), t)"
    using look pi by (simp add: replacePendingCall_def Let_def t_def s1_def)
  have ch: "log_change s t" unfolding t_def s1_def by (simp add: log_change_with_entry keeps_handle_def)
  note keep = log_change_keeps [OF ch ok]
  obtain xs ys where js: "js = xs @ i # ys" "i \<notin> set xs" "i \<notin> set ys"
    using split_list_first [OF i(1)] r by (auto simp: log_rep_def)
  have f: "filter (\<lambda>j. req_type (call (ent t j)) = ISSEND_REQUEST) zs = filter (\<lambda>j. req_type (call (ent s j)) = ISSEND_REQUEST) zs"
    if "i \<notin> set zs" for zs by (rule filter_cong [OF refl]) (use that e in auto)
  have fields: "pending_head t = pending_head s" "pending_tail t = pending_tail s" by (simp_all add: t_def s1_def)
  have "seg (ent t) None (pending_head t) js (pending_tail t) None"
    unfolding fields using r seg_calls [of "ent t" "ent s"] by (simp add: log_rep_def e)
  moreover have "pending_issends t = int (length (filter (\<lambda>j. req_type (call (ent t j)) = ISSEND_REQUEST) js))"
  proof -
    have "pending_issends t = pending_issends s -
        (if req_type (call (ent s i)) = ISSEND_REQUEST \<and> req_type c \<noteq> ISSEND_REQUEST then 1 else 0)"
      by (simp add: t_def s1_def)
    moreover have "call (ent t i) = c" by (simp add: e)
    ultimately show ?thesis using r iss by (simp add: log_rep_def js f [OF js(2)] f [OF js(3)])
  qed
  moreover have "is_pending (ent t j) = is_pending (ent s j)" for j using pi c by (simp add: is_pending_def e)
  ultimately have "log_rep t js" using r keep(3) by (simp add: log_rep_def)
  then show ?thesis using run ch keep(1) e by (auto simp: log_inv_def)
qed

section \<open>The queue that the log implements\<close>

datatype log_op =
    Post mpi_req_t int64 int64 int mana_mpi_handle int int mana_mpi_handle int32
  | Clear int32
  | CountSend mana_mpi_handle int int
  | Replace int32 mpi_nonblocking_call

definition state_of :: "(unit \<times> 'l proc) result \<Rightarrow> 'l proc result" where
  "state_of r = bind_result r (\<lambda>(_, t). Ok t)"

fun log_step :: "'l env \<Rightarrow> log_op \<Rightarrow> 'l proc \<Rightarrow> 'l proc result" where
  "log_step env (Post req sbuf rbuf cnt type remote tag comm h) s =
     state_of (addPendingRequestToLog env req sbuf rbuf cnt type remote tag comm (ucast h) s)"
| "log_step env (Clear h) s = state_of (clearPendingRequestFromLog env (ucast h) s)"
| "log_step env (CountSend comm dest tag) s = state_of (countSendAfterIssends comm dest tag s)"
| "log_step env (Replace h c) s = state_of (replacePendingCall env (ucast h) c s)"

definition count_call :: "mana_mpi_handle \<Rightarrow> int \<Rightarrow> int \<Rightarrow> mpi_nonblocking_call \<Rightarrow> mpi_nonblocking_call" where
  "count_call comm dest tag c =
     (if req_type c = ISSEND_REQUEST \<and> nb_comm c = comm \<and> remote_node c = dest \<and> nb_tag c = tag
      then c \<lparr> later_sends := later_sends c + 1 \<rparr> else c)"

fun log_spec :: "log_op \<Rightarrow> log_view \<Rightarrow> log_view" where
  "log_spec (Post req sbuf rbuf cnt type remote tag comm h) (hs, l) =
     (hs, l @ [(h, posted_call req sbuf rbuf cnt type remote tag comm)])"
| "log_spec (Clear h) (hs, l) = (hs, filter (\<lambda>(g, c). g \<noteq> h) l)"
| "log_spec (CountSend comm dest tag) (hs, l) = (hs, map (\<lambda>(g, c). (g, count_call comm dest tag c)) l)"
| "log_spec (Replace h c) (hs, l) = (hs, map (\<lambda>(g, d). (g, if g = h then c else d)) l)"

text \<open>The wrappers post a call for a request that they have just made, and replace a call of the log by one that
  is not synchronous.\<close>

fun log_enabled :: "log_op \<Rightarrow> log_view \<Rightarrow> bool" where
  "log_enabled (Post req sbuf rbuf cnt type remote tag comm h) (hs, l) \<longleftrightarrow>
     req \<noteq> UNKNOW_REQUEST \<and> h \<in> hs \<and> list_all (\<lambda>(g, c). g \<noteq> h) l"
| "log_enabled (Clear h) (hs, l) \<longleftrightarrow> True"
| "log_enabled (CountSend comm dest tag) (hs, l) \<longleftrightarrow> True"
| "log_enabled (Replace h c) (hs, l) \<longleftrightarrow>
     req_type c \<noteq> UNKNOW_REQUEST \<and> req_type c \<noteq> ISSEND_REQUEST \<and> list_ex (\<lambda>(g, d). g = h) l"

lemma view_change:
  assumes "log_change s t" and "log_inv s js" and "log_inv t ks"
  shows "view t = (dom (handle_map (vtab s)), map (\<lambda>i. (virt (ent s i), call (ent t i))) ks)"
proof -
  have "dom (handle_map (vtab t)) = dom (handle_map (vtab s))"
    using log_change_keeps(2) [OF assms(1)] assms(2) by (simp add: log_inv_def)
  moreover have "log_list t = map (\<lambda>i. (virt (ent s i), call (ent t i))) ks"
    using log_list_inv [of t ks] assms(1,3) by (simp add: log_inv_def log_change_def)
  ultimately show ?thesis by (simp add: view_def)
qed

lemma view_inv: "log_inv s js \<Longrightarrow> view s = (dom (handle_map (vtab s)), map (\<lambda>i. (virt (ent s i), call (ent s i))) js)"
  by (rule view_change [OF log_change_refl])

lemma step_refines:
  assumes ok: "log_ok s" and en: "log_enabled a (view s)"
  shows "\<exists>t. log_step env a s = Ok t \<and> log_ok t \<and> view t = log_spec a (view s)"
proof -
  obtain js where inv: "log_inv s js" using ok by (auto simp: log_ok_def)
  have tab: "vtable_ok (ctab s) (vtab s)" and r: "log_rep s js" using inv by (simp_all add: log_inv_def)
  note v = view_inv [OF inv]
  show ?thesis
  proof (cases a)
    case (Post req sbuf rbuf cnt type remote tag comm h)
    have h: "req \<noteq> UNKNOW_REQUEST" "h \<in> dom (handle_map (vtab s))" "\<And>i. i \<in> set js \<Longrightarrow> virt (ent s i) \<noteq> h"
      using en unfolding v Post by (auto simp: list_all_iff)
    obtain i where i0: "lookup_virt_id_entry False (vtab s) (ucast h) = Some i"
      using h(2) by (auto simp: handle_map_def)
    then have i: "lookup_virt_id_entry (wide_handles env) (vtab s) (ucast h) = Some i" "virt (ent s i) = h"
      unfolding lookup_ent [OF tab] by auto
    have "i \<notin> set js" using h(3) i(2) by auto
    from post_spec [OF inv i(1) this h(1) refl, of sbuf rbuf cnt type remote tag comm]
    obtain t where t: "log_step env a s = Ok t" "log_change s t" "log_inv t (js @ [i])"
      "call (ent t i) = posted_call req sbuf rbuf cnt type remote tag comm"
      "\<forall>j. j \<noteq> i \<longrightarrow> call (ent t j) = call (ent s j)"
      unfolding Post by (auto simp: state_of_def)
    have "map (\<lambda>i. (virt (ent s i), call (ent t i))) js = map (\<lambda>i. (virt (ent s i), call (ent s i))) js"
      by (rule map_cong [OF refl]) (use t(5) \<open>i \<notin> set js\<close> in auto)
    then have "view t = log_spec a (view s)" using view_change [OF t(2) inv t(3)] t(4) i(2) v unfolding Post by simp
    then show ?thesis using t(1,3) by (auto simp: log_ok_def)
  next
    case (Clear h)
    from clear_spec [OF inv, of env h]
    obtain t where t: "log_step env a s = Ok t" "log_change s t" "log_inv t (filter (\<lambda>j. virt (ent s j) \<noteq> h) js)"
      "\<forall>j. virt (ent s j) \<noteq> h \<longrightarrow> call (ent t j) = call (ent s j)"
      unfolding Clear by (auto simp: state_of_def)
    have "map (\<lambda>i. (virt (ent s i), call (ent t i))) (filter (\<lambda>j. virt (ent s j) \<noteq> h) js) =
        map (\<lambda>i. (virt (ent s i), call (ent s i))) (filter (\<lambda>j. virt (ent s j) \<noteq> h) js)"
      by (rule map_cong [OF refl]) (use t(4) in auto)
    then have "view t = log_spec a (view s)"
      using view_change [OF t(2) inv t(3)] v unfolding Clear by (simp add: filter_map o_def)
    then show ?thesis using t(1,3) by (auto simp: log_ok_def)
  next
    case (CountSend comm dest tag)
    from count_spec [OF inv, of comm dest tag]
    obtain t where t: "log_step env a s = Ok t" "log_change s t" "log_inv t js"
      "\<forall>j\<in>set js. call (ent t j) = call (count_later_send comm dest tag (ent s j))"
      unfolding CountSend by (auto simp: state_of_def)
    have "call (count_later_send comm dest tag e) = count_call comm dest tag (call e)" for e
      by (simp add: count_later_send_def count_call_def Let_def)
    then have "view t = log_spec a (view s)" using view_change [OF t(2) inv t(3)] t(4) v unfolding CountSend by simp
    then show ?thesis using t(1,3) by (auto simp: log_ok_def)
  next
    case (Replace h c)
    have c: "req_type c \<noteq> UNKNOW_REQUEST" "req_type c \<noteq> ISSEND_REQUEST" using en unfolding v Replace by simp_all
    obtain i where i: "i \<in> set js" "virt (ent s i) = h" using en unfolding v Replace by (auto simp: list_ex_iff)
    have "req_type c = ISSEND_REQUEST \<Longrightarrow> req_type (call (ent s i)) = ISSEND_REQUEST" using c by simp
    from replace_spec [OF inv i c(1) this, of env]
    obtain t where t: "log_step env a s = Ok t" "log_change s t" "log_inv t js"
      "\<forall>j\<in>set js. call (ent t j) = (if j = i then c else call (ent s j))"
      unfolding Replace by (auto simp: state_of_def)
    have "j = i \<longleftrightarrow> virt (ent s j) = h" if "j \<in> set js" for j
    proof -
      have "\<forall>k\<in>set js. live (vtab s) k" using r unfolding log_rep_def by blast
      then have "live (vtab s) i" "live (vtab s) j" using that i(1) by blast+
      from virt_inj [OF tab this] i(2) show ?thesis by metis
    qed
    then have "view t = log_spec a (view s)" using view_change [OF t(2) inv t(3)] t(4) v unfolding Replace by simp
    then show ?thesis using t(1,3) by (auto simp: log_ok_def)
  qed
qed

interpretation pending_log: data_refinement log_ok view "log_step env" log_enabled log_spec for env
  by unfold_locales (rule step_refines)

text \<open>Making a virtual object does not disturb the log.\<close>

lemma add_virt_keeps_log:
  assumes inv: "log_inv s js" and add: "add_virt_id (ctab s) real d kind (vtab s) = Ok (v, t)" and kind: "kind \<in> {1..6}"
  shows "log_inv (s \<lparr> vtab := t \<rparr>) js"
proof -
  have r: "log_rep s js" using inv by (simp add: log_inv_def)
  obtain fl where fl: "vtable_inv (ctab s) (vtab s) fl {}" using inv by (auto simp: log_inv_def vtable_ok_def)
  obtain i fl' where i: "vtable_inv (ctab s) t fl' {}" "\<not> live (vtab s) i" "i < 2 ^ 24" "\<not> slot_is_reserved (ctab s) i"
    "v = ucast (make_handle kind (gen (ent s i)) i)"
    "slot_entry t = (ent s)(i := new_entry real d (virt_id_next_seq (vtab s) + 1) (make_handle kind (gen (ent s i)) i) (ent s i))"
    by (rule add_virt_id_spec [OF fl add kind])
  have ni: "i \<notin> set js" using r i(2) by (auto simp: log_rep_def)
  have p: "is_pending (slot_entry t j) \<longleftrightarrow> j \<in> set js" for j
    using r ni by (cases "j = i") (auto simp: i(6) log_rep_def new_entry_def is_pending_def)
  have "seg (slot_entry t) None (pending_head s) js (pending_tail s) None =
      seg (ent s) None (pending_head s) js (pending_tail s) None"
    by (rule seg_cong) (use ni i(6) in auto)
  moreover have "filter (\<lambda>j. req_type (call (slot_entry t j)) = ISSEND_REQUEST) js =
      filter (\<lambda>j. req_type (call (ent s j)) = ISSEND_REQUEST) js"
    by (rule filter_cong [OF refl]) (use ni i(6) in auto)
  moreover have "live t j" if "j \<in> set js" for j using r that ni by (auto simp: i(6) log_rep_def live_def)
  ultimately have "log_rep (s \<lparr> vtab := t \<rparr>) js" using r p by (simp add: log_rep_def)
  then show ?thesis using i(1) by (auto simp: log_inv_def vtable_ok_def)
qed

section \<open>Properties\<close>

text \<open>C19. The linked list of pending calls implements a queue: every sequence of posted calls, completed requests,
  counted sends and replaced calls returns, and the log that the links give is the one of the abstract queue,
  in posting order.\<close>

theorem pending_log_refines_queue:
  assumes "log_ok s" and "enabled_ops log_enabled log_spec as (view s)"
  shows "\<exists>t. run_ops (log_step env) as s = Ok t \<and> log_ok t \<and> view t = fold log_spec as (view s)"
  by (rule pending_log.run_refines [OF assms])

text \<open>A process with one request and no pending call.\<close>

lemma one_request:
  obtains s :: "nat proc" and h where "log_ok s" and "h \<in> fst (view s)" and "snd (view s) = []"
proof -
  define s0 :: "nat proc" where "s0 = (sample_process []) \<lparr> vtab := empty_vtable \<rparr>"
  have c: "ctab s0 = no_constants" "vtab s0 = empty_vtable" "pending_head s0 = None" "pending_tail s0 = None"
    "pending_issends s0 = 0" by (simp_all add: s0_def sample_process_def)
  have inv0: "log_inv s0 []"
    by (simp add: log_inv_def log_rep_def c vtable_ok_empty is_pending_def zero_entry_def zero_call_def)
  obtain t where t: "add_virt_id no_constants 0x44000000 NoDesc 5 empty_vtable = Ok (0x50000000, t)"
    using add_first by blast
  have k: "(5::nat) \<in> {1..6}" by simp
  obtain h e where "handle_map t = (handle_map empty_vtable)(h \<mapsto> e)"
    by (rule add_virt_id_map [OF vtable_ok_empty t k])
  then have h: "h \<in> dom (handle_map t)" by simp
  have inv: "log_inv (s0 \<lparr> vtab := t \<rparr>) []" using add_virt_keeps_log [OF inv0 _ k] t c by simp
  then have "log_ok (s0 \<lparr> vtab := t \<rparr>)" by (auto simp: log_ok_def)
  moreover have "view (s0 \<lparr> vtab := t \<rparr>) = (dom (handle_map t), [])" using view_inv [OF inv] by simp
  ultimately show ?thesis using that [of "s0 \<lparr> vtab := t \<rparr>" h] h by simp
qed

theorem pending_log_refines_queue_witness:
  "\<exists>(s :: nat proc) t h. snd (view s) = [] \<and>
     run_ops (log_step sample_env) [Post ISSEND_REQUEST 1 0 4 7 3 9 11 h, CountSend 11 3 9] s = Ok t \<and>
     snd (view t) = [(h, (posted_call ISSEND_REQUEST 1 0 4 7 3 9 11) \<lparr> later_sends := 1 \<rparr>)]"
proof -
  obtain s :: "nat proc" and h where s: "log_ok s" "h \<in> fst (view s)" "snd (view s) = []" by (rule one_request)
  obtain hs where v: "view s = (hs, [])" "h \<in> hs" using s(2,3) by (cases "view s") simp
  have "enabled_ops log_enabled log_spec [Post ISSEND_REQUEST 1 0 4 7 3 9 11 h, CountSend 11 3 9] (view s)"
    using v by simp
  from pending_log_refines_queue [OF s(1) this, of sample_env]
  obtain t where t: "run_ops (log_step sample_env) [Post ISSEND_REQUEST 1 0 4 7 3 9 11 h, CountSend 11 3 9] s = Ok t"
    "view t = fold log_spec [Post ISSEND_REQUEST 1 0 4 7 3 9 11 h, CountSend 11 3 9] (view s)" by blast
  have "snd (view t) = [(h, (posted_call ISSEND_REQUEST 1 0 4 7 3 9 11) \<lparr> later_sends := 1 \<rparr>)]"
    unfolding t(2) v(1) by (simp add: count_call_def posted_call_def)
  then show ?thesis using t(1) s(3) by blast
qed



end
