(* ===== verification/Datatype_Refs.thy ===== *)
theory Datatype_Refs
  imports Reconstruct Posting_Order
begin

text \<open>
  The reference counts of derived datatypes.  A datatype lives as long as the application or a datatype that
  was made from it needs it, so the descriptor that a live datatype is made from again at restart always
  names datatypes that are made again before it.
\<close>

section \<open>The operations on the table as a map\<close>

definition key :: "'l env \<Rightarrow> mana_mpi_handle \<Rightarrow> int32 option" where
  "key env type = (if wide_handles env \<and> drop_bit 32 type \<noteq> 0 then None else Some (ucast type))"

definition tdesc :: "virt_id_entry \<Rightarrow> mana_datatype_desc option" where
  "tdesc e = (case desc e of TypeDesc d \<Rightarrow> Some d | _ \<Rightarrow> None)"

abbreviation hmap :: "'l proc \<Rightarrow> int32 \<rightharpoonup> virt_id_entry" where
  "hmap s \<equiv> handle_map (vtab s)"

definition bump :: "int \<Rightarrow> virt_id_entry \<Rightarrow> virt_id_entry" where
  "bump n e = (case desc e of TypeDesc d \<Rightarrow> e \<lparr> desc := TypeDesc (d \<lparr> refs := refs d + n \<rparr>) \<rparr> | _ \<Rightarrow> e)"

lemma key_lookup:
  "lookup_virt_id_entry (wide_handles env) t type =
     (case key env type of None \<Rightarrow> None | Some h \<Rightarrow> lookup_virt_id_entry (wide_handles env) t (ucast h))"
  by (subst lookup_any) (simp add: key_def)

lemma lookup_key: "lookup env s type = Option.bind (key env type) (hmap s)"
  unfolding lookup_def key_lookup [of env "vtab s" type]
  by (cases "key env type") (simp_all add: handle_map_def lookup_handle_map(1) [of "wide_handles env"])

lemma datatype_desc_key: "datatype_desc env type s = Option.bind (Option.bind (key env type) (hmap s)) tdesc"
  unfolding datatype_desc_def lookup_key
  by (cases "Option.bind (key env type) (hmap s)") (simp_all add: tdesc_def del: bind_assoc)

lemma bump_0 [simp]: "bump 0 e = e"
  by (cases e) (auto simp: bump_def split: descriptor.split)

lemma bump_none: "map_option (bump (if b then n else 0)) x = (if b then map_option (bump n) x else x)"
  by (cases x) simp_all

lemma bump_bump [simp]: "bump m (bump n e) = bump (m + n) e"
  by (auto simp: bump_def ac_simps split: descriptor.split)

lemma bump_sel [simp]: "virt (bump n e) = virt e" "seq (bump n e) = seq e" "call (bump n e) = call e"
  "next_free (bump n e) = next_free e" "gen (bump n e) = gen e" "pending_next (bump n e) = pending_next e"
  by (auto simp: bump_def split: descriptor.split)

lemma tdesc_bump [simp]: "tdesc (bump n e) = map_option (\<lambda>d. d \<lparr> refs := refs d + n \<rparr>) (tdesc e)"
  by (auto simp: bump_def tdesc_def split: descriptor.split)

text \<open>What the operations on datatypes keep: the constants, the lower half and the log of pending calls.\<close>

definition same_log :: "'l proc \<Rightarrow> 'l proc \<Rightarrow> bool" where
  "same_log s t \<longleftrightarrow> ctab t = ctab s \<and> low t = low s \<and> pending_head t = pending_head s \<and> freed_types t = freed_types s \<and>
     virt_id_next_seq (vtab s) \<le> virt_id_next_seq (vtab t) \<and>
     (\<forall>i. pending_next (ent t i) = pending_next (ent s i) \<and> nb_datatype (call (ent t i)) = nb_datatype (call (ent s i)))"

lemma same_log_refl: "same_log s s"
  by (simp add: same_log_def)

lemma same_log_trans: "same_log s t \<Longrightarrow> same_log t u \<Longrightarrow> same_log s u"
  by (auto simp: same_log_def)

lemma change_refs:
  assumes ok: "vtable_ok (ctab s) (vtab s)"
  obtains t where "set_datatype_desc env type (\<lambda>d. d \<lparr> refs := refs d + n \<rparr>) s = Ok ((), t)"
    and "vtable_ok (ctab t) (vtab t)" and "same_log s t"
    and "hmap t = (\<lambda>h. map_option (bump (if key env type = Some h then n else 0)) (hmap s h))"
proof (cases "lookup_virt_id_entry (wide_handles env) (vtab s) type")
  case None
  then have "hmap s h = None" if "key env type = Some h" for h
    using that unfolding key_lookup [of env "vtab s" type] by (simp add: lookup_handle_map(3))
  then have "hmap s = (\<lambda>h. map_option (bump (if key env type = Some h then n else 0)) (hmap s h))"
    by (intro ext) (simp add: bump_none)
  then show ?thesis
    using that [of s] ok None by (simp add: set_datatype_desc_def modify_def same_log_refl)
next
  case (Some i)
  then obtain h where h: "key env type = Some h" "lookup_virt_id_entry (wide_handles env) (vtab s) (ucast h) = Some i"
    unfolding key_lookup [of env "vtab s" type] by (auto split: option.splits)
  let ?t = "with_entry i (bump n) s"
  have b: "(\<lambda>e. case desc e of TypeDesc d \<Rightarrow> e \<lparr> desc := TypeDesc (d \<lparr> refs := refs d + n \<rparr>) \<rparr> | _ \<Rightarrow> e) = bump n"
    by (simp add: bump_def fun_eq_iff)
  have live: "live (vtab s) i" "virt (ent s i) = h" using h(2) lookup_ent [OF ok] by auto
  have ent: "ent ?t = (ent s)(i := bump n (ent s i))"
    by (rule ent_with_entry) (rule live_has_chunk [OF ok live(1)])
  have ch: "log_change s ?t" by (rule log_change_with_entry) (simp add: keeps_handle_def)
  note ok' = log_change_keeps(1) [OF ch ok]
  obtain fl fl' where inv: "vtable_inv (ctab s) (vtab s) fl {}" "vtable_inv (ctab s) (vtab ?t) fl' {}"
    using ok ok' by (auto simp: vtable_ok_def)
  have "hmap ?t = (hmap s)(h \<mapsto> bump n (ent s i))"
    using handle_map_change [OF inv ent live(1)] live(2) by simp
  moreover have "hmap s h = Some (ent s i)"
    using h(2) lookup_handle_map(1) [of "wide_handles env" "vtab s" h] by (simp add: handle_map_def)
  ultimately have "hmap ?t = (\<lambda>h. map_option (bump (if key env type = Some h then n else 0)) (hmap s h))"
    by (simp add: fun_eq_iff h(1) bump_none)
  moreover have "same_log s ?t" by (simp only: same_log_def ent) (simp add: with_entry_def)
  ultimately show ?thesis
    using that [of ?t] ok' by (simp add: set_datatype_desc_def modify_def Some b)
qed

text \<open>Several references at once: the count of each datatype in the list is added.\<close>

definition keys :: "'l env \<Rightarrow> mana_mpi_handle list \<Rightarrow> int32 list" where
  "keys env types = List.map_filter (key env) types"

lemma keys_simps [simp]:
  "keys env [] = []" "keys env (x # xs) = (case key env x of None \<Rightarrow> keys env xs | Some h \<Rightarrow> h # keys env xs)"
  "keys env (xs @ ys) = keys env xs @ keys env ys"
  by (simp_all add: keys_def map_filter_def split: option.split)

lemma add_refs:
  assumes "vtable_ok (ctab s) (vtab s)"
  shows "\<exists>us t. each (\<lambda>old. set_datatype_desc env old (\<lambda>x. x \<lparr> refs := refs x + 1 \<rparr>)) olds s = Ok (us, t) \<and>
    vtable_ok (ctab t) (vtab t) \<and> same_log s t \<and>
    hmap t = (\<lambda>h. map_option (bump (int (count_list (keys env olds) h))) (hmap s h))"
  using assms
proof (induction olds arbitrary: s)
  case Nil
  then show ?case by (simp add: ret_def same_log_refl option.map_ident)
next
  case (Cons old olds)
  obtain t where t: "set_datatype_desc env old (\<lambda>d. d \<lparr> refs := refs d + 1 \<rparr>) s = Ok ((), t)"
    "vtable_ok (ctab t) (vtab t)" "same_log s t"
    "hmap t = (\<lambda>h. map_option (bump (if key env old = Some h then 1 else 0)) (hmap s h))"
    by (rule change_refs [OF Cons.prems, of env old 1])
  obtain us u where u: "each (\<lambda>old. set_datatype_desc env old (\<lambda>x. x \<lparr> refs := refs x + 1 \<rparr>)) olds t = Ok (us, u)"
    "vtable_ok (ctab u) (vtab u)" "same_log t u"
    "hmap u = (\<lambda>h. map_option (bump (int (count_list (keys env olds) h))) (hmap t h))"
    using Cons.IH [OF t(2)] by blast
  have "hmap u = (\<lambda>h. map_option (bump (int (count_list (keys env (old # olds)) h))) (hmap s h))"
    unfolding u(4) t(4) by (rule ext) (auto simp: option.map_comp comp_def ac_simps split: option.split)
  then show ?case
    using t(1) u same_log_trans [OF t(3)] by (simp add: andthen_def ret_def)
qed

section \<open>Exact counts\<close>

text \<open>The datatypes whose references a datatype holds, and the references that a datatype gets from the live
  ones.\<close>

definition tolds :: "'l env \<Rightarrow> virt_id_entry \<Rightarrow> int32 list" where
  "tolds env e = (case tdesc e of None \<Rightarrow> [] | Some d \<Rightarrow> keys env (released_olds d))"

definition inrefs :: "'l env \<Rightarrow> (int32 \<rightharpoonup> virt_id_entry) \<Rightarrow> int32 \<Rightarrow> nat" where
  "inrefs env M h = (\<Sum>k\<in>dom M. count_list (tolds env (the (M k))) h)"

text \<open>A value that is no handle and never becomes one: its kind is none or its slot is reserved.\<close>

definition never :: "constants \<Rightarrow> int32 \<Rightarrow> bool" where
  "never c h \<longleftrightarrow> \<not> (1 \<le> unat h div 2 ^ 28 \<and> unat h div 2 ^ 28 \<le> 6) \<or> slot_is_reserved c (unat h mod 2 ^ 24)"

text \<open>\<open>held\<close> are the datatypes with a reference of the application, \<open>todo\<close> the references still to be released.\<close>

definition type_ok ::
  "'l env \<Rightarrow> constants \<Rightarrow> int32 set \<Rightarrow> int32 list \<Rightarrow> (int32 \<rightharpoonup> virt_id_entry) \<Rightarrow> int32 \<Rightarrow> virt_id_entry \<Rightarrow> mana_datatype_desc \<Rightarrow> bool"
where
  "type_ok env c held todo M h e d \<longleftrightarrow>
     refs d = int (inrefs env M h + of_bool (h \<in> held) + count_list todo h) \<and> 1 \<le> refs d \<and>
     handle_kind h = int MANA_DATATYPE_KIND \<and> req_type (call e) = UNKNOW_REQUEST \<and>
     (\<forall>h'\<in>set (tolds env e). never c h' \<or> (\<exists>e' d'. M h' = Some e' \<and> tdesc e' = Some d' \<and> seq e' < seq e))"

definition refs_ok :: "'l env \<Rightarrow> constants \<Rightarrow> int32 set \<Rightarrow> int32 list \<Rightarrow> (int32 \<rightharpoonup> virt_id_entry) \<Rightarrow> bool" where
  "refs_ok env c held todo M \<longleftrightarrow> finite (dom M) \<and>
     (\<forall>h e d. M h = Some e \<longrightarrow> tdesc e = Some d \<longrightarrow> type_ok env c held todo M h e d) \<and>
     (\<forall>h\<in>held. Option.bind (M h) tdesc \<noteq> None)"

lemma released_olds_refs [simp]: "released_olds (d \<lparr> refs := n \<rparr>) = released_olds d"
  by (simp add: released_olds_def)

lemma tolds_bump [simp]: "tolds env (bump n e) = tolds env e"
  by (simp add: tolds_def split: option.split)

lemma inrefs_bump [simp]: "inrefs env (\<lambda>h. map_option (bump (f h)) (M h)) k = inrefs env M k"
proof -
  have "dom (\<lambda>h. map_option (bump (f h)) (M h)) = dom M" by (auto simp: dom_def)
  then show ?thesis unfolding inrefs_def by (intro sum.cong) auto
qed

lemma inrefs_add:
  assumes "finite (dom M)" and "M h = None"
  shows "inrefs env (M(h \<mapsto> e)) k = count_list (tolds env e) k + inrefs env M k"
proof -
  have h: "h \<notin> dom M" using assms by auto
  then have "(\<Sum>j\<in>dom M. count_list (tolds env (the ((M(h \<mapsto> e)) j))) k) = inrefs env M k"
    unfolding inrefs_def by (intro sum.cong) auto
  then show ?thesis unfolding inrefs_def using assms(1) h by simp
qed

lemma inrefs_remove:
  assumes "finite (dom M)" and "M h = Some e"
  shows "inrefs env M k = count_list (tolds env e) k + inrefs env (M(h := None)) k"
  using inrefs_add [of "M(h := None)" h env e k] assms by (simp add: map_upd_triv)

section \<open>Release\<close>

lemma refs_okD:
  assumes "refs_ok env c held todo M" and "M h = Some e" and "tdesc e = Some d"
  shows "type_ok env c held todo M h e d"
  using assms unfolding refs_ok_def by blast

text \<open>A reference to a value that is no live datatype does not matter.\<close>

lemma refs_ok_skip:
  assumes "refs_ok env c held (h # todo) M" and "Option.bind (M h) tdesc = None"
  shows "refs_ok env c held todo M"
proof -
  have "type_ok env c held todo M k e d" if "M k = Some e" "tdesc e = Some d" for k e d
    using refs_okD [OF assms(1) that] assms(2) that by (cases "k = h") (simp_all add: type_ok_def)
  then show ?thesis using assms(1) by (simp add: refs_ok_def)
qed

text \<open>A reference is dropped and others are left.\<close>

lemma refs_ok_drop:
  assumes ok: "refs_ok env c held (h # todo) M" and h: "M h = Some e" "tdesc e = Some d" and more: "1 < refs d"
  shows "refs_ok env c held todo (\<lambda>k. map_option (bump (if k = h then -1 else 0)) (M k))"
proof -
  let ?M = "\<lambda>k. map_option (bump (if k = h then -1 else 0)) (M k)"
  have "type_ok env c held todo ?M k e' d'" if k: "?M k = Some e'" "tdesc e' = Some d'" for k e' d'
  proof -
    obtain e0 where e0: "M k = Some e0" "e' = bump (if k = h then -1 else 0) e0" using k(1) by auto
    then obtain d0 where d0: "tdesc e0 = Some d0" "d' = d0 \<lparr> refs := refs d0 + (if k = h then -1 else 0) \<rparr>"
      using k(2) by auto
    have "type_ok env c held (h # todo) M k e0 d0" by (rule refs_okD [OF ok e0(1) d0(1)])
    moreover have "k = h \<Longrightarrow> d0 = d" using e0(1) d0(1) h by simp
    moreover have "\<exists>e' d'. ?M k' = Some e' \<and> tdesc e' = Some d' \<and> seq e' < n"
      if "M k' = Some e1" "tdesc e1 = Some d1" "seq e1 < n" for k' e1 d1 n
      using that by auto
    ultimately show ?thesis
      unfolding type_ok_def inrefs_bump using more by (auto simp: e0(2) d0(2) split: if_splits)
  qed
  moreover have "dom ?M = dom M" by (auto simp: dom_def)
  moreover have "Option.bind (?M k) tdesc = None \<longleftrightarrow> Option.bind (M k) tdesc = None" for k by (cases "M k") simp_all
  ultimately show ?thesis using ok unfolding refs_ok_def by simp
qed

text \<open>The last reference: the datatype goes, and its references are to be released.\<close>

lemma refs_ok_free:
  assumes ok: "refs_ok env c held (h # todo) M" and h: "M h = Some e" "tdesc e = Some d" and last: "refs d = 1"
  shows "refs_ok env c held (tolds env e @ todo) (M(h := None))" and "h \<notin> held" and "h \<notin> set todo"
proof -
  have fin: "finite (dom M)" using ok by (simp add: refs_ok_def)
  have "type_ok env c held (h # todo) M h e d" by (rule refs_okD [OF ok h])
  then have zero: "inrefs env M h = 0" "h \<notin> held" "count_list todo h = 0"
    using last by (cases "h \<in> held"; auto simp: type_ok_def)+
  then show "h \<notin> held" "h \<notin> set todo" by (auto simp: count_list_0_iff)
  have nobody: "h \<notin> set (tolds env e')" if "M k = Some e'" for k e'
    using zero(1) fin that unfolding inrefs_def by (force simp: count_list_0_iff)
  have "type_ok env c held (tolds env e @ todo) (M(h := None)) k e' d'"
    if k: "(M(h := None)) k = Some e'" "tdesc e' = Some d'" for k e' d'
  proof -
    have k': "k \<noteq> h" "M k = Some e'" using k(1) by (auto split: if_splits)
    have "type_ok env c held (h # todo) M k e' d'" by (rule refs_okD [OF ok k'(2) k(2)])
    then show ?thesis
      using inrefs_remove [OF fin h(1), of env k] k'(1) nobody [OF k'(2)] unfolding type_ok_def by auto
  qed
  then show "refs_ok env c held (tolds env e @ todo) (M(h := None))"
    using fin ok zero(2) unfolding refs_ok_def by auto
qed

lemma free_desc_chunks: "virt_id_chunks (free_desc d k t) = virt_id_chunks t"
  by (simp add: free_desc_def split: descriptor.split)

lemma set_entry_slot: "slot_entry (set_entry j e t) i = (if i = j \<and> has_chunk t j then e else slot_entry t i)"
proof (cases "has_chunk t j")
  case False
  then show ?thesis by (simp add: set_entry_def slot_entry_def has_chunk_def)
qed (simp add: slot_entry_set_entry)

lemma free_virt_id_links:
  assumes "free_virt_id w v t = Ok t'"
  shows "pending_next (slot_entry t' i) = pending_next (slot_entry t i) \<and> call (slot_entry t' i) = call (slot_entry t i)"
proof (cases "lookup_virt_id_entry w t v")
  case None
  then show ?thesis using assms by (simp add: free_virt_id_def)
next
  case (Some j)
  define e' where "e' = (slot_entry t j) \<lparr> gen := gen (slot_entry t j) + 1, virt := 0, desc := NoDesc, next_free := virt_id_free_head t \<rparr>"
  define u where "u = free_desc (desc (slot_entry t j)) (handle_kind (ucast v)) t"
  have "virt_id_chunks t' = virt_id_chunks (set_entry j e' u)"
    using assms by (auto simp: free_virt_id_def Some Let_def e'_def [symmetric] u_def [symmetric] split: if_splits)
  then have "slot_entry t' i = slot_entry (set_entry j e' u) i" by (rule slot_entry_cong [THEN fun_cong])
  moreover have "slot_entry u = slot_entry t" unfolding u_def by (rule slot_entry_cong) (rule free_desc_chunks)
  moreover have "pending_next e' = pending_next (slot_entry t j)" "call e' = call (slot_entry t j)"
    by (simp_all add: e'_def)
  ultimately show ?thesis by (simp add: set_entry_slot)
qed

lemma free_type:
  assumes ok: "vtable_ok (ctab s) (vtab s)" and k: "key env type = Some h" and h: "hmap s h = Some e"
    and idle: "req_type (call e) = UNKNOW_REQUEST"
  obtains t where "free_virt env type s = Ok ((), t)" and "vtable_ok (ctab t) (vtab t)" and "same_log s t"
    and "hmap t = (hmap s)(h := None)"
proof -
  obtain v' where v': "free_virt_id (wide_handles env) (ucast h) (vtab s) = Ok v'" "vtable_ok (ctab s) v'"
    "handle_map v' = (hmap s)(h := None)" "virt_id_next_seq v' = virt_id_next_seq (vtab s)"
    by (rule free_virt_id_map [OF ok h idle, of "wide_handles env"])
  have kh: "ucast type = h" using k by (auto simp: key_def split: if_splits)
  have "free_virt_id (wide_handles env) type (vtab s) = free_virt_id (wide_handles env) (ucast h) (vtab s)"
    unfolding free_virt_id_def key_lookup [of env "vtab s" type] k option.case kh ucast_handle(2) ..
  then have "free_virt env type s = Ok ((), s \<lparr> vtab := v' \<rparr>)"
    using v'(1) by (simp add: free_virt_def change_table_def on_table_def)
  moreover have "same_log s (s \<lparr> vtab := v' \<rparr>)"
    using free_virt_id_links [OF v'(1)] v'(4) by (simp add: same_log_def)
  ultimately show ?thesis using that v' by simp
qed

lemma keys_released: "tdesc e = Some d \<Longrightarrow> keys env (released_olds d) = tolds env e"
  by (simp add: tolds_def)

text \<open>Releases end and keep the counts exact.\<close>

definition releases :: "'l env \<Rightarrow> int32 set \<Rightarrow> mana_mpi_handle list \<Rightarrow> 'l proc \<Rightarrow> bool" where
  "releases env held types s \<longleftrightarrow>
     (\<exists>t. release_all env types s = Some (Ok ((), t)) \<and> vtable_ok (ctab t) (vtab t) \<and> same_log s t \<and>
        refs_ok env (ctab t) held [] (hmap t))"

lemma releases_from:
  "releases env held types t \<Longrightarrow> same_log s t \<Longrightarrow> release_all env types' s = release_all env types t \<Longrightarrow>
    releases env held types' s"
  unfolding releases_def by (metis same_log_trans)

lemma release_step:
  assumes ok: "vtable_ok (ctab s) (vtab s)" "refs_ok env (ctab s) held (keys env (type # types)) (hmap s)"
    and same: "\<And>t. vtable_ok (ctab t) (vtab t) \<Longrightarrow> refs_ok env (ctab t) held (keys env types) (hmap t) \<Longrightarrow>
      dom (hmap t) = dom (hmap s) \<Longrightarrow> releases env held types t"
    and less: "\<And>t types. vtable_ok (ctab t) (vtab t) \<Longrightarrow> refs_ok env (ctab t) held (keys env types) (hmap t) \<Longrightarrow>
      dom (hmap t) \<subset> dom (hmap s) \<Longrightarrow> releases env held types t"
  shows "releases env held (type # types) s"
proof (cases "datatype_desc env type s")
  case None
  then have "refs_ok env (ctab s) held (keys env types) (hmap s)"
    using ok(2) refs_ok_skip unfolding datatype_desc_key by (auto split: option.splits)
  moreover have "release_all env (type # types) s = release_all env types s"
    by (subst release_all.simps) (simp add: None)
  ultimately show ?thesis using releases_from [OF same [OF ok(1)] same_log_refl] by simp
next
  case (Some d)
  then obtain h e where h: "key env type = Some h" "hmap s h = Some e" "tdesc e = Some d"
    unfolding datatype_desc_key by (auto simp: bind_eq_Some_conv)
  have ok': "refs_ok env (ctab s) held (h # keys env types) (hmap s)" using ok(2) h(1) by simp
  have tok: "type_ok env (ctab s) held (h # keys env types) (hmap s) h e d" by (rule refs_okD [OF ok' h(2,3)])
  obtain t where t: "set_datatype_desc env type (\<lambda>d. d \<lparr> refs := refs d + -1 \<rparr>) s = Ok ((), t)"
    "vtable_ok (ctab t) (vtab t)" "same_log s t"
    "hmap t = (\<lambda>k. map_option (bump (if key env type = Some k then -1 else 0)) (hmap s k))"
    by (rule change_refs [OF ok(1), of env type "-1"])
  have M: "hmap t = (\<lambda>k. map_option (bump (if k = h then -1 else 0)) (hmap s k))" using t(4) h(1) by auto
  have step: "release_all env (type # types) s =
      (if refs d - 1 > 0 then release_all env types t
       else case free_virt env type t of Inl e \<Rightarrow> Some (Inl e)
            | Inr (_, u) \<Rightarrow> release_all env (released_olds d @ types) u)"
    using t(1) by (subst release_all.simps) (simp add: Some)
  show ?thesis
  proof (cases "1 < refs d")
    case True
    have "refs_ok env (ctab s) held (keys env types) (hmap t)" unfolding M by (rule refs_ok_drop [OF ok' h(2,3) True])
    then show ?thesis
      using releases_from [OF same [OF t(2)] t(3)] step True M t(3) by (simp add: dom_def same_log_def)
  next
    case False
    then have one: "refs d = 1" using tok by (simp add: type_ok_def)
    have th: "hmap t h = Some (bump (-1) e)" by (simp add: M h(2))
    obtain u where u: "free_virt env type t = Ok ((), u)" "vtable_ok (ctab u) (vtab u)" "same_log t u"
      "hmap u = (hmap t)(h := None)"
      by (rule free_type [OF t(2) h(1) th]) (use tok in \<open>simp_all add: type_ok_def\<close>)
    have Mu: "hmap u = (hmap s)(h := None)" unfolding u(4) M by (rule ext) (simp add: bump_none)
    have "refs_ok env (ctab s) held (keys env (released_olds d @ types)) (hmap u)"
      using refs_ok_free(1) [OF ok' h(2,3) one] unfolding Mu by (simp add: keys_released [OF h(3)])
    moreover have "dom (hmap u) \<subset> dom (hmap s)" unfolding Mu using h(2) by auto
    moreover note su = same_log_trans [OF t(3) u(3)]
    ultimately have "releases env held (released_olds d @ types) u"
      using less [OF u(2)] by (simp add: same_log_def)
    then show ?thesis by (rule releases_from [OF _ su]) (simp add: step one u(1))
  qed
qed

lemma releases_all:
  assumes "vtable_ok (ctab s) (vtab s)" and "refs_ok env (ctab s) held (keys env types) (hmap s)"
  shows "releases env held types s"
  using assms
proof (induction "card (dom (hmap s))" arbitrary: s types rule: less_induct)
  case less
  note outer = less
  define n where "n = card (dom (hmap s))"
  have smaller: "releases env held types t" if "card (dom (hmap t)) < n"
    "vtable_ok (ctab t) (vtab t)" "refs_ok env (ctab t) held (keys env types) (hmap t)" for t types
    using outer(1) that unfolding n_def by blast
  have "releases env held types s" if "card (dom (hmap s)) = n"
    "vtable_ok (ctab s) (vtab s)" "refs_ok env (ctab s) held (keys env types) (hmap s)" for s types
    using that
  proof (induction types arbitrary: s)
    case Nil
    moreover have "release_all env [] s = Some (Ok ((), s))" by (subst release_all.simps) simp
    ultimately show ?case by (simp add: releases_def same_log_refl)
  next
    case (Cons type types)
    have fin: "finite (dom (hmap s))" using Cons.prems(3) by (simp add: refs_ok_def)
    show ?case
      by (rule release_step [OF Cons.prems(2,3)])
        (use Cons.IH Cons.prems(1) smaller psubset_card_mono [OF fin] in \<open>auto simp del: keys_simps\<close>)
  qed
  then show ?case using outer(2,3) n_def by blast
qed

lemma release_datatype_ok:
  assumes "vtable_ok (ctab s) (vtab s)" and "refs_ok env (ctab s) (insert h held) [] (hmap s)" and "h \<notin> held"
  obtains t where "release_datatype env (ucast h) s = Ok ((), t)" and "vtable_ok (ctab t) (vtab t)"
    and "same_log s t" and "refs_ok env (ctab t) held [] (hmap t)"
proof -
  have k: "keys env [ucast h] = [h]" by (simp add: key_def ucast_handle)
  have "type_ok env (ctab s) held [h] (hmap s) k e d" if "type_ok env (ctab s) (insert h held) [] (hmap s) k e d" for k e d
    using that assms(3) by (cases "k = h") (simp_all add: type_ok_def)
  then have "refs_ok env (ctab s) held (keys env [ucast h]) (hmap s)"
    using assms(2) unfolding k refs_ok_def by blast
  from releases_all [OF assms(1) this] show ?thesis
    using that unfolding releases_def release_datatype_def by auto
qed

section \<open>New datatypes\<close>

text \<open>A datatype can be made from predefined datatypes and from live ones.\<close>

definition valid_olds :: "'l env \<Rightarrow> 'l proc \<Rightarrow> mana_datatype_desc \<Rightarrow> bool" where
  "valid_olds env s d \<longleftrightarrow>
     (\<forall>h\<in>set (keys env (released_olds d)). never (ctab s) h \<or> Option.bind (hmap s h) tdesc \<noteq> None) \<and>
     (oldtypes_of d = [] \<longrightarrow> (\<forall>h\<in>set (keys env [oldtype d]). never (ctab s) h))"

lemma live_not_never:
  assumes "vtable_ok c t" and "handle_map t h = Some e"
  shows "\<not> never c h" and "seq e \<le> virt_id_next_seq t"
proof -
  obtain fl where inv: "vtable_inv c t fl {}" using assms(1) by (auto simp: vtable_ok_def)
  obtain i where i: "slot_entry t i = e" "virt e = h" "live t i"
    using assms(2) handle_map_iff [OF inv] by (auto simp: live_def)
  obtain k where k: "k \<in> {1..6}" "virt (slot_entry t i) = make_handle k (gen (slot_entry t i)) i" "i < 2 ^ 24"
    "\<not> slot_is_reserved c i"
    by (rule slot_ok_handle [OF inv i(3)])
  then show "\<not> never c h" using i make_handle_parts [of k i] by (auto simp: never_def)
  show "seq e \<le> virt_id_next_seq t" using inv i by (auto simp: vtable_inv_def slot_ok_def)
qed

lemma released_count:
  assumes "valid_olds env s d" and "\<not> never (ctab s) k"
  shows "count_list (keys env (released_olds d)) k = count_list (keys env (oldtypes_of d)) k"
proof (cases "oldtypes_of d = []")
  case True
  then have "released_olds d = [oldtype d]" by (simp add: released_olds_def oldtypes_of_def split: if_splits)
  then show ?thesis using True assms by (auto simp: valid_olds_def count_list_0_iff split: option.splits)
next
  case False
  then have "released_olds d = oldtypes_of d" by (auto simp: released_olds_def oldtypes_of_def Let_def split: if_splits)
  then show ?thesis by simp
qed

lemma refs_ok_new:
  assumes ok: "refs_ok env (ctab s) held [] (hmap s)" and vt: "vtable_ok (ctab s) (vtab s)"
    and d: "valid_olds env s d" and h: "hmap s h = None" "\<not> never (ctab s) h"
    and kind: "handle_kind h = int MANA_DATATYPE_KIND"
    and e: "tdesc e = Some (d \<lparr> refs := 1 \<rparr>)" "req_type (call e) = UNKNOW_REQUEST" "virt_id_next_seq (vtab s) < seq e"
  shows "refs_ok env (ctab s) (insert h held) []
    ((\<lambda>k. map_option (bump (int (count_list (keys env (oldtypes_of d)) k))) (hmap s k))(h \<mapsto> e))"
proof -
  let ?B = "\<lambda>k. map_option (bump (int (count_list (keys env (oldtypes_of d)) k))) (hmap s k)"
  let ?M = "?B(h \<mapsto> e)"
  have fin: "finite (dom (hmap s))" using ok by (simp add: refs_ok_def)
  have domB: "dom ?B = dom (hmap s)" by (auto simp: dom_def)
  have te: "tolds env e = keys env (released_olds d)" using keys_released [OF e(1), of env] by simp
  have inr: "inrefs env ?M k = count_list (tolds env e) k + inrefs env (hmap s) k" for k
    using inrefs_add [of ?B h env e k] fin h(1) domB by simp
  have notin: "h \<notin> set (tolds env e')" if "hmap s k = Some e'" for k e'
  proof
    assume "h \<in> set (tolds env e')"
    moreover from this obtain d' where "tdesc e' = Some d'" by (cases "tdesc e'") (auto simp: tolds_def)
    ultimately show False using refs_okD [OF ok that] h by (auto simp: type_ok_def)
  qed
  then have "inrefs env (hmap s) h = 0" unfolding inrefs_def by (simp add: count_list_0_iff domIff)
  moreover have hn: "h \<notin> set (tolds env e)" using d h by (auto simp: te valid_olds_def)
  ultimately have zero: "inrefs env ?M h = 0" by (simp add: inr count_list_0_iff)
  have bumped: "Option.bind (?B k) tdesc = None \<longleftrightarrow> Option.bind (hmap s k) tdesc = None" for k
    by (cases "hmap s k") simp_all
  have old: "\<exists>e' d'. ?M k = Some e' \<and> tdesc e' = Some d' \<and> seq e' < n"
    if "hmap s k = Some e0" "tdesc e0 = Some d0" "seq e0 < n" for k e0 d0 n
    using that h(1) by auto
  have "type_ok env (ctab s) (insert h held) [] ?M k e' d'" if k: "?M k = Some e'" "tdesc e' = Some d'" for k e' d'
  proof (cases "k = h")
    case True
    have ed: "e' = e" "d' = d \<lparr> refs := 1 \<rparr>" using True k e(1) by auto
    have "never (ctab s) x \<or> (\<exists>e' d'. ?M x = Some e' \<and> tdesc e' = Some d' \<and> seq e' < seq e)"
      if x: "x \<in> set (tolds env e)" for x
    proof (cases "never (ctab s) x")
      case False
      then have "Option.bind (hmap s x) tdesc \<noteq> None" using d x by (auto simp: te valid_olds_def)
      then obtain e0 d0 where "hmap s x = Some e0" "tdesc e0 = Some d0" by (cases "hmap s x") auto
      then show ?thesis using old [of x e0 d0 "seq e"] live_not_never(2) [OF vt] e(3) by fastforce
    qed simp
    then show ?thesis unfolding type_ok_def ed True using zero e(2) kind by (simp del: fun_upd_apply)
  next
    case False
    then obtain e0 d0 where e0: "hmap s k = Some e0" "tdesc e0 = Some d0"
      "e' = bump (int (count_list (keys env (oldtypes_of d)) k)) e0"
      "d' = d0 \<lparr> refs := refs d0 + int (count_list (keys env (oldtypes_of d)) k) \<rparr>"
      using k by auto
    have "count_list (tolds env e) k = count_list (keys env (oldtypes_of d)) k"
      unfolding te by (rule released_count [OF d live_not_never(1) [OF vt e0(1)]])
    then have c: "int (inrefs env ?M k) = int (inrefs env (hmap s) k) + int (count_list (keys env (oldtypes_of d)) k)"
      by (simp add: inr)
    note r = refs_okD [OF ok e0(1,2), unfolded type_ok_def]
    have "never (ctab s) x \<or> (\<exists>e' d'. ?M x = Some e' \<and> tdesc e' = Some d' \<and> seq e' < seq e0)"
      if "x \<in> set (tolds env e0)" for x
      using that r old by blast
    then show ?thesis
      unfolding type_ok_def e0(3,4) tolds_bump bump_sel using r False c by (simp del: fun_upd_apply)
  qed
  moreover have "dom ?M = insert h (dom (hmap s))" using domB by simp
  moreover have "Option.bind (?M x) tdesc \<noteq> None" if "x \<in> insert h held" for x
  proof (cases "x = h")
    case False
    then have "Option.bind (hmap s x) tdesc \<noteq> None" using that ok unfolding refs_ok_def by blast
    then show ?thesis using False bumped [of x] by simp
  qed (simp add: e(1))
  ultimately show ?thesis using fin unfolding refs_ok_def by (simp del: fun_upd_apply)
qed

lemma never_slot:
  assumes "kind \<in> {1..6}" and "i < 2 ^ 24" and "\<not> slot_is_reserved c i"
  shows "\<not> never c (make_handle kind g i)"
  using make_handle_parts [of kind i g] assms by (auto simp: never_def)

lemma add_type:
  assumes vt: "vtable_ok (ctab s) (vtab s)" and add: "add_virt real (TypeDesc d) MANA_DATATYPE_KIND s = Ok (v, t)"
  obtains h e where "v = ucast h" and "hmap s h = None" and "\<not> never (ctab s) h" and "vtable_ok (ctab t) (vtab t)"
    and "same_log s t" and "hmap t = (hmap s)(h \<mapsto> e)" and "tdesc e = Some d" and "req_type (call e) = UNKNOW_REQUEST"
    and "virt_id_next_seq (vtab s) < seq e" and "handle_kind h = int MANA_DATATYPE_KIND" and "real_id e = real"
proof -
  obtain t' where t': "add_virt_id (ctab s) real (TypeDesc d) 3 (vtab s) = Ok (v, t')" "t = s \<lparr> vtab := t' \<rparr>"
    using add by (auto simp: add_virt_def on_table_def bind_result_Ok_iff)
  obtain fl where inv: "vtable_inv (ctab s) (vtab s) fl {}" using vt by (auto simp: vtable_ok_def)
  obtain i fl' where i: "vtable_inv (ctab s) t' fl' {}" "\<not> live (vtab s) i" "i < 2 ^ 24" "\<not> slot_is_reserved (ctab s) i"
    "v = ucast (make_handle 3 (gen (slot_entry (vtab s) i)) i)"
    "slot_entry t' = (slot_entry (vtab s))(i := new_entry real (TypeDesc d) (virt_id_next_seq (vtab s) + 1)
       (make_handle 3 (gen (slot_entry (vtab s) i)) i) (slot_entry (vtab s) i))"
    "virt_id_next_seq t' = virt_id_next_seq (vtab s) + 1"
    by (rule add_virt_id_spec [OF inv t'(1)]) simp_all
  let ?h = "make_handle 3 (gen (slot_entry (vtab s) i)) i"
  let ?e = "new_entry real (TypeDesc d) (virt_id_next_seq (vtab s) + 1) ?h (slot_entry (vtab s) i)"
  have v: "virt ?e = ?h" "virt ?e \<noteq> 0" using i(3) make_handle_nonzero [of 3 i] by (simp_all add: new_entry_def)
  note map = handle_map_add [OF inv i(1,6,2) v(2), unfolded v(1)]
  have "same_log s t" using i(6,7) by (simp add: same_log_def t'(2) new_entry_def)
  moreover have "handle_kind ?h = int 3" using i(3) by (simp add: handle_kind_make_handle)
  ultimately show ?thesis
    using that [of ?h ?e] map i(5) never_slot [of 3 i "ctab s"] i(1,3,4)
    by (auto simp: t'(2) vtable_ok_def new_entry_def tdesc_def)
qed

lemma new_virt_datatype_ok:
  assumes vt: "vtable_ok (ctab s) (vtab s)" and ok: "refs_ok env (ctab s) held [] (hmap s)" and d: "valid_olds env s d"
    and new: "new_virt_datatype env real d s = Ok (v, t)"
  obtains h where "v = ucast h" and "hmap s h = None" and "vtable_ok (ctab t) (vtab t)" and "same_log s t"
    and "refs_ok env (ctab t) (insert h held) [] (hmap t)"
proof -
  obtain us u where u: "each (\<lambda>old. set_datatype_desc env old (\<lambda>x. x \<lparr> refs := refs x + 1 \<rparr>)) (oldtypes_of d) s = Ok (us, u)"
    "vtable_ok (ctab u) (vtab u)" "same_log s u"
    "hmap u = (\<lambda>h. map_option (bump (int (count_list (keys env (oldtypes_of d)) h))) (hmap s h))"
    using add_refs [OF vt] by blast
  have "add_virt real (TypeDesc (d \<lparr> refs := 1 \<rparr>)) MANA_DATATYPE_KIND u = Ok (v, t)"
    using new u(1) by (simp add: new_virt_datatype_def andthen_def)
  then obtain h e where h: "v = ucast h" "hmap u h = None" "\<not> never (ctab u) h" "vtable_ok (ctab t) (vtab t)"
    "same_log u t" "hmap t = (hmap u)(h \<mapsto> e)" "tdesc e = Some (d \<lparr> refs := 1 \<rparr>)" "req_type (call e) = UNKNOW_REQUEST"
    "virt_id_next_seq (vtab u) < seq e" "handle_kind h = int MANA_DATATYPE_KIND"
    by (rule add_type [OF u(2)])
  have c: "ctab u = ctab s" "ctab t = ctab s" "virt_id_next_seq (vtab s) < seq e"
    using u(3) h(5,9) by (simp_all add: same_log_def)
  have hs: "hmap s h = None" using h(2) u(4) by simp
  have "refs_ok env (ctab t) (insert h held) [] (hmap t)"
    unfolding h(6) u(4) c(2) by (rule refs_ok_new [OF ok vt d hs _ h(10,7,8) c(3)]) (use h(3) c(1) in simp)
  then show ?thesis using that h(1,4) hs same_log_trans [OF u(3) h(5)] by blast
qed

section \<open>The operations of the application\<close>

lemma log_from_cases:
  "log_from t None = Some []"
  "log_from t (Some i) = Option.bind (log_from t (pending_next (slot_entry t i))) (\<lambda>is. Some (i # is))"
  by (subst log_from.simps, simp)+

lemma log_from_links:
  assumes next_eq: "\<And>i. pending_next (slot_entry u i) = pending_next (slot_entry t i)"
  shows "log_from u = log_from t"
proof -
  have half: "log_from t p = Some js \<Longrightarrow> log_from u p = Some js"
    if eq: "\<And>i. pending_next (slot_entry u i) = pending_next (slot_entry t i)" for t u p js
  proof (induction js arbitrary: p)
    case Nil
    then show ?case by (cases p) (auto simp: log_from_cases bind_eq_Some_conv)
  next
    case (Cons j js)
    then obtain i where p: "p = Some i" by (cases p) (auto simp: log_from_cases)
    then show ?case using Cons eq by (auto simp: log_from_cases bind_eq_Some_conv)
  qed
  have "log_from u p = log_from t p" for p
    using half [of u t p] half [of t u p] next_eq by (cases "log_from t p"; cases "log_from u p") auto
  then show ?thesis by blast
qed

lemma same_log_uses:
  assumes "same_log s t"
  shows "pendingCallUsesDatatype type t = map_sum id (\<lambda>(b, _). (b, t)) (pendingCallUsesDatatype type s)"
proof -
  have "log_from (vtab t) = log_from (vtab s)" by (rule log_from_links) (use assms in \<open>simp add: same_log_def\<close>)
  then show ?thesis
    using assms by (auto simp: pendingCallUsesDatatype_def log_slots_def andthen_def gets_def same_log_def
        split: option.split)
qed

text \<open>\<open>A\<close> are the datatypes that the application has, \<open>F\<close> those it freed and a pending call still uses.\<close>

definition types_inv :: "'l env \<Rightarrow> int32 set \<Rightarrow> int32 list \<Rightarrow> 'l proc \<Rightarrow> bool" where
  "types_inv env A F s \<longleftrightarrow> freed_types s = map ucast F \<and> distinct F \<and> A \<inter> set F = {} \<and>
     vtable_ok (ctab s) (vtab s) \<and> refs_ok env (ctab s) (A \<union> set F) [] (hmap s) \<and>
     log_from (vtab s) (pending_head s) \<noteq> None"

datatype type_op = MakeType mana_mpi_handle mana_datatype_desc | FreeType int32

fun type_step :: "'l env \<Rightarrow> type_op \<Rightarrow> 'l proc \<times> int32 set \<Rightarrow> ('l proc \<times> int32 set) result" where
  "type_step env (MakeType real d) (s, A) =
     (if valid_olds env s d then bind_result (new_virt_datatype env real d s) (\<lambda>(v, t). Ok (t, insert (ucast v) A))
      else Ok (s, A))"
| "type_step env (FreeType h) (s, A) =
     (if h \<in> A then bind_result (free_virt_datatype env (ucast h) s) (\<lambda>(_, t). Ok (t, A - {h})) else Ok (s, A))"

lemma uses_returns:
  assumes "types_inv env A F s"
  obtains b where "pendingCallUsesDatatype type s = Ok (b, s)"
  using assms by (auto simp: types_inv_def pendingCallUsesDatatype_def log_slots_def andthen_def gets_def split: option.splits)

lemma types_inv_same:
  assumes "types_inv env A F s" and "same_log s t" and "vtable_ok (ctab t) (vtab t)"
    and "refs_ok env (ctab t) (A' \<union> set F') [] (hmap t)" and "distinct F'" and "A' \<inter> set F' = {}"
    and "freed_types u = map ucast F'" and "vtab u = vtab t" and "ctab u = ctab t" and "pending_head u = pending_head t"
  shows "types_inv env A' F' u"
proof -
  have "log_from (vtab t) = log_from (vtab s)" by (rule log_from_links) (use assms(2) in \<open>simp add: same_log_def\<close>)
  then show ?thesis using assms by (simp add: types_inv_def same_log_def)
qed

text \<open>A reference of the application, or one kept for a pending call, is released.\<close>

lemma types_inv_release:
  assumes inv: "types_inv env A F s" and h: "h \<in> A \<union> set F" and rest: "A' \<union> set F' = (A \<union> set F) - {h}"
    and F': "distinct F'" "A' \<inter> set F' = {}"
    and u: "u = s \<lparr> freed_types := map ucast F' \<rparr>"
  shows "\<exists>t. release_datatype env (ucast h) u = Ok ((), t) \<and> types_inv env A' F' t"
proof -
  have ins: "insert h (A' \<union> set F') = A \<union> set F" "h \<notin> A' \<union> set F'" using h rest by auto
  have vt: "vtable_ok (ctab u) (vtab u)" and ok: "refs_ok env (ctab u) (insert h (A' \<union> set F')) [] (hmap u)"
    using inv unfolding ins(1) by (simp_all add: types_inv_def u)
  obtain t where t: "release_datatype env (ucast h) u = Ok ((), t)" "vtable_ok (ctab t) (vtab t)" "same_log u t"
    "refs_ok env (ctab t) (A' \<union> set F') [] (hmap t)"
    by (rule release_datatype_ok [OF vt ok ins(2)])
  have "log_from (vtab t) = log_from (vtab s)" by (rule log_from_links) (use t(3) u in \<open>simp add: same_log_def\<close>)
  then have "types_inv env A' F' t"
    using t inv F' u by (simp add: types_inv_def same_log_def)
  then show ?thesis using t(1) by blast
qed

lemma release_freed_ok:
  assumes "types_inv env A (K @ F) s"
  shows "\<exists>t F'. release_freed env (map ucast K) (map ucast F) s = Ok ((), t) \<and> types_inv env A F' t \<and> set F' \<subseteq> set (K @ F)"
  using assms
proof (induction F arbitrary: K s)
  case Nil
  then show ?case by (auto simp: ret_def)
next
  case (Cons h F)
  obtain b where b: "pendingCallUsesDatatype (ucast h) s = Ok (b, s)" by (rule uses_returns [OF Cons.prems])
  show ?case
  proof (cases b)
    case True
    then show ?thesis using Cons.IH [of "K @ [h]" s] Cons.prems b by (auto simp: andthen_def)
  next
    case False
    have "\<exists>t. release_datatype env (ucast h) (s \<lparr> freed_types := map ucast (K @ F) \<rparr>) = Ok ((), t) \<and> types_inv env A (K @ F) t"
      by (rule types_inv_release [OF Cons.prems, of h]) (use Cons.prems in \<open>auto simp: types_inv_def\<close>)
    then obtain t where t: "release_datatype env (ucast h) (s \<lparr> freed_types := map ucast (K @ F) \<rparr>) = Ok ((), t)"
      "types_inv env A (K @ F) t" by blast
    then show ?thesis using Cons.IH [OF t(2)] b False by (auto simp: andthen_def modify_def)
  qed
qed

lemma free_virt_datatype_ok:
  assumes inv: "types_inv env A F s" and h: "h \<in> A"
  shows "\<exists>t F'. free_virt_datatype env (ucast h) s = Ok ((), t) \<and> types_inv env (A - {h}) F' t"
proof -
  have "datatype_desc env (ucast h) s \<noteq> None"
    using inv h by (auto simp: types_inv_def refs_ok_def datatype_desc_key key_def ucast_handle)
  moreover obtain t F' where t: "release_freed_datatypes env s = Ok ((), t)" "types_inv env A F' t"
    using release_freed_ok [of env A "[]" F s] inv by (auto simp: release_freed_datatypes_def types_inv_def)
  moreover obtain b where b: "pendingCallUsesDatatype (ucast h) t = Ok (b, t)" by (rule uses_returns [OF t(2)])
  moreover have "\<exists>u. release_datatype env (ucast h) t = Ok ((), u) \<and> types_inv env (A - {h}) F' u"
    by (rule types_inv_release [OF t(2), of h]) (use t(2) h in \<open>auto simp: types_inv_def\<close>)
  moreover have "types_inv env (A - {h}) (F' @ [h]) (t \<lparr> freed_types := freed_types t @ [ucast h] \<rparr>)"
  proof -
    have "A - {h} \<union> set (F' @ [h]) = A \<union> set F'" using h by auto
    then show ?thesis using t(2) h by (auto simp: types_inv_def)
  qed
  ultimately show ?thesis by (cases b) (auto simp: free_virt_datatype_def andthen_def modify_def)
qed

lemma new_virt_datatype_abort:
  assumes "vtable_ok (ctab s) (vtab s)" and "new_virt_datatype env real d s = Fault f"
  shows "f = Abort"
proof -
  obtain us u where "each (\<lambda>old. set_datatype_desc env old (\<lambda>x. x \<lparr> refs := refs x + 1 \<rparr>)) (oldtypes_of d) s = Ok (us, u)"
    using add_refs [OF assms(1)] by blast
  then show ?thesis
    using assms(2) by (auto simp: new_virt_datatype_def andthen_def add_virt_def on_table_def add_virt_id_def
        alloc_slot_def Let_def bind_result_Fault_iff split: if_splits)
qed

lemma type_step_ok:
  assumes inv: "types_inv env A F s"
  shows "case type_step env a (s, A) of Inl f \<Rightarrow> f = Abort | Inr (t, B) \<Rightarrow> \<exists>F'. types_inv env B F' t"
proof (cases a)
  case (MakeType real d)
  have vt: "vtable_ok (ctab s) (vtab s)" and ok: "refs_ok env (ctab s) (A \<union> set F) [] (hmap s)"
    using inv by (auto simp: types_inv_def)
  have "\<exists>F'. types_inv env (insert (ucast v) A) F' t" if d: "valid_olds env s d" "new_virt_datatype env real d s = Ok (v, t)" for v t
  proof -
    obtain h where h: "v = ucast h" "hmap s h = None" "vtable_ok (ctab t) (vtab t)" "same_log s t"
      "refs_ok env (ctab t) (insert h (A \<union> set F)) [] (hmap t)"
      by (rule new_virt_datatype_ok [OF vt ok d])
    have "Option.bind (hmap s x) tdesc \<noteq> None" if "x \<in> A \<union> set F" for x
      using ok that unfolding refs_ok_def by blast
    then have "h \<notin> A \<union> set F" using h(2) by fastforce
    then have "types_inv env (insert h A) F t"
      by (intro types_inv_same [OF inv h(4,3)]) (use inv h(4,5) in \<open>auto simp: types_inv_def same_log_def\<close>)
    then show ?thesis unfolding h(1) ucast_handle(2) by blast
  qed
  then show ?thesis
    using inv new_virt_datatype_abort [OF vt] unfolding MakeType
    by (cases "new_virt_datatype env real d s") auto
next
  case (FreeType h)
  show ?thesis
  proof (cases "h \<in> A")
    case True
    obtain t F' where t: "free_virt_datatype env (ucast h) s = Ok ((), t)" "types_inv env (A - {h}) F' t"
      using free_virt_datatype_ok [OF inv True] by blast
    have "type_step env a (s, A) = Ok (t, A - {h})" by (simp add: FreeType True t(1))
    then show ?thesis using t(2) by auto
  next
    case False
    then show ?thesis using inv by (auto simp: FreeType)
  qed
qed

lemma type_run_ok:
  "types_inv env A F s \<Longrightarrow>
    case run_ops (type_step env) ops (s, A) of Inl f \<Rightarrow> f = Abort | Inr (t, B) \<Rightarrow> \<exists>F'. types_inv env B F' t"
proof (induction ops arbitrary: s A F)
  case (Cons a ops)
  then show ?case using type_step_ok [OF Cons.prems, of a] by (cases "type_step env a (s, A)") auto
qed auto

section \<open>Properties\<close>

text \<open>A process before its first datatype.\<close>

definition no_types :: "'l proc \<Rightarrow> bool" where
  "no_types s \<longleftrightarrow> vtable_ok (ctab s) (vtab s) \<and> (\<forall>h. Option.bind (hmap s h) tdesc = None) \<and> freed_types s = [] \<and>
     log_from (vtab s) (pending_head s) \<noteq> None"

lemma no_types_inv:
  assumes "no_types s"
  shows "types_inv env {} [] s"
proof -
  obtain fl where inv: "vtable_inv (ctab s) (vtab s) fl {}" using assms by (auto simp: no_types_def vtable_ok_def)
  have "dom (hmap s) \<subseteq> (\<lambda>i. virt (ent s i)) ` {i. live (vtab s) i}"
    using handle_map_iff [OF inv] by (auto simp: live_def)
  then have "finite (dom (hmap s))" using finite_live [OF inv] finite_surj by blast
  moreover have "tdesc e = None" if "hmap s h = Some e" for h e
    using assms that unfolding no_types_def by (metis bind.bind_lunit)
  ultimately show ?thesis using assms by (auto simp: types_inv_def refs_ok_def no_types_def)
qed


lemma sample_no_types: "no_types ((sample_process []) \<lparr> vtab := empty_vtable \<rparr>)"
  by (simp add: no_types_def vtable_ok_empty handle_map_def lookup_virt_id_entry_def log_from_cases Let_def)
    (simp add: empty_vtable_def sample_process_def)

text \<open>A contiguous type of a predefined one, a copy of it, and the first one freed while the copy lives.\<close>

definition sample_types :: "type_op list" where
  "sample_types =
     [MakeType 0x4c000001 (zero_datatype_desc \<lparr> constructor := MANA_TYPE_CONTIGUOUS, td_count := 4, oldtype := 9 \<rparr>),
      MakeType 0x4c000002 (zero_datatype_desc \<lparr> constructor := MANA_TYPE_DUP, oldtype := 0x30000000 \<rparr>),
      FreeType 0x30000000]"


text \<open>The order in which the objects are made again.\<close>

lemma restart_order_sorted:
  assumes "vtable_ok c t"
  shows "set (restart_order t) = {i. live t i}"
    and "sorted_wrt (\<lambda>i j. restart_key t i \<le> restart_key t j) (restart_order t)"
proof -
  have "i < virt_id_high_water t" if "live t i" for i
    using assms that by (auto simp: vtable_ok_def vtable_inv_def slot_ok_def)
  then show "set (restart_order t) = {i. live t i}" by (auto simp: restart_order_def live_def)
  show "sorted_wrt (\<lambda>i j. restart_key t i \<le> restart_key t j) (restart_order t)"
    using sorted_sort_key [of "restart_key t"] by (simp add: restart_order_def sorted_map)
qed

lemma remade_in_order:
  assumes inv: "types_inv env A F t"
  shows "set (restart_order (vtab t)) = {i. live (vtab t) i}"
    and "sorted_wrt (\<lambda>i j. virt (ent t j) \<notin> set (tolds env (ent t i))) (restart_order (vtab t))"
proof -
  from inv have vt: "vtable_ok (ctab t) (vtab t)" and ok: "refs_ok env (ctab t) (A \<union> set F) [] (hmap t)"
    by (auto simp: types_inv_def)
  have "virt (ent t j) \<notin> set (tolds env (ent t i))"
    if ij: "live (vtab t) i" "live (vtab t) j" "restart_key (vtab t) i \<le> restart_key (vtab t) j" for i j
  proof
    assume old: "virt (ent t j) \<in> set (tolds env (ent t i))"
    have M: "hmap t (virt (ent t k)) = Some (ent t k)" if "live (vtab t) k" for k
      using lookup_ent [OF vt, of False "virt (ent t k)" k] that by (simp add: handle_map_def)
    obtain d where d: "tdesc (ent t i) = Some d" using old by (cases "tdesc (ent t i)") (auto simp: tolds_def)
    note r = refs_okD [OF ok M [OF ij(1)] d, unfolded type_ok_def]
    have nn: "\<not> never (ctab t) (virt (ent t j))" by (rule live_not_never(1) [OF vt M [OF ij(2)]])
    then obtain d' where d': "tdesc (ent t j) = Some d'" "seq (ent t j) < seq (ent t i)"
      using r old M [OF ij(2)] by auto
    have "handle_kind (virt (ent t j)) = handle_kind (virt (ent t i))"
      using r refs_okD [OF ok M [OF ij(2)] d'(1)] by (simp add: type_ok_def)
    then show False using ij(3) d'(2) by (simp add: restart_key_def)
  qed
  then show "sorted_wrt (\<lambda>i j. virt (ent t j) \<notin> set (tolds env (ent t i))) (restart_order (vtab t))"
    using restart_order_sorted [OF vt] by (auto intro: sorted_wrt_mono_rel [rotated])
  show "set (restart_order (vtab t)) = {i. live (vtab t) i}" by (rule restart_order_sorted [OF vt])
qed



end
