(* ===== verification/Type_Restart.thy ===== *)
theory Type_Restart
  imports Datatype_Refs
begin

text \<open>
  The descriptor that a constructor of datatypes records is enough to repeat the call at restart, with the
  real handles that the datatypes have then.
\<close>

section \<open>What a constructor records\<close>

lemma table_pool_ok:
  assumes "vtable_ok c t"
  shows "vtable_ok c (t \<lparr> datatype_desc_pool := p \<rparr>)"
  by (rule keep_table(1) [OF assms]) simp_all

lemma recorded_type_desc:
  assumes vt: "vtable_ok (ctab s) (vtab s)" and rec: "recorded_type env MPI_SUCCESS outs fill s = Ok (v, t)"
  shows "datatype_desc env v t = Some ((fill zero_datatype_desc) \<lparr> refs := 1 \<rparr>)"
    and "get_real_id (wide_handles env) (ctab t) (vtab t) v = Ok (the_handle outs 0)" and "low t = low s"
proof -
  let ?d = "fill zero_datatype_desc"
  define s' where "s' = s \<lparr> vtab := (vtab s) \<lparr> datatype_desc_pool := tl (datatype_desc_pool (vtab s)) \<rparr> \<rparr>"
  have vt': "vtable_ok (ctab s') (vtab s')" using table_pool_ok [OF vt] by (simp add: s'_def)
  have new: "new_virt_datatype env (the_handle outs 0) ?d s' = Ok (v, t)"
    using rec by (simp add: recorded_type_def alloc_datatype_desc_def andthen_def modify_def ret_def s'_def)
  obtain us u where u: "each (\<lambda>old. set_datatype_desc env old (\<lambda>x. x \<lparr> refs := refs x + 1 \<rparr>)) (oldtypes_of ?d) s' = Ok (us, u)"
    "vtable_ok (ctab u) (vtab u)" "same_log s' u"
    using add_refs [OF vt'] by blast
  have "add_virt (the_handle outs 0) (TypeDesc (?d \<lparr> refs := 1 \<rparr>)) MANA_DATATYPE_KIND u = Ok (v, t)"
    using new u(1) by (simp add: new_virt_datatype_def andthen_def)
  then obtain h e where h: "v = ucast h" "same_log u t" "hmap t = (hmap u)(h \<mapsto> e)" "tdesc e = Some (?d \<lparr> refs := 1 \<rparr>)"
    "real_id e = the_handle outs 0"
    by (rule add_type [OF u(2)])
  have e: "hmap t h = Some e" using h(3) by simp
  show "datatype_desc env v t = Some (?d \<lparr> refs := 1 \<rparr>)"
    using e h(4) by (simp add: h(1) datatype_desc_key key_def ucast_handle)
  show "get_real_id (wide_handles env) (ctab t) (vtab t) v = Ok (the_handle outs 0)"
    unfolding h(1) h(5) [symmetric] by (rule handle_map_real_desc(1) [OF e])
  show "low t = low s" using h(2) u(3) by (simp add: same_log_def s'_def)
qed

text \<open>The constructors, with the arguments they need.\<close>

definition type_constructors ::
  "'l env \<Rightarrow> int \<Rightarrow> int \<Rightarrow> int \<Rightarrow> int list \<Rightarrow> int list \<Rightarrow> mana_mpi_handle \<Rightarrow> mana_mpi_handle list \<Rightarrow> ('l, int \<times> mana_mpi_handle) act list"
where
  "type_constructors env n m k ns ds old olds =
     [PMPI_Type_contiguous env n old, PMPI_Type_vector env n m k old, PMPI_Type_create_hvector env n m k old,
      PMPI_Type_indexed env n ns ds old, PMPI_Type_create_hindexed env n ns ds old,
      PMPI_Type_create_hindexed_block env n m ds old, PMPI_Type_hindexed_block env n m ds old,
      PMPI_Type_create_struct env n ns ds olds, PMPI_Type_struct env n ns ds olds,
      PMPI_Type_dup env old, PMPI_Type_create_resized env old m k]"

text \<open>A library call whose descriptor repeats it.\<close>

definition repeatable :: "'l env \<Rightarrow> 'l proc \<Rightarrow> int \<Rightarrow> mana_mpi_handle \<Rightarrow> 'l proc \<Rightarrow> bool" where
  "repeatable env s retval v t \<longleftrightarrow>
     (\<exists>f args outs. lib env f args (low s) = ((retval, outs), low t) \<and>
        (retval = MPI_SUCCESS \<longrightarrow>
           (\<exists>d old olds. datatype_desc env v t = Some d \<and> old_reals env d s = Ok ((old, olds), s) \<and>
              type_call d old olds = Some (f, args) \<and>
              get_real_id (wide_handles env) (ctab t) (vtab t) v = Ok (the_handle outs 0))))"

lemma call_refs [simp]:
  "old_reals env (d \<lparr> refs := n \<rparr>) = old_reals env d" "type_call (d \<lparr> refs := n \<rparr>) = type_call d"
  by (simp_all add: old_reals_def type_call_def fun_eq_iff cong: type_ctor.case_cong)

lemma repeatableI:
  assumes vt: "vtable_ok (ctab s) (vtab s)"
    and old: "old_reals env (fill zero_datatype_desc) s = Ok ((old, olds), s)"
    and call: "type_call (fill zero_datatype_desc) old olds = Some (f, args)"
    and lib: "lib env f args (low s) = ((retval, outs), l)"
    and rec: "recorded_type env retval outs fill (s \<lparr> depth := m, low := l \<rparr>) = Ok (v, t')"
    and t: "t = t' \<lparr> depth := n \<rparr>"
  shows "repeatable env s retval v t"
proof (cases "retval = MPI_SUCCESS")
  case True
  have vt': "vtable_ok (ctab (s \<lparr> depth := m, low := l \<rparr>)) (vtab (s \<lparr> depth := m, low := l \<rparr>))" using vt by simp
  note r = recorded_type_desc [OF vt' rec [unfolded True]]
  have "datatype_desc env v t = datatype_desc env v t'" by (simp add: t datatype_desc_def lookup_def)
  then show ?thesis
    unfolding repeatable_def
    by (intro exI [of _ f] exI [of _ args] exI [of _ outs] conjI impI exI [of _ "(fill zero_datatype_desc) \<lparr> refs := 1 \<rparr>"]
        exI [of _ old] exI [of _ olds]) (use lib r old call in \<open>simp_all add: t\<close>)
next
  case False
  then show ?thesis unfolding repeatable_def using lib rec t by (auto simp: recorded_type_def Let_def)
qed

lemma each_real:
  "each (real_of env) xs (s \<lparr> depth := n \<rparr>) = Ok (rs, t) \<longleftrightarrow>
     each (real_of env) xs s = Ok (rs, s) \<and> t = s \<lparr> depth := n \<rparr>"
  by (induction xs arbitrary: rs t) (auto simp: ret_def andthen_Ok real_of_Ok)

lemma struct_olds: "nat n \<le> length hs \<Longrightarrow> map (\<lambda>i. take (nat n) hs ! i) [0..<nat n] = take (nat n) hs"
  by (simp add: list_eq_iff_nth_eq)

lemmas constructor_defs = PMPI_Type_contiguous_def PMPI_Type_vector_def PMPI_Type_create_hvector_def
  PMPI_Type_indexed_def PMPI_Type_create_hindexed_def PMPI_Type_dup_def PMPI_Type_create_resized_def

lemma one_old_repeatable:
  assumes vt: "vtable_ok (ctab s) (vtab s)"
    and run: "andthen LOWER_HALF_DISABLE_CKPT (\<lambda>_. andthen (real_of env old) (\<lambda>real. andthen (next_func env f (args real))
      (\<lambda>(retval, outs). andthen (recorded_type env retval outs fill) (\<lambda>newtype. andthen LOWER_HALF_ENABLE_CKPT (\<lambda>_.
      ret (retval, newtype)))))) s = Ok ((retval, v), t)"
    and d: "constructor (fill zero_datatype_desc) \<noteq> MANA_TYPE_STRUCT" "oldtype (fill zero_datatype_desc) = old"
      "\<And>real. type_call (fill zero_datatype_desc) real [] = Some (f, args real)"
  shows "repeatable env s retval v t"
proof -
  let ?r = "\<lambda>real. lib env f (args real) (low s)"
  obtain real t' where r: "get_real_id (wide_handles env) (ctab s) (vtab s) old = Ok real"
    "retval = fst (fst (?r real))"
    "recorded_type env retval (snd (fst (?r real))) fill (s \<lparr> depth := depth s + 1, low := snd (?r real) \<rparr>) = Ok (v, t')"
    "t = t' \<lparr> depth := depth t' - 1 \<rparr>"
    using run by (auto simp: act_simps)
  have "?r real = ((retval, snd (fst (?r real))), snd (?r real))" by (simp add: r(2))
  then show ?thesis
    by (rule repeatableI [OF vt _ d(3) _ r(3,4), rotated]) (simp add: old_reals_def d(1,2) andthen_def real_of_def lift_def r(1) ret_def)
qed

lemma struct_repeatable:
  assumes vt: "vtable_ok (ctab s) (vtab s)" and run: "PMPI_Type_create_struct env n ns ds hs s = Ok ((retval, v), t)"
    and len: "nat n \<le> length hs"
  shows "repeatable env s retval v t"
proof -
  let ?fill = "\<lambda>desc :: mana_datatype_desc. desc \<lparr> constructor := MANA_TYPE_STRUCT, td_count := n,
         blocklengths := take (nat n) ns, hdisplacements := take (nat n) ds, oldtypes := take (nat n) hs \<rparr>"
  let ?args = "\<lambda>reals. [VInt n, VInts (take (nat n) ns), VInts (take (nat n) ds), VHandles reals]"
  let ?r = "\<lambda>reals. lib env ''Type_create_struct'' (?args reals) (low s)"
  obtain reals t' where r: "each (real_of env) (take (nat n) hs) s = Ok (reals, s)"
    "retval = fst (fst (?r reals))"
    "recorded_type env retval (snd (fst (?r reals))) ?fill (s \<lparr> depth := depth s + 1, low := snd (?r reals) \<rparr>) = Ok (v, t')"
    "t = t' \<lparr> depth := depth t' - 1 \<rparr>"
    using run by (auto simp: PMPI_Type_create_struct_def act_simps each_real)
  have "?r reals = ((retval, snd (fst (?r reals))), snd (?r reals))" by (simp add: r(2))
  then show ?thesis
    by (rule repeatableI [OF vt _ _ _ r(3,4), rotated 2])
      (simp_all add: old_reals_def struct_olds [OF len] andthen_def r(1) ret_def type_call_def)
qed

text \<open>C23. Every constructor of datatypes makes one call of the library, and when the call succeeds the descriptor of the
  new handle repeats exactly that call: \<^verbatim>\<open>reconstruct_datatype_desc\<close>, run on the same real datatypes, makes the
  same call with the same arguments.  The new handle stands for the datatype that the library returned.\<close>

theorem constructor_is_repeatable:
  assumes "vtable_ok (ctab s) (vtab s)" and "w \<in> set (type_constructors env n m k ns ds old olds)"
    and "nat n \<le> length olds" and "w s = Ok ((retval, v), t)"
  shows "repeatable env s retval v t"
proof -
  consider (one) "w \<in> {PMPI_Type_contiguous env n old, PMPI_Type_vector env n m k old, PMPI_Type_create_hvector env n m k old,
      PMPI_Type_indexed env n ns ds old, PMPI_Type_create_hindexed env n ns ds old,
      PMPI_Type_create_hindexed env n (replicate (nat n) m) ds old, PMPI_Type_dup env old,
      PMPI_Type_create_resized env old m k}"
    | (struct) "w = PMPI_Type_create_struct env n ns ds olds"
    using assms(2) by (auto simp: type_constructors_def PMPI_Type_create_hindexed_block_def PMPI_Type_hindexed_block_def
        PMPI_Type_struct_def)
  then show ?thesis
  proof cases
    case one
    then show ?thesis
      using assms(4) by (elim insertE emptyE; hypsubst; unfold constructor_defs)
        (erule one_old_repeatable [OF assms(1)]; simp add: type_call_def)+
  next
    case struct
    then show ?thesis using struct_repeatable [OF assms(1) _ assms(3)] assms(4) by blast
  qed
qed

text \<open>A table with room for more objects.\<close>

definition room :: "vtable \<Rightarrow> bool" where
  "room t \<longleftrightarrow> virt_id_free_head t < 0 \<and> virt_id_high_water t < 1000"

lemma room_add:
  assumes "room t"
  shows "\<exists>v u. add_virt_id no_constants real d kind t = Ok (v, u) \<and> virt_id_free_head u < 0 \<and>
    virt_id_high_water u = virt_id_high_water t + 1"
  using assms make_chunks_spec
  by (simp add: room_def add_virt_id_def alloc_slot_def Let_def skip_reserved.simps slot_is_reserved_def no_constants_def)

lemma room_refs: "room (vtab s) \<Longrightarrow> \<exists>us u. each (\<lambda>old. set_datatype_desc env old f) olds s = Ok (us, u) \<and> room (vtab u) \<and> ctab u = ctab s"
proof (induction olds arbitrary: s)
  case (Cons old olds)
  obtain t where t: "set_datatype_desc env old f s = Ok ((), t)" "room (vtab t)" "ctab t = ctab s"
    using Cons.prems by (auto simp: set_datatype_desc_def modify_def with_entry_def room_def split: option.split)
  then show ?case using Cons.IH [OF t(2)] by (auto simp: andthen_def ret_def)
qed (auto simp: ret_def)

lemma room_new:
  assumes "room (vtab s)" and "ctab s = no_constants"
  shows "\<exists>v t. new_virt_datatype env real d s = Ok (v, t)"
proof -
  obtain us u where u: "each (\<lambda>old. set_datatype_desc env old (\<lambda>x. x \<lparr> refs := refs x + 1 \<rparr>)) (oldtypes_of d) s = Ok (us, u)"
    "room (vtab u)" "ctab u = ctab s"
    using room_refs [OF assms(1)] by blast
  obtain v w where "add_virt_id no_constants real (TypeDesc (d \<lparr> refs := 1 \<rparr>)) 3 (vtab u) = Ok (v, w)"
    using room_add [OF u(2)] by blast
  then show ?thesis using u(1,3) assms(2) by (simp add: new_virt_datatype_def andthen_def add_virt_def on_table_def)
qed

theorem constructor_is_repeatable_witness:
  "\<exists>s v t. PMPI_Type_contiguous sample_env 4 0x30000000 s = Ok ((0, v), t) \<and> repeatable sample_env s 0 v t"
proof -
  define s0 where "s0 = (sample_process []) \<lparr> vtab := empty_vtable \<rparr>"
  have c0: "ctab s0 = no_constants" by (simp add: s0_def)
  have first: "\<exists>w. add_virt_id no_constants 77 (TypeDesc zero_datatype_desc) 3 empty_vtable = Ok (0x30000000, w) \<and> room w"
    by (simp add: add_virt_id_def alloc_slot_def empty_vtable_def skip_reserved.simps slot_is_reserved_def room_def
        no_constants_def make_handle_def Let_def slot_entry_def zero_entry_def chunk_of_def)
  then obtain w where w: "add_virt_id no_constants 77 (TypeDesc zero_datatype_desc) 3 empty_vtable = Ok (0x30000000, w)" "room w"
    by blast
  define s where "s = s0 \<lparr> vtab := w \<rparr>"
  have add: "add_virt 77 (TypeDesc zero_datatype_desc) MANA_DATATYPE_KIND s0 = Ok (0x30000000, s)"
    using w(1) by (simp add: add_virt_def on_table_def s_def s0_def)
  obtain h e where h: "0x30000000 = (ucast h :: int64)" "vtable_ok (ctab s) (vtab s)" "hmap s = (hmap s0)(h \<mapsto> e)"
    by (rule add_type [OF _ add]) (simp_all add: s0_def vtable_ok_empty)
  have real: "\<exists>r. get_real_id True (ctab s) (vtab s) 0x30000000 = Ok r"
    unfolding h(1) using handle_map_real_desc(1) [of "vtab s" h e] h(3) by auto
  have "\<exists>v t. PMPI_Type_contiguous sample_env 4 0x30000000 s = Ok ((0, v), t)"
  proof -
    have "\<exists>v t. recorded_type sample_env 0 [] fill (s \<lparr> depth := n, low := l \<rparr>) = Ok (v, t)" for fill n l
    proof -
      define s' where "s' = s \<lparr> depth := n, low := l, vtab := w \<lparr> datatype_desc_pool := tl (datatype_desc_pool w) \<rparr> \<rparr>"
      have "room (vtab s')" "ctab s' = no_constants" using w(2) c0 by (simp_all add: s'_def s_def room_def)
      from room_new [OF this] show ?thesis
        by (simp add: recorded_type_def alloc_datatype_desc_def andthen_def modify_def ret_def s'_def s_def)
    qed
    then show ?thesis using real by (auto simp: PMPI_Type_contiguous_def act_simps)
  qed
  then obtain v t where t: "PMPI_Type_contiguous sample_env 4 0x30000000 s = Ok ((0, v), t)" by blast
  have "repeatable sample_env s 0 v t"
    by (rule constructor_is_repeatable [where w = "PMPI_Type_contiguous sample_env 4 0x30000000" and n = 4
          and old = "0x30000000" and olds = "[0, 0, 0, 0]"])
      (simp_all add: type_constructors_def h(2) t)
  then show ?thesis using t by blast
qed

end
