(* ===== verification/Frames.thy ===== *)
theory Frames
  imports P2p_Wrappers
begin

text \<open>
  What an action leaves as it was.  \<open>same f m\<close> says that the action \<open>m\<close> does not change the part \<open>f\<close> of the process;
  the rules of the collection \<open>frame_intros\<close> follow the structure of an action.  Two locales name the parts that the
  completion of a request and the counting of messages leave alone.
\<close>

definition same :: "('l proc \<Rightarrow> 'b) \<Rightarrow> ('l, 'a) act \<Rightarrow> bool" where
  "same f m \<longleftrightarrow> (\<forall>s a t. m s = Ok (a, t) \<longrightarrow> f t = f s)"

named_theorems frame_intros

lemma sameD: "same f m \<Longrightarrow> m s = Ok (a, t) \<Longrightarrow> f t = f s"
  unfolding same_def by blast

lemma same_ret [frame_intros]: "same f (ret a)"
  by (simp add: same_def)

lemma same_gets [frame_intros]: "same f (gets g)"
  by (simp add: same_def)

lemma same_fail [frame_intros]: "same f (fail e)"
  by (simp add: same_def)

lemma same_modify: "(\<And>s. f (h s) = f s) \<Longrightarrow> same f (modify h)"
  by (simp add: same_def)

lemma same_andthen [frame_intros]: "same f m \<Longrightarrow> (\<And>a. same f (g a)) \<Longrightarrow> same f (andthen m g)"
  unfolding same_def by (auto simp: andthen_Ok)

lemma same_if [frame_intros]: "same f m \<Longrightarrow> same f n \<Longrightarrow> same f (if b then m else n)"
  by simp

lemma same_when [frame_intros]: "same f m \<Longrightarrow> same f (when_act b m)"
  by (simp add: when_act_def same_ret)

lemma same_assert [frame_intros]: "same f (assert_act b)"
  by (simp add: assert_act_def same_ret same_fail)

lemma same_prod [frame_intros]: "(\<And>a b. same f (g a b)) \<Longrightarrow> same f (case p of (a, b) \<Rightarrow> g a b)"
  by (cases p) simp

lemma same_option [frame_intros]: "same f m \<Longrightarrow> (\<And>a. same f (g a)) \<Longrightarrow> same f (case x of None \<Rightarrow> m | Some a \<Rightarrow> g a)"
  by (cases x) simp_all

lemma same_let [frame_intros]: "(\<And>x. same f (g x)) \<Longrightarrow> same f (let x = a in g x)"
  by simp

lemma same_lift [frame_intros]: "same f (lift g)"
  by (auto simp: same_def lift_def bind_result_Ok_iff)

lemma same_real_of [frame_intros]: "same f (real_of env h)"
  unfolding real_of_def by (rule same_lift)

lemma same_each [frame_intros]: "(\<And>x. same f (m x)) \<Longrightarrow> same f (each m xs)"
  by (induction xs) (auto intro!: frame_intros)

lemma same_log_slots [frame_intros]: "same f log_slots"
  by (auto simp: same_def log_slots_def split: option.splits)

lemma same_uses [frame_intros]: "same f (pendingCallUsesDatatype type)"
  unfolding pendingCallUsesDatatype_def by (intro frame_intros)

section \<open>Completion of a request\<close>

locale log_frame =
  fixes f :: "'l proc \<Rightarrow> 'b"
  assumes f_low [simp]: "f (s \<lparr> low := l \<rparr>) = f s"
    and f_vtab [simp]: "f (s \<lparr> vtab := v \<rparr>) = f s"
    and f_depth [simp]: "f (s \<lparr> depth := n \<rparr>) = f s"
    and f_freed [simp]: "f (s \<lparr> freed_types := ts \<rparr>) = f s"
    and f_head [simp]: "f (s \<lparr> pending_head := p \<rparr>) = f s"
    and f_tail [simp]: "f (s \<lparr> pending_tail := p \<rparr>) = f s"
    and f_issends [simp]: "f (s \<lparr> pending_issends := k \<rparr>) = f s"
begin

lemma next_func_same [frame_intros]: "same f (next_func env g args)"
  by (auto simp: same_def next_func_def split: prod.splits)

lemma disable_same [frame_intros]: "same f LOWER_HALF_DISABLE_CKPT"
  unfolding LOWER_HALF_DISABLE_CKPT_def by (rule same_modify) simp

lemma enable_same [frame_intros]: "same f LOWER_HALF_ENABLE_CKPT"
  unfolding LOWER_HALF_ENABLE_CKPT_def by (rule same_modify) simp

lemma on_table_same [frame_intros]: "same f (on_table g)"
  by (auto simp: same_def on_table_def bind_result_Ok_iff)

lemma change_table_same [frame_intros]: "same f (change_table g)"
  unfolding change_table_def by (rule on_table_same)

lemma free_virt_same [frame_intros]: "same f (free_virt env h)"
  unfolding free_virt_def by (rule change_table_same)

lemma add_virt_same [frame_intros]: "same f (add_virt real d k)"
  unfolding same_def add_virt_def by (auto dest: sameD [OF on_table_same])

lemma update_entry_same [frame_intros]: "same f (update_entry env h g)"
  unfolding update_entry_def by (rule change_table_same)

lemma with_entry_same [simp]: "f (with_entry i g s) = f s"
  by (simp add: with_entry_def)

lemma set_desc_same [frame_intros]: "same f (set_datatype_desc env type g)"
  unfolding set_datatype_desc_def by (rule same_modify) (simp split: option.split)

lemma unlink_same [simp]: "f (unlink i s) = f s"
  by (simp add: unlink_def Let_def split: option.split)

lemma link_last_same [simp]: "f (link_last i s) = f s"
  by (simp add: link_last_def Let_def split: option.split)

lemma clear_same [frame_intros]: "same f (clearPendingRequestFromLog env r)"
  unfolding clearPendingRequestFromLog_def by (rule same_modify) (simp add: Let_def split: option.split)

lemma post_same [frame_intros]: "same f (addPendingRequestToLog env req sb rb n ty rem tg c r)"
  unfolding addPendingRequestToLog_def by (intro frame_intros same_modify) (simp add: Let_def)

lemma fold_same: "f (fold (\<lambda>i. with_entry i (g i)) xs s) = f s"
  by (induction xs arbitrary: s) simp_all

lemma count_issends_same [frame_intros]: "same f (countSendAfterIssends comm dest tag)"
proof -
  have "same f (andthen log_slots (\<lambda>is. modify (\<lambda>s. fold (\<lambda>i. with_entry i (count_later_send comm dest tag)) is s)))"
    by (intro frame_intros same_modify) (rule fold_same)
  then show ?thesis unfolding same_def countSendAfterIssends_def by simp
qed

lemma release_all_same: "release_all env types s = Some r \<Longrightarrow> \<forall>a t. r = Ok (a, t) \<longrightarrow> f t = f s"
proof (induction rule: release_all.raw_induct [rotated, consumes 1, case_names 1])
  case (1 rec env types s r)
  show ?case
  proof (cases types)
    case Nil
    then show ?thesis using 1(2) by auto
  next
    case (Cons type rest)
    show ?thesis
    proof (cases "datatype_desc env type s")
      case None
      then show ?thesis using 1 Cons by simp
    next
      case (Some d)
      let ?dec = "set_datatype_desc env type (\<lambda>d. d \<lparr> refs := refs d - 1 \<rparr>)"
      obtain s1 where s1: "?dec s = Ok ((), s1)" by (simp add: set_datatype_desc_def modify_def)
      then have f1: "f s1 = f s" by (rule sameD [OF set_desc_same])
      show ?thesis
      proof (cases "refs d - 1 > 0")
        case True
        then show ?thesis using 1(1) [of env rest s1 r] 1(2) f1 s1 by (auto simp: Cons Some)
      next
        case False
        show ?thesis
        proof (cases "free_virt env type s1")
          case (Inl e)
          then show ?thesis using 1(2) s1 False by (auto simp: Cons Some)
        next
          case (Inr x)
          obtain u s2 where s2: "free_virt env type s1 = Ok (u, s2)" using Inr by (cases x) auto
          then have "f s2 = f s1" by (rule sameD [OF free_virt_same])
          then show ?thesis
            using 1(1) [of env "released_olds d @ rest" s2 r] 1(2) f1 s1 s2 False by (auto simp: Cons Some)
        qed
      qed
    qed
  qed
qed

lemma release_datatype_same [frame_intros]: "same f (release_datatype env type)"
  using release_all_same by (auto simp: same_def release_datatype_def split: option.splits)

lemma release_freed_same [frame_intros]: "same f (release_freed env keep types)"
  by (induction types arbitrary: keep) (auto intro!: frame_intros same_modify)

lemma release_freed_datatypes_same [frame_intros]: "same f (release_freed_datatypes env)"
  using release_freed_same unfolding same_def release_freed_datatypes_def by blast

lemma finish_request_same [frame_intros]: "same f (finish_request env r)"
  unfolding finish_request_def by (intro frame_intros)

lemma Test_internal_same [frame_intros]: "same f (MPI_Test_internal env r flag b)"
  unfolding MPI_Test_internal_def by (intro frame_intros)

end

text \<open>Parts of the process that the counts of messages do not touch either.\<close>

locale count_frame = log_frame +
  assumes f_sent [simp]: "f (s \<lparr> local_sent := n \<rparr>) = f s"
    and f_recv [simp]: "f (s \<lparr> local_recv := n \<rparr>) = f s"
begin

lemma count_received_same [frame_intros]: "same f count_received_message"
  unfolding count_received_message_def by (rule same_modify) simp

lemma count_if_irecv_same [frame_intros]: "same f (count_if_irecv env flag r)"
  unfolding count_if_irecv_def by (intro frame_intros)

lemma wait_pass_same: "same f (wait_pass env r)"
  unfolding wait_pass_def by (intro frame_intros)

lemma wait_loop_same: "wait_loop env request s = Some r \<Longrightarrow> \<forall>a t. r = Ok (a, t) \<longrightarrow> f t = f s"
proof (induction rule: wait_loop.raw_induct [rotated, consumes 1, case_names 1])
  case (1 rec env request s r)
  then show ?case
    using sameD [OF wait_pass_same, of env request s]
    by (cases "wait_pass env request s") (auto split: prod.splits if_splits)
qed

lemma Wait_same [frame_intros]: "same f (PMPI_Wait env r)"
proof -
  have "same f (\<lambda>s. case wait_loop env r s of None \<Rightarrow> Fault Spin | Some x \<Rightarrow> x)"
    using wait_loop_same by (auto simp: same_def split: option.splits)
  then show ?thesis unfolding PMPI_Wait_def by (intro frame_intros)
qed

lemma count_send_same [frame_intros]: "same f (count_send env comm dest tag)"
  unfolding count_send_def by (intro frame_intros same_modify) simp

lemma Isend_internal_same [frame_intros]: "same f (MPI_Isend_internal env buf n ty dest tag comm b)"
  unfolding MPI_Isend_internal_def new_virt_request_def by (intro frame_intros)

lemma sendSsendAck_same [frame_intros]: "same f (sendSsendAck env rank tag)"
  unfolding sendSsendAck_def by (intro frame_intros)

lemma unpack_message_same [frame_intros]: "same f (unpack_message env buf ty n m)"
  unfolding unpack_message_def by (intro frame_intros)

end

interpretation buffer: count_frame message_queue
  by unfold_locales simp_all

interpretation received: log_frame local_recv
  by unfold_locales simp_all

end
