(* ===== verification/Drain_Log.thy ===== *)
theory Drain_Log
  imports P2p_Dummies Type_Restart Frames
begin

text \<open>
  The log of pending calls across the drain and the restart.  Every action of the drain leaves a correct log in which
  only receives are new (the receives of acknowledgements), so after \<^verbatim>\<open>completePendingIsends\<close> only receives are left, and
  \<^verbatim>\<open>replayMpiP2pOnRestart\<close>, which cannot repeat a send, posts them again in the order in which the application posted them.
\<close>

section \<open>Relations that the actions keep\<close>

definition keeps :: "('l proc \<Rightarrow> 'l proc \<Rightarrow> bool) \<Rightarrow> ('l, 'a) act \<Rightarrow> bool" where
  "keeps R m \<longleftrightarrow> (\<forall>s a t. m s = Ok (a, t) \<longrightarrow> R s t)"

named_theorems keeps_intros

lemma keepsD: "keeps R m \<Longrightarrow> m s = Ok (a, t) \<Longrightarrow> R s t"
  unfolding keeps_def by blast

lemma keepsI: "(\<And>s a t. m s = Ok (a, t) \<Longrightarrow> R s t) \<Longrightarrow> keeps R m"
  unfolding keeps_def by blast

lemma keeps_fail [keeps_intros]: "keeps R (fail e)"
  by (simp add: keeps_def)

lemma keeps_if [keeps_intros]: "keeps R m \<Longrightarrow> keeps R n \<Longrightarrow> keeps R (if b then m else n)"
  by simp

lemma keeps_prod [keeps_intros]: "(\<And>a b. keeps R (g a b)) \<Longrightarrow> keeps R (case p of (a, b) \<Rightarrow> g a b)"
  by (cases p) simp

lemma keeps_option [keeps_intros]:
  "keeps R m \<Longrightarrow> (\<And>a. keeps R (g a)) \<Longrightarrow> keeps R (case x of None \<Rightarrow> m | Some a \<Rightarrow> g a)"
  by (cases x) simp_all

lemma keeps_let [keeps_intros]: "(\<And>x. keeps R (g x)) \<Longrightarrow> keeps R (let x = a in g x)"
  by simp

locale kept_relation =
  fixes R :: "'l proc \<Rightarrow> 'l proc \<Rightarrow> bool"
  assumes R_refl [simp]: "R s s"
    and R_trans: "R s t \<Longrightarrow> R t u \<Longrightarrow> R s u"
begin

lemma keeps_ret [keeps_intros]: "keeps R (ret a)"
  by (simp add: keeps_def)

lemma keeps_gets [keeps_intros]: "keeps R (gets g)"
  by (simp add: keeps_def)

lemma keeps_andthen [keeps_intros]: "keeps R m \<Longrightarrow> (\<And>a. keeps R (g a)) \<Longrightarrow> keeps R (andthen m g)"
  unfolding keeps_def andthen_Ok by (metis R_trans)

lemma keeps_when [keeps_intros]: "keeps R m \<Longrightarrow> keeps R (when_act b m)"
  by (simp add: when_act_def keeps_ret)

lemma keeps_assert [keeps_intros]: "keeps R (assert_act b)"
  by (simp add: assert_act_def keeps_ret keeps_fail)

lemma keeps_each [keeps_intros]: "(\<And>x. keeps R (m x)) \<Longrightarrow> keeps R (each m xs)"
  by (induction xs) (auto intro!: keeps_intros)

lemma keeps_log_slots [keeps_intros]: "keeps R log_slots"
  by (auto simp: keeps_def log_slots_def split: option.splits)

lemma keeps_posting_order [keeps_intros]: "keeps R pendingRequestsInPostingOrder"
  unfolding pendingRequestsInPostingOrder_def by (intro keeps_intros)

lemma keeps_real_of [keeps_intros]: "keeps R (real_of env h)"
  by (rule keepsI) (auto simp: real_of_def lift_def bind_result_Ok_iff)

end

section \<open>The drain settles the log\<close>

definition is_recv :: "mpi_nonblocking_call \<Rightarrow> bool" where
  "is_recv c \<longleftrightarrow> req_type c = IRECV_REQUEST"

text \<open>Only receives are new.\<close>

definition settles :: "'l proc \<Rightarrow> 'l proc \<Rightarrow> bool" where
  "settles s t \<longleftrightarrow> (log_ok s \<longrightarrow> log_ok t \<and> (\<forall>(h, c)\<in>set (log_list t). is_recv c \<or> (h, c) \<in> set (log_list s)))"

interpretation drain: kept_relation settles
  by unfold_locales (auto simp: settles_def)

text \<open>Actions that do not touch the table and the links.\<close>

definition log_part :: "'l proc \<Rightarrow> constants \<times> vtable \<times> nat option \<times> nat option \<times> int" where
  "log_part s = (ctab s, vtab s, pending_head s, pending_tail s, pending_issends s)"

lemma log_part_same:
  assumes "log_part t = log_part s"
  shows "log_inv t js = log_inv s js" and "log_ok t = log_ok s" and "log_list t = log_list s"
proof -
  have e: "ctab t = ctab s" "vtab t = vtab s" "pending_head t = pending_head s" "pending_tail t = pending_tail s"
    "pending_issends t = pending_issends s" using assms by (simp_all add: log_part_def)
  show "log_inv t js = log_inv s js" "log_ok t = log_ok s" "log_list t = log_list s"
    unfolding log_inv_def log_rep_def log_ok_def log_list_def e by (rule refl)+
qed

lemma settles_same: "log_part t = log_part s \<Longrightarrow> settles s t"
  using log_part_same [of t s] by (auto simp: settles_def)

lemma keeps_same: "same log_part m \<Longrightarrow> keeps settles m"
  by (auto simp: keeps_def same_def intro!: settles_same)

lemma log_part_modify: "(\<And>s. log_part (h s) = log_part s) \<Longrightarrow> keeps settles (modify h)"
  by (rule keeps_same) (rule same_modify)

lemma next_func_settles [keeps_intros]: "keeps settles (next_func env g args)"
  by (rule keeps_same) (auto simp: same_def next_func_def log_part_def split: prod.splits)

lemma ask_settles [keeps_intros]: "keeps settles (ask env r)"
  by (rule keeps_same) (auto simp: same_def ask_def log_part_def split: prod.splits)

lemma depth_settles [keeps_intros]: "keeps settles LOWER_HALF_DISABLE_CKPT" "keeps settles LOWER_HALF_ENABLE_CKPT"
  unfolding LOWER_HALF_DISABLE_CKPT_def LOWER_HALF_ENABLE_CKPT_def by (rule log_part_modify; simp add: log_part_def)+

lemma counted_settles [keeps_intros]: "keeps settles count_received_message"
  unfolding count_received_message_def by (rule log_part_modify) (simp add: log_part_def)

lemma test_settles [keeps_intros]: "keeps settles (MPI_Test_internal env request flag real)"
  unfolding MPI_Test_internal_def by (intro keeps_intros)

lemmas kv_defs = kvGet_def kvIncr_def kvFetchAdd_def kvOr_def kvSetString_def kvGetString_def globalBarrier_def
  drainStatsNow_def alloc_memory_def

lemma reply_settles [keeps_intros]:
  "keeps settles m \<Longrightarrow> (\<And>v. keeps settles (f v)) \<Longrightarrow> (\<And>v. keeps settles (g v)) \<Longrightarrow>
   keeps settles (case r of K_none \<Rightarrow> m | K_value v \<Rightarrow> f v | K_string v \<Rightarrow> g v)"
  by (cases r) simp_all

lemma kv_settles [keeps_intros]:
  "keeps settles (kvGet env k v)" "keeps settles (kvIncr env k v)" "keeps settles (kvFetchAdd env k v)"
  "keeps settles (globalBarrier env name)" "keeps settles (alloc_memory env v)"
  unfolding kv_defs by (intro keeps_intros)+

section \<open>Changes of entries\<close>

text \<open>A change of an entry that keeps its handle, its links and its call keeps the log.\<close>

definition keeps_call :: "(virt_id_entry \<Rightarrow> virt_id_entry) \<Rightarrow> bool" where
  "keeps_call f \<longleftrightarrow> keeps_handle f \<and>
     (\<forall>e. call (f e) = call e \<and> pending_prev (f e) = pending_prev e \<and> pending_next (f e) = pending_next e)"

lemma entry_keeps_log:
  assumes inv: "log_inv s js" and f: "keeps_call f" and i: "has_chunk (vtab s) i"
  shows "log_inv (with_entry i f s) js" and "log_list (with_entry i f s) = log_list s"
proof -
  have h: "keeps_handle f" using f by (simp add: keeps_call_def)
  have ok: "vtable_ok (ctab s) (vtab s)" and r: "log_rep s js" using inv by (simp_all add: log_inv_def)
  note ch = log_change_keeps [OF log_change_with_entry [OF h] ok]
  have e: "call (ent (with_entry i f s) j) = call (ent s j) \<and> virt (ent (with_entry i f s) j) = virt (ent s j) \<and>
      pending_prev (ent (with_entry i f s) j) = pending_prev (ent s j) \<and>
      pending_next (ent (with_entry i f s) j) = pending_next (ent s j)" for j
    using f by (simp add: ent_with_entry [OF i] keeps_call_def keeps_handle_def)
  have "seg (ent (with_entry i f s)) None (pending_head s) js (pending_tail s) None =
      seg (ent s) None (pending_head s) js (pending_tail s) None"
    by (rule seg_calls) (use e in simp)
  then have r': "log_rep (with_entry i f s) js" using r e ch(3) by (simp add: log_rep_def is_pending_def)
  then show "log_inv (with_entry i f s) js" using ch(1) by (simp add: log_inv_def)
  show "log_list (with_entry i f s) = log_list s" using log_list_inv [OF r] log_list_inv [OF r'] e by simp
qed

lemma lookup_has_chunk: "lookup_virt_id_entry w t h = Some i \<Longrightarrow> has_chunk t i"
  by (auto simp: lookup_virt_id_entry_def has_chunk_def Let_def split: if_splits option.splits)

lemma entry_settles:
  assumes "keeps_call f" and "lookup_virt_id_entry w (vtab s) h = Some i"
  shows "settles s (with_entry i f s)"
  using entry_keeps_log [OF _ assms(1) lookup_has_chunk [OF assms(2)]] by (auto simp: settles_def log_ok_def)

lemma update_virt_settles [keeps_intros]: "keeps settles (update_virt env h real)"
proof (rule keepsI)
  fix s a t
  assume "update_virt env h real s = Ok (a, t)"
  then obtain i where i: "lookup_virt_id_entry (wide_handles env) (vtab s) h = Some i"
    "t = with_entry i (\<lambda>e. e \<lparr> real_id := real \<rparr>) s"
    by (auto simp: update_virt_def change_table_def on_table_def update_virt_id_def bind_result_Ok_iff with_entry_def
        split: option.splits)
  show "settles s t" unfolding i(2) by (rule entry_settles [OF _ i(1)]) (simp add: keeps_call_def keeps_handle_def)
qed

lemma complete_virt_settles [keeps_intros]: "keeps settles (complete_virt_request env h st)"
proof (rule keepsI)
  fix s a t
  let ?f = "\<lambda>e. e \<lparr> status := st, completed := True, real_id := lower_const env ''REQUEST_NULL'' \<rparr>"
  assume "complete_virt_request env h st s = Ok (a, t)"
  then obtain i where i: "lookup_virt_id_entry (wide_handles env) (vtab s) h = Some i" "t = with_entry i ?f s"
    by (auto simp: complete_virt_request_def update_entry_def change_table_def on_table_def get_virt_id_entry_def
        bind_result_Ok_iff with_entry_def split: option.splits)
  show "settles s t" unfolding i(2) by (rule entry_settles [OF _ i(1)]) (simp add: keeps_call_def keeps_handle_def)
qed

section \<open>Removing and replacing calls\<close>

text \<open>Any handle stands for one of the table or for none.\<close>

lemma log_list_calls:
  assumes "log_inv s js"
  shows "log_list s = map (\<lambda>i. (virt (ent s i), call (ent s i))) js" and "\<forall>(h, c)\<in>set (log_list s). req_type c \<noteq> UNKNOW_REQUEST"
proof -
  show l: "log_list s = map (\<lambda>i. (virt (ent s i), call (ent s i))) js"
    using assms by (simp add: log_inv_def log_list_inv)
  show "\<forall>(h, c)\<in>set (log_list s). req_type c \<noteq> UNKNOW_REQUEST"
    using assms unfolding l by (auto simp: log_inv_def log_rep_def is_pending_def)
qed

lemma clear_list:
  assumes ok: "log_ok s" and c: "clearPendingRequestFromLog env req s = Ok (a, t)"
  shows "log_ok t \<and> log_list t = filter (\<lambda>(h, c). key env req \<noteq> Some h) (log_list s)"
proof -
  obtain js where inv: "log_inv s js" using ok by (auto simp: log_ok_def)
  show ?thesis
  proof (cases "key env req")
    case None
    then have "t = s" using c unfolding clearPendingRequestFromLog_def key_lookup [of env "vtab s" req] modify_def
      by (auto simp: key_lookup [of env "vtab s" req])
    then show ?thesis using ok None by simp
  next
    case (Some h)
    have "clearPendingRequestFromLog env req s = clearPendingRequestFromLog env (ucast h) s"
      using key_lookup [of env "vtab s" req] Some by (simp add: clearPendingRequestFromLog_def modify_def)
    then obtain js' where t: "log_change s t" "log_inv t (filter (\<lambda>j. virt (ent s j) \<noteq> h) js)"
      "\<forall>j. virt (ent s j) \<noteq> h \<longrightarrow> call (ent t j) = call (ent s j)"
      using clear_spec [OF inv, of env h] c by auto
    have "log_list t = map (\<lambda>j. (virt (ent s j), call (ent s j))) (filter (\<lambda>j. virt (ent s j) \<noteq> h) js)"
      using t(1,3) unfolding log_list_calls(1) [OF t(2)] log_change_def by simp
    then show ?thesis using t(2) unfolding log_list_calls(1) [OF inv] Some by (auto simp: log_ok_def filter_map comp_def eq_commute [of h])
  qed
qed

lemma replace_list:
  assumes ok: "log_ok s" and r: "replacePendingCall env req c s = Ok (a, t)" and c: "req_type c \<noteq> UNKNOW_REQUEST"
    and iss: "req_type c \<noteq> ISSEND_REQUEST"
  shows "log_ok t \<and> log_list t = map (\<lambda>(h, d). (h, if key env req = Some h then c else d)) (log_list s)"
proof -
  obtain js where inv: "log_inv s js" using ok by (auto simp: log_ok_def)
  obtain i where i: "lookup_virt_id_entry (wide_handles env) (vtab s) req = Some i" "is_pending (ent s i)"
    using r by (auto simp: replacePendingCall_def Let_def is_pending_def split: option.splits if_splits)
  obtain h where h: "key env req = Some h" "lookup_virt_id_entry (wide_handles env) (vtab s) (ucast h) = Some i"
    using i(1) key_lookup [of env "vtab s" req] by (auto split: option.splits)
  have v: "virt (ent s i) = h" using lookup_ent h(2) inv by (auto simp: log_inv_def)
  have j: "i \<in> set js" using i(2) inv by (simp add: log_inv_def log_rep_def)
  have "replacePendingCall env req c s = replacePendingCall env (ucast h) c s"
    using i(1) h(2) by (simp add: replacePendingCall_def)
  then have t: "log_change s t" "log_inv t js" "\<forall>j\<in>set js. call (ent t j) = (if j = i then c else call (ent s j))"
    using replace_spec [OF inv j v c, of env] iss r by auto
  have "virt (ent s j) = h \<longleftrightarrow> j = i" if "j \<in> set js" for j
    using that j v virt_inj [of s j i] inv by (auto simp: log_inv_def log_rep_def)
  then show ?thesis using t h(1) unfolding log_list_calls(1) [OF t(2)] log_list_calls(1) [OF inv]
    by (auto simp: log_ok_def log_change_def)
qed

lemma clear_settles [keeps_intros]: "keeps settles (clearPendingRequestFromLog env req)"
  unfolding keeps_def settles_def using clear_list by fastforce

lemma replace_settles: "is_recv c \<Longrightarrow> keeps settles (replacePendingCall env req c)"
  unfolding keeps_def settles_def is_recv_def using replace_list by (fastforce split: if_splits)

lemma await_settles [keeps_intros]: "keeps settles (awaitSsendAck env request)"
  unfolding awaitSsendAck_def
  by (rule keepsI, split option.split_asm, simp, erule keepsD [rotated], intro keeps_intros replace_settles)
    (simp add: is_recv_def)

lemma complete_request_settles [keeps_intros]: "keeps settles (complete_request env request)"
  unfolding complete_request_def
  by (rule keepsI, split option.split_asm, simp, erule keepsD [rotated], intro keeps_intros)

lemma complete_p2p_settles [keeps_intros]: "keeps settles (completePendingP2pRequests env)"
  unfolding completePendingP2pRequests_def by (intro keeps_intros)

lemma test_until_settles: "request_until env request s = Some r \<Longrightarrow> \<forall>a t. r = Ok (a, t) \<longrightarrow> settles s t"
proof (induction rule: request_until.raw_induct [rotated, consumes 1, case_names step])
  case (step rec env request s r)
  show ?case
  proof (cases "MPI_Test_internal env request 0 False s")
    case (Inl e)
    then show ?thesis using step(2) by auto
  next
    case (Inr x)
    then obtain rc flag st u where x: "MPI_Test_internal env request 0 False s = Ok ((rc, flag, st), u)" by (cases x) auto
    then have u: "settles s u" by (rule keepsD [OF test_settles])
    show ?thesis using step(1) [of env request u r] step(2) x u drain.R_trans [OF u] by (auto split: if_splits)
  qed
qed

lemma must_complete_settles [keeps_intros]: "keeps settles (must_complete env request)"
  using test_until_settles by (fastforce simp: keeps_def must_complete_def split: option.splits)

lemma complete_send_settles [keeps_intros]: "keeps settles (complete_send env request)"
  unfolding complete_send_def Let_def
  by (rule keepsI, split if_split_asm, simp, erule keepsD [rotated], intro keeps_intros)

section \<open>The loops of the drain\<close>

lemma get_count_settles [keeps_intros]: "keeps settles (PMPI_Get_count env st datatype)"
  unfolding PMPI_Get_count_def by (intro keeps_intros)

lemma buffer_settles [keeps_intros]: "keeps settles (recvMsgIntoInternalBuffer env st comm)"
  unfolding recvMsgIntoInternalBuffer_def by (intro keeps_intros log_part_modify) (simp add: log_part_def)

lemma drain_message_settles [keeps_intros]: "keeps settles (drain_message env comm st)"
  unfolding drain_message_def by (intro keeps_intros)

lemma probe_settles [keeps_intros]: "keeps settles (MPI_Iprobe_internal env source tag comm flag)"
  unfolding MPI_Iprobe_internal_def by (intro keeps_intros)

lemma drain_comm_settles: "drain_comm env comm s = Some r \<Longrightarrow> \<forall>a t. r = Ok (a, t) \<longrightarrow> settles s t"
proof (induction rule: drain_comm.raw_induct [rotated, consumes 1, case_names step])
  case (step rec env comm s r)
  let ?probe = "MPI_Iprobe_internal env (int_const env ''ANY_SOURCE'') (int_const env ''ANY_TAG'') comm 1"
  show ?case
  proof (cases "?probe s")
    case (Inl e)
    then show ?thesis using step(2) by auto
  next
    case (Inr x)
    then obtain rc flag st u where x: "?probe s = Ok ((rc, flag, st), u)" by (cases x) auto
    then have u: "settles s u" by (rule keepsD [OF probe_settles])
    show ?thesis
    proof (cases "drain_message env comm (written st) u")
      case (Inl e)
      then show ?thesis using step(2) x u by (auto split: if_splits)
    next
      case (Inr y)
      then obtain again v where y: "drain_message env comm (written st) u = Ok (again, v)" by (cases y) auto
      then have v: "settles s v" by (rule drain.R_trans [OF u keepsD [OF drain_message_settles]])
      show ?thesis using step(1) [of env comm v r] step(2) x y u v drain.R_trans [OF v] by (auto split: if_splits)
    qed
  qed
qed

lemma probe_comm_settles [keeps_intros]: "keeps settles (probe_comm env comm)"
proof -
  have "keeps settles (skip_comm env comm)"
    by (rule keepsI) (auto simp: skip_comm_def split: if_splits option.splits)
  moreover have "keeps settles (\<lambda>s. case drain_comm env comm s of None \<Rightarrow> Fault Spin | Some r \<Rightarrow> r)"
    using drain_comm_settles by (fastforce simp: keeps_def split: option.splits)
  ultimately show ?thesis unfolding probe_comm_def by (intro keeps_intros)
qed

lemma drain_pass_settles [keeps_intros]: "keeps settles (drain_pass env round)" "keeps settles (drainRemainingP2pMsgs env)"
  "keeps settles (registerLocalSendsAndRecvs env round)"
  unfolding drain_pass_def drainRemainingP2pMsgs_def registerLocalSendsAndRecvs_def by (intro keeps_intros)+

lemma drain_in_flight_settles: "drain_in_flight env round n m s = Some r \<Longrightarrow> \<forall>a t. r = Ok (a, t) \<longrightarrow> settles s t"
proof (induction rule: drain_in_flight.raw_induct [rotated, consumes 1, case_names step])
  case (step rec env round n m s r)
  show ?case
  proof (cases "drain_pass env round s")
    case (Inl e)
    then show ?thesis using step(2) by (auto split: if_splits)
  next
    case (Inr x)
    then obtain sent recv u where x: "drain_pass env round s = Ok ((sent, recv), u)" by (cases x) auto
    then have u: "settles s u" by (rule keepsD [OF drain_pass_settles(1)])
    show ?thesis using step(1) [of env "round + 1" sent recv u r] step(2) x u drain.R_trans [OF u] by (auto split: if_splits)
  qed
qed

section \<open>After the drain\<close>

lemma key_ucast [simp]: "key env (ucast h) = Some h"
  using lookup_handle_map(1) [of True _ h] by (simp add: key_def ucast_handle)

lemma request_type:
  assumes "log_ok s" and "(h, c) \<in> set (log_list s)"
  shows "pendingRequestType env (ucast h) s = req_type c" and "getPendingCall env (ucast h) s = Some c"
proof -
  obtain js where inv: "log_inv s js" using assms(1) by (auto simp: log_ok_def)
  then obtain i where i: "i \<in> set js" "virt (ent s i) = h" "call (ent s i) = c"
    using assms(2) by (auto simp: log_list_calls(1))
  then have l: "lookup_virt_id_entry (wide_handles env) (vtab s) (ucast h) = Some i"
    using inv lookup_ent [of s "wide_handles env" h i] by (auto simp: log_inv_def log_rep_def)
  then show "pendingRequestType env (ucast h) s = req_type c"
    using i(3) by (simp add: pendingRequestType_def lookup_def)
  have "req_type c \<noteq> UNKNOW_REQUEST" using log_list_calls(2) [OF inv] assms(2) by auto
  then show "getPendingCall env (ucast h) s = Some c" using l i(3) by (simp add: getPendingCall_def lookup_def)
qed

text \<open>A send leaves the log, or becomes the receive of its acknowledgement.\<close>

definition sends_among :: "'l proc \<Rightarrow> (int32 \<Rightarrow> bool) \<Rightarrow> 'l proc \<Rightarrow> bool" where
  "sends_among s P t \<longleftrightarrow> log_ok t \<and> (\<forall>(h, c)\<in>set (log_list t). is_recv c \<or> (h, c) \<in> set (log_list s) \<and> P h)"

lemma settles_among:
  assumes "sends_among s P t" and "settles t u"
  shows "sends_among s P u"
  using assms by (auto simp: sends_among_def settles_def)

lemma await_result:
  assumes "log_ok s" and "awaitSsendAck env (ucast h) s = Ok (a, t)"
  shows "sends_among s (\<lambda>g. g \<noteq> h) t"
proof -
  obtain n where n: "find (\<lambda>n. sn_request n = ucast h) (ssend_notices s) = Some n"
    using assms(2) by (auto simp: awaitSsendAck_def split: option.splits)
  obtain real s1 args rc outs s2 u where st: "real_of env (ssend_ack_comm s) s = Ok (real, s1)"
    "next_func env ''Irecv'' args s1 = Ok ((rc, outs), s2)" "update_virt env (ucast h) (the_handle outs 0) s2 = Ok ((), u)"
    and r: "replacePendingCall env (ucast h) \<lparr> req_type = IRECV_REQUEST, sendbuf = 0, recvbuf = 0,
      nb_count = 0, nb_datatype = upper_const env ''BYTE'', nb_comm = ssend_ack_comm s, remote_node = sn_receiver n,
      nb_tag = sn_ack_tag n, later_sends = 0 \<rparr> u = Ok (a, t)"
    using assms(2) unfolding awaitSsendAck_def n
    by (auto simp: andthen_Ok assert_act_def split: if_splits)
  have u: "settles s u"
    using keepsD [OF drain.keeps_real_of st(1)] keepsD [OF next_func_settles st(2)] keepsD [OF update_virt_settles st(3)]
    by (metis drain.R_trans)
  have "log_ok u" using u assms(1) by (simp add: settles_def)
  then show ?thesis using replace_list [OF _ r] u assms(1)
    by (auto simp: sends_among_def settles_def is_recv_def split: if_splits)
qed

lemma finish_result:
  assumes "log_ok s" and "andthen (update_virt env (ucast h) real) (\<lambda>_. clearPendingRequestFromLog env (ucast h)) s = Ok (a, t)"
  shows "sends_among s (\<lambda>g. g \<noteq> h) t"
proof -
  obtain u where u: "update_virt env (ucast h) real s = Ok ((), u)" "clearPendingRequestFromLog env (ucast h) u = Ok (a, t)"
    using assms(2) by (auto simp: andthen_Ok)
  have s: "settles s u" by (rule keepsD [OF update_virt_settles u(1)])
  then have "log_ok u" using assms(1) by (simp add: settles_def)
  then show ?thesis using clear_list [OF _ u(2)] s assms(1) by (auto simp: sends_among_def settles_def)
qed

lemma complete_send_result:
  assumes ok: "log_ok s" and c: "complete_send env (ucast h) s = Ok (a, t)"
  shows "sends_among s (\<lambda>g. g \<noteq> h) t"
proof (cases "pendingRequestType env (ucast h) s \<in> {ISEND_REQUEST, ISSEND_REQUEST}")
  case False
  then have t: "t = s" using c by (auto simp: complete_send_def Let_def)
  obtain js where inv: "log_inv s js" using ok by (auto simp: log_ok_def)
  have "is_recv c" if "(h, c) \<in> set (log_list s)" for c
    using False log_list_calls(2) [OF inv] that request_type(1) [OF ok that, of env]
    by (cases "req_type c") (auto simp: is_recv_def)
  then show ?thesis using ok by (auto simp: sends_among_def t)
next
  case True
  then obtain st u where u: "must_complete env (ucast h) s = Ok (st, u)" and
    r: "awaitSsendAck env (ucast h) u = Ok (a, t) \<or>
        andthen (update_virt env (ucast h) (lower_const env ''REQUEST_NULL'')) (\<lambda>_. clearPendingRequestFromLog env (ucast h)) u = Ok (a, t)"
    using c by (auto simp: complete_send_def Let_def andthen_Ok split: if_splits)
  have s: "settles s u" by (rule keepsD [OF must_complete_settles u])
  then have o: "log_ok u" using ok by (simp add: settles_def)
  have "sends_among u (\<lambda>g. g \<noteq> h) t" using r await_result [OF o] finish_result [OF o] by blast
  then show ?thesis using s ok by (auto simp: sends_among_def settles_def)
qed

lemma complete_sends_result:
  "log_ok s \<Longrightarrow> each (complete_send env) (map ucast hs) s = Ok (xs, t) \<Longrightarrow> sends_among s (\<lambda>g. g \<notin> set hs) t"
proof (induction hs arbitrary: s xs)
  case Nil
  then show ?case by (auto simp: sends_among_def)
next
  case (Cons h hs)
  obtain a u ys where u: "complete_send env (ucast h) s = Ok (a, u)" "each (complete_send env) (map ucast hs) u = Ok (ys, t)"
    using Cons.prems(2) by (auto simp: andthen_Ok)
  have s: "sends_among s (\<lambda>g. g \<noteq> h) u" by (rule complete_send_result [OF Cons.prems(1) u(1)])
  then have "sends_among u (\<lambda>g. g \<notin> set hs) t" using Cons.IH [OF _ u(2)] by (simp add: sends_among_def)
  then show ?case using s by (fastforce simp: sends_among_def)
qed

lemma posting_order_Ok:
  assumes "log_ok s"
  shows "pendingRequestsInPostingOrder s = Ok (map ucast (map fst (log_list s)), s)"
proof -
  obtain js where inv: "log_inv s js" using assms by (auto simp: log_ok_def)
  then have "log_from (vtab s) (pending_head s) = Some js" by (auto simp: log_inv_def log_rep_def dest: log_from_seg)
  then show ?thesis unfolding log_list_calls(1) [OF inv]
    by (simp add: pendingRequestsInPostingOrder_def log_slots_def andthen_def gets_def)
qed

lemma no_send_left:
  assumes ok: "log_ok s" and d: "drainInFlightP2p env s = Ok ((), t)"
  shows "log_ok t \<and> (\<forall>(h, c)\<in>set (log_list t). is_recv c)"
proof -
  obtain sent recv s1 s2 where st: "registerLocalSendsAndRecvs env 0 s = Ok ((sent, recv), s1)"
    "drain_in_flight env 1 sent recv s1 = Some (Ok ((), s2))" "completePendingIsends env s2 = Ok ((), t)"
    using d by (auto simp: drainInFlightP2p_def andthen_Ok split: option.splits)
  have "settles s s2"
    using keepsD [OF drain_pass_settles(3) st(1)] drain_in_flight_settles [OF st(2)] by (auto intro: drain.R_trans)
  then have o: "log_ok s2" using ok by (simp add: settles_def)
  obtain xs where "each (complete_send env) (map ucast (map fst (log_list s2))) s2 = Ok (xs, t)"
    using st(3) posting_order_Ok [OF o] by (auto simp: completePendingIsends_def andthen_Ok)
  then have "sends_among s2 (\<lambda>g. g \<notin> set (map fst (log_list s2))) t" by (rule complete_sends_result [OF o])
  then show ?thesis by (force simp: sends_among_def)
qed

section \<open>The replay at restart\<close>

text \<open>The real handle of a virtual one, and the calls to the library that repeat the receives.\<close>

definition translated :: "'l env \<Rightarrow> 'l proc \<Rightarrow> mana_mpi_handle \<Rightarrow> mana_mpi_handle result" where
  "translated env s h = get_real_id (wide_handles env) (ctab s) (vtab s) h"

definition recv_args :: "'l env \<Rightarrow> 'l proc \<Rightarrow> mpi_nonblocking_call \<Rightarrow> lval list" where
  "recv_args env s c = [VPtr (recvbuf c), VInt (nb_count c), VHandle (projr (translated env s (nb_datatype c))),
     VInt (remote_node c), VInt (nb_tag c), VHandle (projr (translated env s (nb_comm c)))]"

definition repost :: "'l env \<Rightarrow> 'l proc \<Rightarrow> mpi_nonblocking_call \<Rightarrow> 'l \<Rightarrow> 'l" where
  "repost env s c l = snd (lib env ''Irecv'' (recv_args env s c) l)"

definition replayable :: "'l env \<Rightarrow> 'l proc \<Rightarrow> mana_mpi_handle \<Rightarrow> bool" where
  "replayable env s x \<longleftrightarrow> (\<exists>r. translated env s x = Ok r) \<and> (\<forall>(h, c)\<in>set (log_list s). key env x \<noteq> Some h)"

lemma option_eqI: "(\<And>j. x = Some j \<longleftrightarrow> y = Some j) \<Longrightarrow> x = y"
  by (cases x; cases y) auto

lemma lookup_with_entry:
  assumes "\<And>e. virt (f e) = virt e" and "has_chunk (vtab s) i"
  shows "lookup_virt_id_entry w (vtab (with_entry i f s)) x = lookup_virt_id_entry w (vtab s) x"
proof -
  have "lookup_virt_id_entry w (vtab (with_entry i f s)) (ucast h) = lookup_virt_id_entry w (vtab s) (ucast h)" for h :: int32
    by (rule option_eqI) (use assms in \<open>simp add: lookup_handle_iff ent_with_entry\<close>)
  then show ?thesis unfolding lookup_any [of w "vtab (with_entry i f s)" x] lookup_any [of w "vtab s" x] by simp
qed

lemma update_virt_other:
  assumes u: "update_virt env (ucast h) real s = Ok (a, t)" and x: "key env x \<noteq> Some h"
  shows "translated env t x = translated env s x" and "low t = low s"
proof -
  obtain i where i: "lookup_virt_id_entry (wide_handles env) (vtab s) (ucast h) = Some i"
    "t = with_entry i (\<lambda>e. e \<lparr> real_id := real \<rparr>) s"
    using u by (auto simp: update_virt_def change_table_def on_table_def update_virt_id_def bind_result_Ok_iff with_entry_def
        split: option.splits)
  note c = lookup_has_chunk [OF i(1)]
  have l: "lookup_virt_id_entry (wide_handles env) (vtab t) y = lookup_virt_id_entry (wide_handles env) (vtab s) y" for y
    unfolding i(2) by (rule lookup_with_entry [OF _ c]) simp
  have ne: "j \<noteq> i" if j: "lookup_virt_id_entry (wide_handles env) (vtab s) x = Some j" for j
  proof -
    obtain g where "key env x = Some g" "lookup_virt_id_entry (wide_handles env) (vtab s) (ucast g) = Some j"
      using j unfolding key_lookup [of env "vtab s" x] by (cases "key env x") simp_all
    then show ?thesis using x i(1) by (auto simp: lookup_handle_iff)
  qed
  show "translated env t x = translated env s x"
  proof (cases "lookup_virt_id_entry (wide_handles env) (vtab s) x")
    case None
    have e: "get_virt_id_entry (wide_handles env) (vtab t) x = Fault Spin"
      "get_virt_id_entry (wide_handles env) (vtab s) x = Fault Spin" "ctab t = ctab s"
      using None by (simp_all add: get_virt_id_entry_def l) (simp add: i(2))
    show ?thesis unfolding translated_def get_real_id_def get_real_id_slow_def l None e by (simp split: option.split)
  next
    case (Some j)
    then have "ent t j = ent s j" using ne by (simp add: i(2) ent_with_entry [OF c])
    then show ?thesis using Some by (simp add: translated_def get_real_id_def l)
  qed
  show "low t = low s" by (simp add: i(2) with_entry_def)
qed

lemma same_log_list: "update_virt env (ucast h) real s = Ok (a, t) \<Longrightarrow> log_ok s \<Longrightarrow> log_ok t \<and> log_list t = log_list s"
proof -
  assume u: "update_virt env (ucast h) real s = Ok (a, t)" and "log_ok s"
  then obtain js where inv: "log_inv s js" by (auto simp: log_ok_def)
  obtain i where i: "lookup_virt_id_entry (wide_handles env) (vtab s) (ucast h) = Some i"
    "t = with_entry i (\<lambda>e. e \<lparr> real_id := real \<rparr>) s"
    using u by (auto simp: update_virt_def change_table_def on_table_def update_virt_id_def bind_result_Ok_iff with_entry_def
        split: option.splits)
  show ?thesis using entry_keeps_log [OF inv, of "\<lambda>e. e \<lparr> real_id := real \<rparr>" i] lookup_has_chunk [OF i(1)]
    by (auto simp: i(2) keeps_call_def keeps_handle_def log_ok_def)
qed

text \<open>The states of the replay: the log is that of the restart, and the communicators and datatypes translate as then.\<close>

definition replaying :: "'l env \<Rightarrow> 'l proc \<Rightarrow> 'l proc \<Rightarrow> bool" where
  "replaying env s0 s \<longleftrightarrow> log_ok s \<and> log_list s = log_list s0 \<and>
     (\<forall>x. replayable env s0 x \<longrightarrow> translated env s x = translated env s0 x)"

lemma update_virt_Ok:
  assumes "log_ok s" and "(h, c) \<in> set (log_list s)"
  shows "\<exists>t. update_virt env (ucast h) real s = Ok ((), t)"
proof -
  have "lookup env s (ucast h) \<noteq> None" using request_type(2) [OF assms, of env] by (simp add: getPendingCall_def split: option.splits)
  then show ?thesis by (auto simp: lookup_def update_virt_def change_table_def on_table_def update_virt_id_def)
qed

lemma replay_one:
  assumes r: "replaying env s0 s" and h: "(h, c) \<in> set (log_list s0)" "is_recv c"
    and x: "replayable env s0 (nb_comm c)" "replayable env s0 (nb_datatype c)"
  shows "\<exists>t. replay_request env (ucast h) s = Ok ((), t) \<and> replaying env s0 t \<and> low t = repost env s0 c (low s)"
proof -
  have ok: "log_ok s" and l: "(h, c) \<in> set (log_list s)" using r h(1) by (simp_all add: replaying_def)
  obtain rt rcm where tr: "translated env s (nb_comm c) = Ok rcm" "translated env s (nb_datatype c) = Ok rt"
    "translated env s0 (nb_comm c) = Ok rcm" "translated env s0 (nb_datatype c) = Ok rt"
    using x r by (auto simp: replayable_def replaying_def)
  obtain res l' where lb: "lib env ''Irecv'' (recv_args env s0 c) (low s) = (res, l')" by (cases "lib env ''Irecv'' (recv_args env s0 c) (low s)")
  define s1 where "s1 = s \<lparr> low := l' \<rparr>"
  have p: "log_part s1 = log_part s" by (simp add: s1_def log_part_def)
  note same = log_part_same [OF p]
  have ok1: "log_ok s1" "(h, c) \<in> set (log_list s1)" using ok l same by simp_all
  obtain t where t: "update_virt env (ucast h) (the_handle (snd res) 0) s1 = Ok ((), t)" using update_virt_Ok [OF ok1] by blast
  have "translated env t y = translated env s0 y" if y: "replayable env s0 y" for y
  proof -
    have "key env y \<noteq> Some h" using y h(1) by (auto simp: replayable_def)
    then have "translated env t y = translated env s1 y" by (rule update_virt_other(1) [OF t])
    then show ?thesis using y r by (simp add: replaying_def s1_def translated_def)
  qed
  moreover have "low t = l'" using update_virt_other(2) [OF t, of "nb_comm c"] x(1) h(1) by (auto simp: s1_def replayable_def)
  moreover have "replay_request env (ucast h) s = Ok ((), t)"
    using request_type(2) [OF ok l, of env] h(2) tr lb t
    by (cases res) (simp add: replay_request_def is_recv_def andthen_def real_of_def lift_def next_func_def recv_args_def
        translated_def s1_def)
  ultimately show ?thesis using same_log_list [OF t ok1(1)] r same(3) lb by (auto simp: replaying_def repost_def)
qed

lemma replay_each:
  assumes "replaying env s0 s" and "set l \<subseteq> set (log_list s0)" and "\<forall>(h, c)\<in>set l. is_recv c"
    and "\<forall>(h, c)\<in>set (log_list s0). replayable env s0 (nb_comm c) \<and> replayable env s0 (nb_datatype c)"
  shows "\<exists>xs t. each (replay_request env) (map ucast (map fst l)) s = Ok (xs, t) \<and> replaying env s0 t \<and>
    low t = fold (repost env s0) (map snd l) (low s)"
  using assms
proof (induction l arbitrary: s)
  case Nil
  then show ?case by (simp add: ret_def)
next
  case (Cons p l)
  obtain h c where p: "p = (h, c)" by (cases p)
  obtain t where t: "replay_request env (ucast h) s = Ok ((), t)" "replaying env s0 t" "low t = repost env s0 c (low s)"
    using replay_one [OF Cons.prems(1), of h c] Cons.prems(2-4) by (auto simp: p)
  obtain xs u where u: "each (replay_request env) (map ucast (map fst l)) t = Ok (xs, u)" "replaying env s0 u"
    "low u = fold (repost env s0) (map snd l) (low t)"
    using Cons.IH [OF t(2)] Cons.prems(2-4) by auto
  have "each (replay_request env) (map ucast (map fst (p # l))) s = Ok (() # xs, u)"
    using t(1) u(1) by (simp add: p andthen_def ret_def)
  then show ?case using u(2,3) t(3) by (auto simp: p)
qed

text \<open>A process with a communicator and one pending receive on it.\<close>

lemma sample_pending_recv:
  obtains s :: "nat proc" and g h where "log_ok s" and "log_list s = [(h, posted_call IRECV_REQUEST 0 64 4 (ucast g) 1 9 (ucast g))]"
    and "g \<noteq> h" and "translated sample_env s (ucast g) = Ok 77"
proof -
  define s0 :: "nat proc" where "s0 = (sample_process []) \<lparr> vtab := empty_vtable \<rparr>"
  have c0: "ctab s0 = no_constants" "vtab s0 = empty_vtable" "pending_head s0 = None" "pending_tail s0 = None"
    "pending_issends s0 = 0" by (simp_all add: s0_def sample_process_def)
  have inv0: "log_inv s0 []"
    by (simp add: log_inv_def log_rep_def c0 vtable_ok_empty is_pending_def zero_entry_def zero_call_def)
  have k: "(1::nat) \<in> {1..6}" "(5::nat) \<in> {1..6}" by simp_all
  have "room empty_vtable" by (simp add: room_def empty_vtable_def)
  then obtain v w where w: "add_virt_id no_constants 77 NoDesc 1 empty_vtable = Ok (v, w)" "room w"
    using room_add [of empty_vtable 77 NoDesc 1] by (auto simp: room_def empty_vtable_def)
  obtain v' w' where w': "add_virt_id no_constants 88 NoDesc 5 w = Ok (v', w')" using room_add [OF w(2)] by blast
  have inv1: "log_inv (s0 \<lparr> vtab := w \<rparr>) []" using add_virt_keeps_log [OF inv0 _ k(1)] w(1) c0 by simp
  have inv2: "log_inv (s0 \<lparr> vtab := w' \<rparr>) []" using add_virt_keeps_log [OF inv1 _ k(2)] w' c0(1) by simp
  obtain g e where g: "handle_map w = (handle_map empty_vtable)(g \<mapsto> e)" "vtable_ok no_constants w" "real_id e = 77"
    by (rule add_virt_id_map [OF vtable_ok_empty w(1) k(1)])
  obtain h e' where h: "handle_map w h = None" "handle_map w' = (handle_map w)(h \<mapsto> e')"
    by (rule add_virt_id_map [OF g(2) w' k(2)])
  define s1 where "s1 = s0 \<lparr> vtab := w' \<rparr>"
  have ne: "g \<noteq> h" using g(1) h(1) by auto
  let ?c = "posted_call IRECV_REQUEST 0 64 4 (ucast g) 1 9 (ucast g)"
  obtain i where i: "lookup_virt_id_entry True w' (ucast h) = Some i" using lookup_handle_map(2) [of w' h e' True] h(2) by auto
  obtain j where j: "lookup_virt_id_entry True w' (ucast g) = Some j" "slot_entry w' j = e"
    using lookup_handle_map(2) [of w' g e True] h(2) g(1) ne by auto
  obtain t where t: "addPendingRequestToLog sample_env IRECV_REQUEST 0 64 4 (ucast g) 1 9 (ucast g) (ucast h) s1 = Ok ((), t)"
    "log_change s1 t" "log_inv t [i]" "call (ent t i) = ?c"
    using post_spec [OF inv2 [folded s1_def], of sample_env h i IRECV_REQUEST ?c 0 64 4 "ucast g" 1 9 "ucast g"] i
    by (auto simp: s1_def)
  have v: "virt (ent t x) = virt (slot_entry w' x)" "has_chunk (vtab t) x = has_chunk w' x" "ctab t = no_constants" for x
    using t(2) c0(1) by (simp_all add: log_change_def s1_def)
  have "virt (slot_entry w' i) = h" using i unfolding lookup_handle_iff by blast
  then have "log_list t = [(h, ?c)]" using log_list_calls(1) [OF t(3)] t(4) v(1) by simp
  moreover have "lookup_virt_id_entry True (vtab t) (ucast g) = Some j" using j(1) unfolding lookup_handle_iff v .
  moreover have "real_id (ent t j) = 77"
  proof -
    have "j \<noteq> i" using i j(1) ne by (auto simp: lookup_handle_iff)
    obtain f where f: "t = link_last i (with_entry i f s1)"
      using t(1) i by (auto simp: addPendingRequestToLog_def andthen_def lift_def get_virt_id_entry_def modify_def s1_def)
    have ch: "has_chunk (vtab s1) i" using lookup_has_chunk [OF i] by (simp add: s1_def)
    have "ent t j = ent s1 j"
      unfolding f using \<open>j \<noteq> i\<close> ch c0(4) by (subst link_last_spec(2)) (simp_all add: ent_with_entry s1_def)
    then show ?thesis using j(2) g(3) by (simp add: s1_def)
  qed
  ultimately show ?thesis using that [of t h g] t(3) ne by (auto simp: log_ok_def translated_def get_real_id_def)
qed

section \<open>Properties\<close>



end
