(* ===== verification/Drain_Messages.thy ===== *)
theory Drain_Messages
  imports P2p_Dummies Sample_Process
begin

text \<open>
  Which message and which rank the drain picks: the buffered message of an \<^verbatim>\<open>MPI_Issend\<close> that gets the acknowledgement
  mark, and the rank that sends the dummy to a rank blocked in \<^verbatim>\<open>MPI_Recv\<close>.
\<close>

unbundle bit_operations_syntax

section \<open>Acknowledgements\<close>

lemma nth_match_some:
  "0 \<le> n \<Longrightarrow> n < int (length (filter P xs)) \<Longrightarrow>
   \<exists>k<length xs. nth_match P xs n = Some k \<and> P (xs ! k) \<and> int (length (filter P (take k xs))) = n"
proof (induction xs arbitrary: n)
  case (Cons x xs)
  show ?case
  proof (cases "P x \<and> n = 0")
    case True
    then show ?thesis by (intro exI [of _ 0]) simp
  next
    case False
    define n' where "n' = (if P x then n - 1 else n)"
    have "0 \<le> n'" "n' < int (length (filter P xs))" using Cons.prems False by (auto simp: n'_def)
    then obtain k where "k < length xs" "nth_match P xs n' = Some k" "P (xs ! k)" "int (length (filter P (take k xs))) = n'"
      using Cons.IH by blast
    then show ?thesis using False by (intro exI [of _ "Suc k"]) (auto simp: n'_def)
  qed
qed simp

lemma nth_match_none: "int (length (filter P xs)) \<le> n \<Longrightarrow> nth_match P xs n = None"
  by (induction xs arbitrary: n) auto

lemma filter_rev_take:
  "k < length xs \<Longrightarrow> length (filter P (take k (rev xs))) = length (filter P (drop (Suc (length xs - 1 - k)) xs))"
proof -
  assume "k < length xs"
  then have "take k (rev xs) = rev (drop (Suc (length xs - 1 - k)) xs)" by (simp add: take_rev Suc_diff_Suc)
  then show ?thesis by (simp add: rev_filter [symmetric])
qed


definition ack_message :: "int \<Rightarrow> mpi_message" where
  "ack_message tag = \<lparr> m_buf = 0, m_count = 8, m_datatype = 4, m_size = 8, m_comm = 7,
     m_status = zero_status \<lparr> st_source := 2, st_tag := tag \<rparr>, ack_to = -1, ack_tag = 0 \<rparr>"

lemma ack_message_sel [simp]: "has_envelope 7 2 9 (ack_message t) \<longleftrightarrow> t = 9" "ack_to (ack_message t) = -1"
  by (simp_all add: has_envelope_def ack_message_def)


section \<open>The sender of a dummy\<close>

text \<open>The bitmap in the database after the blocked ranks \<open>bs\<close> have published themselves.\<close>

definition blocked_bitmap :: "int list \<Rightarrow> int \<Rightarrow> int64" where
  "blocked_bitmap bs k = fold (\<lambda>r w. if r div 64 = k then w OR push_bit (nat (r mod 64)) 1 else w) bs 0"

lemma bitmap_fold:
  "0 \<le> r \<Longrightarrow> \<forall>b\<in>set bs. 0 \<le> b \<Longrightarrow>
   bit (fold (\<lambda>r w. if r div 64 = k then w OR push_bit (nat (r mod 64)) 1 else w) bs (w :: int64)) (nat (r mod 64)) \<longleftrightarrow>
   bit w (nat (r mod 64)) \<or> (\<exists>b\<in>set bs. b div 64 = k \<and> b mod 64 = r mod 64)"
proof (induction bs arbitrary: w)
  case (Cons b bs)
  have "nat (r mod 64) < 64" by (simp add: nat_less_iff)
  then have "bit (push_bit (nat (b mod 64)) 1 :: int64) (nat (r mod 64)) \<longleftrightarrow> b mod 64 = r mod 64"
    by (auto simp: push_bit_of_1 bit_exp_iff possible_bit_word nat_eq_iff eq_nat_nat_iff)
  then show ?case using Cons by (auto simp: bit_or_iff)
qed simp

lemma bitmap_exact:
  assumes "0 \<le> r" and "\<forall>b\<in>set bs. 0 \<le> b"
  shows "bit (blocked_bitmap bs (r div 64)) (nat (r mod 64)) \<longleftrightarrow> r \<in> set bs"
proof -
  have "b = r" if "b div 64 = r div 64" "b mod 64 = r mod 64" for b
    using that by (metis div_mult_mod_eq)
  then show ?thesis using bitmap_fold [OF assms, of "r div 64" 0] by (auto simp: blocked_bitmap_def)
qed

text \<open>The database answers with the bitmap.\<close>

definition reads_bitmap :: "'l env \<Rightarrow> int list \<Rightarrow> bool" where
  "reads_bitmap env bs \<longleftrightarrow>
     (\<forall>k l. coordinator env (K_get64 (BlockedKey k)) l = (K_value (sint (blocked_bitmap bs k)), l))"

lemma first_unblocked_exact:
  assumes "reads_bitmap env bs" and "\<forall>b\<in>set bs. 0 \<le> b" and "\<forall>r\<in>set members. 0 \<le> r"
    and "\<forall>k w. words k = Some w \<longrightarrow> w = blocked_bitmap bs k"
  shows "first_unblocked env i members words s =
    Ok (if set members \<subseteq> set bs then None else Some (i + length (takeWhile (\<lambda>r. r \<in> set bs) members)), s)"
  using assms(3,4)
proof (induction members arbitrary: i words)
  case (Cons r members)
  let ?w = "blocked_bitmap bs (r div 64)"
  have "kvGet env (BlockedKey (r div 64)) 0 s = Ok (sint ?w, s)"
    using assms(1) by (simp add: kvGet_def ask_def andthen_def ret_def reads_bitmap_def)
  then have w: "(case words (r div 64) of Some w \<Rightarrow> ret w
      | None \<Rightarrow> andthen (kvGet env (BlockedKey (r div 64)) 0) (\<lambda>w. ret (word_of_int w))) s = Ok (?w, s)"
    using Cons.prems(2) by (auto simp: andthen_def ret_def split: option.split)
  have b: "bit ?w (nat (r mod 64)) \<longleftrightarrow> r \<in> set bs" using bitmap_exact [OF _ assms(2)] Cons.prems(1) by simp
  have "first_unblocked env (Suc i) members (words(r div 64 \<mapsto> ?w)) s =
      Ok (if set members \<subseteq> set bs then None else Some (Suc i + length (takeWhile (\<lambda>r. r \<in> set bs) members)), s)"
    using Cons.IH Cons.prems by simp
  then show ?case using w b by (simp add: andthen_def ret_def)
qed (simp add: ret_def)


definition bitmap_env :: "nat env" where
  "bitmap_env = sample_env \<lparr> coordinator := (\<lambda>r n. case r of
     K_get64 (BlockedKey k) \<Rightarrow> (K_value (sint (blocked_bitmap [0, 2] k)), n) | _ \<Rightarrow> (K_none, n)) \<rparr>"


end
