(* ===== verification/Recv_Slot.thy ===== *)
theory Recv_Slot
  imports P2p_Dummies Sample_Process
begin

text \<open>
  The race between a thread in a blocking \<^verbatim>\<open>MPI_Recv\<close> and the checkpoint thread on the slot \<^verbatim>\<open>g_pending_recv\<close>, over a job of \<open>n\<close>
  ranks and any number of checkpoints (\<^verbatim>\<open>PMPI_Recv\<close>, \<^verbatim>\<open>drainInFlightP2p\<close>, \<^verbatim>\<open>unblockPendingRecvs\<close> and the event hook of
  \<^verbatim>\<open>mpi_plugin.cpp\<close>).  A step is one access to shared memory, one message, or one barrier passed.  The receiver decides
  by one read of \<^verbatim>\<open>p2p_dummy_phase\<close> whether its message is a dummy; the machine records what the message really is.
\<close>

section \<open>The machine\<close>

text \<open>The application's thread: outside \<^verbatim>\<open>MPI_Recv\<close>, in the library, back from it with a message that is a dummy or not,
  the same after it has read \<^verbatim>\<open>p2p_dummy_phase\<close>, and before it counts the message.\<close>

datatype app_pc = Outside | InRecv | Returned bool | Classified bool bool | Counting

text \<open>The checkpoint thread: no checkpoint, after \<^verbatim>\<open>close_lower_half_except_blocked\<close>, in a round of the drain, after adding
  its counters, in phase A of \<^verbatim>\<open>unblockPendingRecvs\<close> before and after closing the slot, after setting the phase, after posting,
  after sending the dummies, after \<^verbatim>\<open>close_lower_half\<close>.\<close>

datatype ck_pc = CkRunning | CkQuiet | CkDrain | CkCounted | CkClose | CkClosed | CkPhased | CkPosted | CkSent | CkShut

text \<open>A round is numbered across checkpoints, as each checkpoint has a database of its own.\<close>

record slots =
  slot :: "nat \<Rightarrow> pending_recv_state"
  phase :: "nat \<Rightarrow> bool"
  app :: "nat \<Rightarrow> app_pc"
  ck :: "nat \<Rightarrow> ck_pc"
  in_flight :: "nat \<Rightarrow> nat"
  dummies :: "nat \<Rightarrow> nat"
  sent :: "nat \<Rightarrow> nat"
  recvd :: "nat \<Rightarrow> nat"
  blocked :: "nat \<Rightarrow> bool"
  sender :: "nat \<Rightarrow> nat"
  rnd :: "nat \<Rightarrow> nat"
  sum_sent :: "nat \<Rightarrow> nat"
  sum_recv :: "nat \<Rightarrow> nat"

definition slot_start :: "slots \<Rightarrow> bool" where
  "slot_start j \<longleftrightarrow> slot j = (\<lambda>_. PENDING_RECV_IDLE) \<and> phase j = (\<lambda>_. False) \<and> app j = (\<lambda>_. Outside) \<and> ck j = (\<lambda>_. CkRunning) \<and>
     in_flight j = (\<lambda>_. 0) \<and> dummies j = (\<lambda>_. 0) \<and> sent j = (\<lambda>_. 0) \<and> recvd j = (\<lambda>_. 0) \<and> rnd j = (\<lambda>_. 0) \<and>
     sum_sent j = (\<lambda>_. 0) \<and> sum_recv j = (\<lambda>_. 0)"

definition registered :: "slots \<Rightarrow> nat \<Rightarrow> nat \<Rightarrow> bool" where
  "registered j q k \<longleftrightarrow> k < rnd j q \<or> rnd j q = k \<and> ck j q = CkCounted"

definition close_idle :: "pending_recv_state \<Rightarrow> pending_recv_state" where
  "close_idle x = (if x = PENDING_RECV_IDLE then PENDING_RECV_CLOSED else x)"

definition send_posted :: "nat \<Rightarrow> nat \<Rightarrow> slots \<Rightarrow> nat \<Rightarrow> nat" where
  "send_posted n r j q = dummies j q + (if q < n \<and> blocked j q \<and> sender j q = r then 1 else 0)"

inductive slot_step :: "nat \<Rightarrow> slots \<Rightarrow> slots \<Rightarrow> bool" for n where
  send: "r < n \<Longrightarrow> q < n \<Longrightarrow> ck j r = CkRunning \<Longrightarrow>
     slot_step n j (j \<lparr> sent := (sent j)(r := sent j r + 1), in_flight := (in_flight j)(q := in_flight j q + 1) \<rparr>)"
| take: "r < n \<Longrightarrow> ck j r \<in> {CkRunning, CkDrain} \<Longrightarrow> 0 < in_flight j r \<Longrightarrow>
     slot_step n j (j \<lparr> in_flight := (in_flight j)(r := in_flight j r - 1), recvd := (recvd j)(r := recvd j r + 1) \<rparr>)"
| enter: "r < n \<Longrightarrow> app j r = Outside \<Longrightarrow> slot j r = PENDING_RECV_IDLE \<Longrightarrow>
     slot_step n j (j \<lparr> slot := (slot j)(r := PENDING_RECV_ACTIVE), app := (app j)(r := InRecv) \<rparr>)"
| real: "r < n \<Longrightarrow> app j r = InRecv \<Longrightarrow> 0 < in_flight j r \<Longrightarrow>
     slot_step n j (j \<lparr> in_flight := (in_flight j)(r := in_flight j r - 1), app := (app j)(r := Returned False) \<rparr>)"
| dummy: "r < n \<Longrightarrow> app j r = InRecv \<Longrightarrow> 0 < dummies j r \<Longrightarrow>
     slot_step n j (j \<lparr> dummies := (dummies j)(r := dummies j r - 1), app := (app j)(r := Returned True) \<rparr>)"
| classify: "r < n \<Longrightarrow> app j r = Returned d \<Longrightarrow> slot_step n j (j \<lparr> app := (app j)(r := Classified d (phase j r)) \<rparr>)"
| store_dummy: "r < n \<Longrightarrow> app j r = Classified d True \<Longrightarrow>
     slot_step n j (j \<lparr> slot := (slot j)(r := PENDING_RECV_CLOSED), app := (app j)(r := Outside) \<rparr>)"
| store_real: "r < n \<Longrightarrow> app j r = Classified d False \<Longrightarrow>
     slot_step n j (j \<lparr> slot := (slot j)(r := PENDING_RECV_IDLE), app := (app j)(r := Counting) \<rparr>)"
| count_it: "r < n \<Longrightarrow> app j r = Counting \<Longrightarrow>
     slot_step n j (j \<lparr> recvd := (recvd j)(r := recvd j r + 1), app := (app j)(r := Outside) \<rparr>)"
| quiet: "r < n \<Longrightarrow> ck j r = CkRunning \<Longrightarrow> app j r \<in> {Outside, InRecv} \<Longrightarrow> slot_step n j (j \<lparr> ck := (ck j)(r := CkQuiet) \<rparr>)"
| start: "r < n \<Longrightarrow> ck j r = CkQuiet \<Longrightarrow> \<forall>q<n. ck j q \<in> {CkQuiet, CkDrain, CkCounted} \<Longrightarrow>
     slot_step n j (j \<lparr> ck := (ck j)(r := CkDrain), slot := (slot j)(r := close_idle (slot j r)) \<rparr>)"
| register: "r < n \<Longrightarrow> ck j r = CkDrain \<Longrightarrow> k = rnd j r \<Longrightarrow>
     slot_step n j (j \<lparr> ck := (ck j)(r := CkCounted), sum_sent := (sum_sent j)(k := sum_sent j k + sent j r),
       sum_recv := (sum_recv j)(k := sum_recv j k + recvd j r) \<rparr>)"
| decide: "r < n \<Longrightarrow> ck j r = CkCounted \<Longrightarrow> k = rnd j r \<Longrightarrow> \<forall>q<n. registered j q k \<Longrightarrow>
     slot_step n j (j \<lparr> rnd := (rnd j)(r := k + 1),
       ck := (ck j)(r := if sum_sent j k > sum_recv j k then CkDrain else CkClose) \<rparr>)"
| close: "r < n \<Longrightarrow> ck j r = CkClose \<Longrightarrow>
     slot_step n j (j \<lparr> ck := (ck j)(r := CkClosed), slot := (slot j)(r := close_idle (slot j r)),
       blocked := (blocked j)(r := (slot j r = PENDING_RECV_ACTIVE)) \<rparr>)"
| set_phase: "r < n \<Longrightarrow> ck j r = CkClosed \<Longrightarrow>
     slot_step n j (j \<lparr> ck := (ck j)(r := CkPhased), phase := (phase j)(r := True) \<rparr>)"
| post: "r < n \<Longrightarrow> q < n \<Longrightarrow> ck j r = CkPhased \<Longrightarrow> \<forall>q<n. ck j q \<in> {CkPhased, CkPosted} \<Longrightarrow>
     slot_step n j (j \<lparr> ck := (ck j)(r := CkPosted), sender := (sender j)(r := q) \<rparr>)"
| send_dummies: "r < n \<Longrightarrow> ck j r = CkPosted \<Longrightarrow> \<forall>q<n. ck j q \<in> {CkPosted, CkSent} \<Longrightarrow>
     slot_step n j (j \<lparr> ck := (ck j)(r := CkSent), dummies := send_posted n r j \<rparr>)"
| shut: "r < n \<Longrightarrow> ck j r = CkSent \<Longrightarrow> \<forall>q<n. ck j q \<in> {CkSent, CkShut} \<Longrightarrow> app j r = Outside \<Longrightarrow>
     slot_step n j (j \<lparr> ck := (ck j)(r := CkShut) \<rparr>)"
| reset: "r < n \<Longrightarrow> ck j r = CkShut \<Longrightarrow> \<forall>q<n. ck j q \<in> {CkShut, CkRunning, CkQuiet} \<Longrightarrow>
     slot_step n j (j \<lparr> ck := (ck j)(r := CkRunning), phase := (phase j)(r := False),
       slot := (slot j)(r := PENDING_RECV_IDLE) \<rparr>)"

section \<open>The checkpoint threads move together\<close>

fun stage :: "ck_pc \<Rightarrow> nat" where
  "stage CkRunning = 0" | "stage CkQuiet = 1" | "stage CkDrain = 2" | "stage CkCounted = 2" | "stage CkClose = 3"
| "stage CkClosed = 3" | "stage CkPhased = 3" | "stage CkPosted = 4" | "stage CkSent = 5" | "stage CkShut = 6"

definition near :: "nat \<Rightarrow> nat \<Rightarrow> bool" where
  "near a b \<longleftrightarrow> a \<le> b + 1 \<and> b \<le> a + 1 \<or> a \<in> {0, 1, 6} \<and> b \<in> {0, 1, 6}"

definition together :: "nat \<Rightarrow> slots \<Rightarrow> bool" where
  "together n j \<longleftrightarrow> (\<forall>r<n. \<forall>q<n. near (stage (ck j r)) (stage (ck j q)) \<and>
     (rnd j q < rnd j r \<longrightarrow> rnd j r = rnd j q + 1 \<and> ck j q = CkCounted \<and> stage (ck j r) \<in> {2, 3} \<and>
        (\<forall>p<n. registered j p (rnd j q))))"

lemma registered_mono: "slot_step n j j' \<Longrightarrow> registered j q k \<Longrightarrow> registered j' q k"
  by (induction rule: slot_step.induct) (auto simp: registered_def)

lemma near_sym: "near a b = near b a"
  by (auto simp: near_def)

lemma togetherD:
  assumes "together n j" and "r < n" and "q < n"
  shows "near (stage (ck j r)) (stage (ck j q))"
    and "rnd j q < rnd j r \<Longrightarrow> rnd j r = rnd j q + 1 \<and> ck j q = CkCounted \<and> stage (ck j r) \<in> {2, 3} \<and> (\<forall>p<n. registered j p (rnd j q))"
  using assms by (auto simp: together_def)

text \<open>A step of one checkpoint thread to a stage that is near all the others.\<close>

lemma together_move:
  assumes t: "together n j" and c: "ck j' = (ck j)(r := c)" and rn: "rnd j' = rnd j" and r: "r < n"
    and n: "\<And>q. q < n \<Longrightarrow> near (stage c) (stage (ck j q))" and old: "ck j r \<noteq> CkCounted"
    and st: "stage (ck j r) \<in> {2, 3} \<Longrightarrow> stage c \<in> {2, 3} \<or> (\<forall>q<n. ck j q \<noteq> CkCounted)"
    and reg: "\<And>q k. registered j q k \<Longrightarrow> registered j' q k"
  shows "together n j'"
  unfolding together_def
proof (intro allI impI conjI)
  fix p q assume p: "p < n" and q: "q < n"
  show "near (stage (ck j' p)) (stage (ck j' q))"
    using togetherD(1) [OF t p q] n [OF p] n [OF q] near_sym by (auto simp: c near_def)
  assume lt: "rnd j' q < rnd j' p"
  note old' = togetherD(2) [OF t p q]
  show "rnd j' p = rnd j' q + 1" "ck j' q = CkCounted" "stage (ck j' p) \<in> {2, 3}"
    using old' lt old st q by (auto simp: c rn)
  fix m assume "m < n"
  then show "registered j' m (rnd j' q)" using old' lt reg by (simp add: rn)
qed

lemma together_same: "ck j' = ck j \<Longrightarrow> rnd j' = rnd j \<Longrightarrow> together n j \<Longrightarrow> together n j'"
  by (simp add: together_def registered_def)

lemma together_decide:
  assumes t: "together n j" and r: "r < n" "ck j r = CkCounted" "\<forall>q<n. registered j q (rnd j r)" and c: "stage c \<in> {2, 3}"
  shows "together n (j \<lparr> rnd := (rnd j)(r := rnd j r + 1), ck := (ck j)(r := c) \<rparr>)" (is "together n ?j")
proof -
  have q: "stage (ck j q) \<in> {2, 3}" "rnd j q = rnd j r \<and> ck j q = CkCounted \<or> rnd j q = rnd j r + 1" if "q < n" for q
  proof -
    have "registered j q (rnd j r)" using r that by blast
    then show "stage (ck j q) \<in> {2, 3}" "rnd j q = rnd j r \<and> ck j q = CkCounted \<or> rnd j q = rnd j r + 1"
      using togetherD(2) [OF t that r(1)] by (auto simp: registered_def)
  qed
  have reg: "registered ?j p (rnd j r)" if "p < n" for p using q(2) [OF that] by (auto simp: registered_def)
  show ?thesis unfolding together_def
  proof (intro allI impI conjI)
    fix p q' assume p: "p < n" "q' < n"
    show "near (stage (ck ?j p)) (stage (ck ?j q'))" using q(1) [OF p(1)] q(1) [OF p(2)] c by (auto simp: near_def)
    assume lt: "rnd ?j q' < rnd ?j p"
    have "rnd j q' = rnd j r" "q' \<noteq> r" using lt q(2) [OF p(1)] q(2) [OF p(2)] by (auto split: if_splits)
    moreover from this have "ck j q' = CkCounted" using q(2) [OF p(2)] by auto
    ultimately show "rnd ?j p = rnd ?j q' + 1" "ck ?j q' = CkCounted" "stage (ck ?j p) \<in> {2, 3}"
      using lt q(1,2) [OF p(1)] c by (auto split: if_splits)
    fix m assume "m < n"
    then show "registered ?j m (rnd ?j q')" using reg \<open>rnd j q' = rnd j r\<close> \<open>q' \<noteq> r\<close> by simp
  qed
qed

lemma together_step: "slot_step n j j' \<Longrightarrow> together n j \<Longrightarrow> together n j'"
proof (induction rule: slot_step.induct)
  case (quiet r j)
  have "near (stage CkQuiet) (stage (ck j q))" if "q < n" for q
    using togetherD(1) [OF quiet.prems quiet.hyps(1) that] quiet.hyps(2) by (auto simp: near_def)
  then show ?case using quiet.hyps by (intro together_move [OF quiet.prems, where r = r and c = CkQuiet]) (auto simp: registered_def)
next
  case (start r j)
  have "near (stage CkDrain) (stage (ck j q))" if "q < n" for q using start.hyps(3) that by (auto simp: near_def)
  then show ?case using start.hyps by (intro together_move [OF start.prems, where r = r and c = CkDrain]) (auto simp: registered_def)
next
  case (register r j k)
  have "near (stage CkCounted) (stage (ck j q))" if "q < n" for q
    using togetherD(1) [OF register.prems register.hyps(1) that] register.hyps(2) by simp
  then show ?case using register.hyps by (intro together_move [OF register.prems, where r = r and c = CkCounted]) (auto simp: registered_def)
next
  case (decide r j k)
  then show ?case using together_decide [of n j r "if sum_sent j k > sum_recv j k then CkDrain else CkClose"] by simp
next
  case (close r j)
  have "near (stage CkClosed) (stage (ck j q))" if "q < n" for q
    using togetherD(1) [OF close.prems close.hyps(1) that] close.hyps(2) by simp
  then show ?case using close.hyps by (intro together_move [OF close.prems, where r = r and c = CkClosed]) (auto simp: registered_def)
next
  case (set_phase r j)
  have "near (stage CkPhased) (stage (ck j q))" if "q < n" for q
    using togetherD(1) [OF set_phase.prems set_phase.hyps(1) that] set_phase.hyps(2) by simp
  then show ?case using set_phase.hyps by (intro together_move [OF set_phase.prems, where r = r and c = CkPhased]) (auto simp: registered_def)
next
  case (post r q j)
  have "near (stage CkPosted) (stage (ck j q))" if "q < n" for q using post.hyps(4) that by (auto simp: near_def)
  then show ?case using post.hyps by (intro together_move [OF post.prems, where r = r and c = CkPosted]) (auto simp: registered_def)
next
  case (send_dummies r j)
  have "near (stage CkSent) (stage (ck j q))" if "q < n" for q using send_dummies.hyps(3) that by (auto simp: near_def)
  then show ?case using send_dummies.hyps by (intro together_move [OF send_dummies.prems, where r = r and c = CkSent]) (auto simp: registered_def)
next
  case (shut r j)
  have "near (stage CkShut) (stage (ck j q))" if "q < n" for q using shut.hyps(3) that by (auto simp: near_def)
  then show ?case using shut.hyps by (intro together_move [OF shut.prems, where r = r and c = CkShut]) (auto simp: registered_def)
next
  case (reset r j)
  have "near (stage CkRunning) (stage (ck j q))" if "q < n" for q using reset.hyps(3) that by (auto simp: near_def)
  then show ?case using reset.hyps by (intro together_move [OF reset.prems, where r = r and c = CkRunning]) (auto simp: registered_def)
qed (erule together_same [rotated 2]; simp)+

section \<open>The counters\<close>

text \<open>The sums of a round that a rank still waits for, and what they imply.\<close>

definition round_ok :: "nat \<Rightarrow> slots \<Rightarrow> nat \<Rightarrow> bool" where
  "round_ok n j k \<longleftrightarrow>
     ((\<forall>q<n. \<not> registered j q k) \<longrightarrow> sum_sent j k = 0 \<and> sum_recv j k = 0) \<and>
     ((\<exists>r<n. rnd j r = k \<and> stage (ck j r) = 2) \<longrightarrow>
        sum_sent j k = (\<Sum>q<n. if registered j q k then sent j q else 0) \<and>
        sum_recv j k \<le> (\<Sum>q<n. if registered j q k then recvd j q else 0))"

definition rounds_ok :: "nat \<Rightarrow> slots \<Rightarrow> bool" where
  "rounds_ok n j \<longleftrightarrow> (\<forall>k. round_ok n j k)"

definition drained :: "nat \<Rightarrow> slots \<Rightarrow> bool" where
  "drained n j \<longleftrightarrow> (\<Sum>q<n. sent j q) \<le> (\<Sum>q<n. recvd j q)"

definition waits :: "nat \<Rightarrow> slots \<Rightarrow> nat \<Rightarrow> bool" where
  "waits n j k \<longleftrightarrow> (\<exists>r<n. rnd j r = k \<and> stage (ck j r) = 2)"

lemma round_keep:
  assumes k: "round_ok n j k" and reg: "\<And>q. q < n \<Longrightarrow> registered j' q k = registered j q k"
    and sums: "sum_sent j' k = sum_sent j k" "sum_recv j' k = sum_recv j k"
    and snt: "waits n j' k \<Longrightarrow> sent j' = sent j" and recv: "\<And>q. recvd j q \<le> recvd j' q"
    and w: "waits n j' k \<Longrightarrow> waits n j k \<or> (\<forall>q<n. \<not> registered j q k)"
  shows "round_ok n j' k"
proof -
  have "sum_sent j k = (\<Sum>q<n. if registered j' q k then sent j' q else 0) \<and>
      sum_recv j k \<le> (\<Sum>q<n. if registered j' q k then recvd j' q else 0)" if ws: "waits n j' k"
  proof (cases "\<forall>q<n. \<not> registered j q k")
    case True
    then show ?thesis using k reg by (simp add: round_ok_def)
  next
    case False
    then have old: "sum_sent j k = (\<Sum>q<n. if registered j q k then sent j q else 0)"
      "sum_recv j k \<le> (\<Sum>q<n. if registered j q k then recvd j q else 0)"
      using k w [OF ws] by (auto simp: round_ok_def waits_def)
    have e: "(\<Sum>q<n. if registered j' q k then sent j' q else 0) = (\<Sum>q<n. if registered j q k then sent j q else 0)"
      by (rule sum.cong) (simp_all add: reg snt [OF ws])
    have "(\<Sum>q<n. if registered j q k then recvd j q else 0) \<le> (\<Sum>q<n. if registered j' q k then recvd j' q else 0)"
      by (rule sum_mono) (simp add: reg recv)
    then show ?thesis using old e by simp
  qed
  then show ?thesis using k reg by (simp add: round_ok_def sums waits_def [symmetric])
qed

lemma round_register:
  assumes k: "round_ok n j k" and r: "r < n" "ck j r = CkDrain" "k = rnd j r"
    and j': "j' = j \<lparr> ck := (ck j)(r := CkCounted), sum_sent := (sum_sent j)(k := sum_sent j k + sent j r),
       sum_recv := (sum_recv j)(k := sum_recv j k + recvd j r) \<rparr>"
  shows "round_ok n j' k"
proof -
  have reg: "registered j' q k = (if q = r then True else registered j q k)" for q using r by (auto simp: j' registered_def)
  have nr: "\<not> registered j r k" using r by (simp add: registered_def)
  have e: "(\<Sum>q<n. if registered j' q k then f q else 0) = (\<Sum>q<n. if registered j q k then f q else 0) + f r" for f :: "nat \<Rightarrow> nat"
  proof -
    have "(\<Sum>q<n. if registered j' q k then f q else 0) = (\<Sum>q<n. (if registered j q k then f q else 0) + (if q = r then f r else 0))"
      by (rule sum.cong) (auto simp: reg nr)
    also have "\<dots> = (\<Sum>q<n. if registered j q k then f q else 0) + f r" using r(1) by (simp add: sum.distrib)
    finally show ?thesis .
  qed
  have "\<exists>r<n. rnd j r = k \<and> stage (ck j r) = 2" using r by auto
  then have "sum_sent j k = (\<Sum>q<n. if registered j q k then sent j q else 0)"
    "sum_recv j k \<le> (\<Sum>q<n. if registered j q k then recvd j q else 0)" using k by (auto simp: round_ok_def)
  note sums = this
  have ex: "\<exists>q<n. registered j' q k" using r(1) reg by auto
  have same: "sent j' = sent j" "recvd j' = recvd j" by (simp_all add: j')
  have "sum_sent j' k = sum_sent j k + sent j r" "sum_recv j' k = sum_recv j k + recvd j r" by (simp_all add: j')
  moreover have "(\<Sum>q<n. if registered j' q k then sent j' q else 0) = (\<Sum>q<n. if registered j q k then sent j q else 0) + sent j r"
    "(\<Sum>q<n. if registered j' q k then recvd j' q else 0) = (\<Sum>q<n. if registered j q k then recvd j q else 0) + recvd j r"
    unfolding same e by simp_all
  ultimately show ?thesis unfolding round_ok_def using sums ex by auto
qed

text \<open>Who waits for a round that another rank has added to.\<close>

lemma no_waiter_running: "together n j \<Longrightarrow> r < n \<Longrightarrow> ck j r = CkRunning \<Longrightarrow> \<not> waits n j k"
  using togetherD(1) by (fastforce simp: waits_def near_def)

lemma registered_waits:
  assumes "together n j" and "r < n" and "q < n" and "registered j q (rnd j r + d)"
    and "d = 0 \<and> stage (ck j r) \<noteq> 2 \<or> d = 1"
  shows "waits n j (rnd j r + d)"
  using togetherD(2) [OF assms(1,3,2)] assms(3-5) by (auto simp: registered_def waits_def intro!: exI [of _ q])

lemma rounds_step:
  assumes s: "slot_step n j j'" and t: "together n j" and k: "rounds_ok n j"
  shows "rounds_ok n j'"
  unfolding rounds_ok_def
proof
  fix k
  have ok: "round_ok n j k" using k by (simp add: rounds_ok_def)
  show "round_ok n j' k" using s
  proof cases
    case (send r q)
    have "\<not> waits n j' k" using no_waiter_running [OF t send(2,4)] by (simp add: send(1) waits_def)
    then show ?thesis using ok by (intro round_keep [OF ok]) (simp_all add: send(1) registered_def)
  next
    case (start r)
    have "waits n j' k \<Longrightarrow> waits n j k \<or> (\<forall>q<n. \<not> registered j q k)"
      using registered_waits [OF t start(2), of _ 0] start(1-3) by (auto simp: waits_def split: if_splits)
    then show ?thesis using start(1,3) by (intro round_keep [OF ok]) (auto simp: registered_def)
  next
    case (register r m)
    show ?thesis
    proof (cases "k = m")
      case True
      then show ?thesis using round_register [OF ok register(2,3)] register(1,4) by simp
    next
      case False
      then show ?thesis using register by (intro round_keep [OF ok]) (auto simp: registered_def waits_def split: if_splits)
    qed
  next
    case (decide r m)
    have "waits n j' k \<Longrightarrow> waits n j k \<or> (\<forall>q<n. \<not> registered j q k)"
      using registered_waits [OF t decide(2), of _ 1] decide(1,4) by (auto simp: waits_def split: if_splits)
    then show ?thesis using decide(1,3,4) by (intro round_keep [OF ok]) (auto simp: registered_def)
  qed (intro round_keep [OF ok]; auto simp: registered_def waits_def split: if_splits)+
qed

text \<open>A message that was sent is in flight, in the hands of a receive that has not counted it, or counted.\<close>

fun uncounted :: "app_pc \<Rightarrow> nat" where
  "uncounted (Returned d) = (if d then 0 else 1)"
| "uncounted (Classified d b) = (if d then 0 else 1)"
| "uncounted Counting = 1"
| "uncounted _ = 0"

fun sound :: "app_pc \<Rightarrow> bool" where
  "sound (Classified d b) \<longleftrightarrow> b = d"
| "sound _ \<longleftrightarrow> True"

definition held :: "slots \<Rightarrow> nat \<Rightarrow> nat" where
  "held j r = in_flight j r + uncounted (app j r) + recvd j r"

definition conserved :: "nat \<Rightarrow> slots \<Rightarrow> bool" where
  "conserved n j \<longleftrightarrow> (\<Sum>q<n. sent j q) = (\<Sum>q<n. held j q)"

lemma sum_at:
  fixes g h :: "nat \<Rightarrow> nat"
  assumes "r < n" and "\<And>q. q \<noteq> r \<Longrightarrow> g q = h q"
  shows "(\<Sum>q<n. g q) + h r = (\<Sum>q<n. h q) + g r"
proof -
  have "(\<Sum>q\<in>{..<n} - {r}. g q) = (\<Sum>q\<in>{..<n} - {r}. h q)" by (rule sum.cong) (use assms(2) in auto)
  then show ?thesis using assms(1) by (simp add: sum.remove [of "{..<n}" r])
qed

lemma held_same: "r < n \<Longrightarrow> sent j' = sent j \<Longrightarrow> (\<And>q. q \<noteq> r \<Longrightarrow> held j' q = held j q) \<Longrightarrow> held j' r = held j r \<Longrightarrow>
   conserved n j \<Longrightarrow> conserved n j'"
  using sum_at [of r n "held j'" "held j"] by (simp add: conserved_def)

lemma conserved_step:
  assumes "slot_step n j j'" and "conserved n j" and "\<forall>r<n. sound (app j r)"
  shows "conserved n j'"
  using assms(1)
proof cases
  case (send r q)
  have "(\<Sum>p<n. sent j' p) + sent j r = (\<Sum>p<n. sent j p) + (sent j r + 1)"
    using sum_at [of r n "sent j'" "sent j"] send by simp
  moreover have "(\<Sum>p<n. held j' p) + held j q = (\<Sum>p<n. held j p) + (held j q + 1)"
    using sum_at [of q n "held j'" "held j"] send by (simp add: held_def)
  ultimately show ?thesis using assms(2) by (simp add: conserved_def)
next
  case (store_dummy r d)
  then have "d" using assms(3) by fastforce
  then show ?thesis using store_dummy by (intro held_same [OF store_dummy(2) _ _ _ assms(2)]) (auto simp: held_def)
next
  case (store_real r d)
  then have "\<not> d" using assms(3) by fastforce
  then show ?thesis using store_real by (intro held_same [OF store_real(2) _ _ _ assms(2)]) (auto simp: held_def)
qed (rule held_same [OF _ _ _ _ assms(2)], assumption, auto simp: held_def)+

text \<open>Once every message is counted, none is in flight or held.\<close>

lemma drained_empty:
  assumes "conserved n j" and "drained n j" and "r < n"
  shows "in_flight j r = 0" and "uncounted (app j r) = 0"
proof -
  have "(\<Sum>q<n. in_flight j q + uncounted (app j q)) + (\<Sum>q<n. recvd j q) \<le> (\<Sum>q<n. recvd j q)"
    using assms(1,2) by (simp add: conserved_def drained_def held_def sum.distrib)
  then have "(\<Sum>q<n. in_flight j q + uncounted (app j q)) = 0" by linarith
  then show "in_flight j r = 0" "uncounted (app j r) = 0" using assms(3) by auto
qed

definition quiet_ok :: "nat \<Rightarrow> slots \<Rightarrow> bool" where
  "quiet_ok n j \<longleftrightarrow> (\<forall>r<n. stage (ck j r) \<in> {3, 4, 5} \<longrightarrow> drained n j)"

lemma drained_mono: "drained n j \<Longrightarrow> sent j' = sent j \<Longrightarrow> (\<And>q. recvd j q \<le> recvd j' q) \<Longrightarrow> drained n j'"
  unfolding drained_def using sum_mono [of "{..<n}" "recvd j" "recvd j'"] by fastforce

lemma decide_drained:
  assumes "rounds_ok n j" and "r < n" and "ck j r = CkCounted" and "\<forall>q<n. registered j q (rnd j r)"
    and "sum_sent j (rnd j r) \<le> sum_recv j (rnd j r)"
  shows "drained n j"
proof -
  have "round_ok n j (rnd j r)" "\<exists>q<n. rnd j q = rnd j r \<and> stage (ck j q) = 2" using assms(1-3) by (auto simp: rounds_ok_def)
  then have "sum_sent j (rnd j r) = (\<Sum>q<n. if registered j q (rnd j r) then sent j q else 0)"
    "sum_recv j (rnd j r) \<le> (\<Sum>q<n. if registered j q (rnd j r) then recvd j q else 0)" by (simp_all add: round_ok_def)
  then show ?thesis using assms(4,5) by (simp add: drained_def)
qed

lemma quiet_keep:
  assumes "quiet_ok n j" and "sent j' = sent j" and "\<And>q. recvd j q \<le> recvd j' q"
    and "\<And>p. p < n \<Longrightarrow> stage (ck j' p) \<in> {3, 4, 5} \<Longrightarrow> stage (ck j p) \<in> {3, 4, 5}"
  shows "quiet_ok n j'"
  unfolding quiet_ok_def
proof (intro allI impI)
  fix p assume "p < n" and "stage (ck j' p) \<in> {3, 4, 5}"
  then have "drained n j" using assms(1,4) unfolding quiet_ok_def by blast
  then show "drained n j'" using assms(2,3) by (rule drained_mono)
qed

lemma quiet_step:
  assumes s: "slot_step n j j'" and t: "together n j" and k: "rounds_ok n j" and q: "quiet_ok n j"
  shows "quiet_ok n j'"
  using s
proof cases
  case (send r q)
  have "stage (ck j p) \<notin> {3, 4, 5}" if "p < n" for p
    using togetherD(1) [OF t send(2) that] send(4) by (auto simp: near_def)
  then show ?thesis by (auto simp: send(1) quiet_ok_def)
next
  case (decide r m)
  show ?thesis
  proof (cases "sum_sent j m > sum_recv j m")
    case True
    then show ?thesis using q decide by (auto simp: quiet_ok_def drained_def)
  next
    case False
    then have "drained n j" using decide_drained [OF k decide(2,3)] decide(4,5) by simp
    then show ?thesis by (simp add: decide(1) quiet_ok_def drained_def)
  qed
qed (rule quiet_keep [OF q]; auto split: if_splits)+

section \<open>The slot of a rank\<close>

fun in_call :: "app_pc \<Rightarrow> bool" where
  "in_call InRecv \<longleftrightarrow> True"
| "in_call (Returned d) \<longleftrightarrow> True"
| "in_call (Classified d b) \<longleftrightarrow> True"
| "in_call _ \<longleftrightarrow> False"

fun holds_dummy :: "app_pc \<Rightarrow> bool" where
  "holds_dummy (Returned d) \<longleftrightarrow> d"
| "holds_dummy (Classified d b) \<longleftrightarrow> d"
| "holds_dummy _ \<longleftrightarrow> False"

text \<open>Whether the dummy that the rank posted has been sent.\<close>

definition sent_out :: "slots \<Rightarrow> nat \<Rightarrow> bool" where
  "sent_out j r \<longleftrightarrow> ck j r \<in> {CkPosted, CkSent} \<and> ck j (sender j r) \<in> {CkSent, CkShut}"

text \<open>What holds at a rank, by the state of its checkpoint thread.  No dummy is on its way until it is sent; then a
  receive in the library has exactly one.\<close>

definition no_dummy :: "app_pc \<Rightarrow> nat \<Rightarrow> bool" where
  "no_dummy a ds \<longleftrightarrow> ds = 0 \<and> \<not> holds_dummy a"

fun stage_ok :: "ck_pc \<Rightarrow> nat \<Rightarrow> pending_recv_state \<Rightarrow> bool \<Rightarrow> app_pc \<Rightarrow> nat \<Rightarrow> bool \<Rightarrow> nat \<Rightarrow> bool \<Rightarrow> bool" where
  "stage_ok CkClosed n sl ph a ds bl sd out \<longleftrightarrow> \<not> ph \<and> sl \<noteq> PENDING_RECV_IDLE \<and> no_dummy a ds \<and> bl = (a = InRecv)"
| "stage_ok CkPhased n sl ph a ds bl sd out \<longleftrightarrow> ph \<and> sl \<noteq> PENDING_RECV_IDLE \<and> no_dummy a ds \<and> bl = (a = InRecv)"
| "stage_ok CkShut n sl ph a ds bl sd out \<longleftrightarrow> ph \<and> sl \<noteq> PENDING_RECV_IDLE \<and> a = Outside \<and> ds = 0"
| "stage_ok CkPosted n sl ph a ds bl sd out \<longleftrightarrow> ph \<and> sl \<noteq> PENDING_RECV_IDLE \<and> sd < n \<and>
     (if out then ds = of_bool (a = InRecv) else no_dummy a ds \<and> bl = (a = InRecv))"
| "stage_ok CkSent n sl ph a ds bl sd out \<longleftrightarrow> ph \<and> sl \<noteq> PENDING_RECV_IDLE \<and> sd < n \<and>
     (if out then ds = of_bool (a = InRecv) else no_dummy a ds \<and> bl = (a = InRecv))"
| "stage_ok c n sl ph a ds bl sd out \<longleftrightarrow> \<not> ph \<and> no_dummy a ds"

definition rank_ok :: "nat \<Rightarrow> pending_recv_state \<Rightarrow> bool \<Rightarrow> app_pc \<Rightarrow> ck_pc \<Rightarrow> nat \<Rightarrow> bool \<Rightarrow> nat \<Rightarrow> bool \<Rightarrow> bool" where
  "rank_ok n sl ph a c ds bl sd out \<longleftrightarrow>
     (sl = PENDING_RECV_ACTIVE) = in_call a \<and> sound a \<and> stage_ok c n sl ph a ds bl sd out"

definition pending_ok :: "nat \<Rightarrow> slots \<Rightarrow> nat \<Rightarrow> bool" where
  "pending_ok n j r \<longleftrightarrow> rank_ok n (slot j r) (phase j r) (app j r) (ck j r) (dummies j r) (blocked j r) (sender j r) (sent_out j r)"

lemma pending_ok_other:
  assumes "pending_ok n j q" and "slot j' q = slot j q" "phase j' q = phase j q" "app j' q = app j q" "ck j' q = ck j q"
    "dummies j' q = dummies j q" "blocked j' q = blocked j q" "sender j' q = sender j q" "sent_out j' q = sent_out j q"
  shows "pending_ok n j' q"
  using assms by (simp add: pending_ok_def)

text \<open>The steps on the values of one rank.\<close>

lemma rank_enter: "rank_ok n PENDING_RECV_IDLE ph Outside c ds bl sd out \<Longrightarrow> rank_ok n PENDING_RECV_ACTIVE ph InRecv c ds bl sd out"
  by (cases c; simp add: rank_ok_def no_dummy_def)

lemma rank_real: "rank_ok n sl ph InRecv c ds bl sd out \<Longrightarrow> stage c \<notin> {3, 4, 5} \<Longrightarrow> rank_ok n sl ph (Returned False) c ds bl sd out"
  by (cases c; cases out; simp add: rank_ok_def no_dummy_def)

lemma rank_dummy: "rank_ok n sl ph InRecv c ds bl sd out \<Longrightarrow> 0 < ds \<Longrightarrow> rank_ok n sl ph (Returned True) c (ds - 1) bl sd out"
  by (cases c; cases out; cases bl; simp add: rank_ok_def no_dummy_def)

lemma rank_classify:
  "rank_ok n sl ph (Returned d) c ds bl sd out \<Longrightarrow> d \<or> stage c \<notin> {3, 4, 5} \<Longrightarrow> rank_ok n sl ph (Classified d ph) c ds bl sd out"
  by (cases c; cases d; cases out; simp add: rank_ok_def no_dummy_def)

lemma rank_store_dummy: "rank_ok n sl ph (Classified d True) c ds bl sd out \<Longrightarrow> rank_ok n PENDING_RECV_CLOSED ph Outside c ds bl sd out"
  by (cases c; cases d; cases out; simp add: rank_ok_def no_dummy_def)

lemma rank_store_real:
  "rank_ok n sl ph (Classified d False) c ds bl sd out \<Longrightarrow> d \<or> stage c \<notin> {3, 4, 5} \<Longrightarrow> rank_ok n PENDING_RECV_IDLE ph Counting c ds bl sd out"
  by (cases c; cases d; cases out; simp add: rank_ok_def no_dummy_def)

lemma rank_count: "rank_ok n sl ph Counting c ds bl sd out \<Longrightarrow> rank_ok n sl ph Outside c ds bl sd out"
  by (cases c; cases out; simp add: rank_ok_def no_dummy_def)

lemma rank_before:
  "rank_ok n sl ph a c ds bl sd out \<Longrightarrow> stage c < 3 \<Longrightarrow> c' \<in> {CkQuiet, CkDrain, CkCounted, CkClose} \<Longrightarrow> rank_ok n sl ph a c' ds bl sd out'"
  by (elim insertE emptyE; cases c; simp add: rank_ok_def no_dummy_def)

lemma rank_idle: "rank_ok n sl ph a c ds bl sd out \<Longrightarrow> rank_ok n (close_idle sl) ph a c ds bl sd out"
  by (cases sl; cases c; cases out; cases a; simp add: rank_ok_def no_dummy_def close_idle_def)

lemma rank_close:
  assumes "rank_ok n sl ph a CkClose ds bl sd out" and "uncounted a = 0"
  shows "rank_ok n (close_idle sl) ph a CkClosed ds (sl = PENDING_RECV_ACTIVE) sd False"
  using assms by (cases a; cases sl; simp add: rank_ok_def no_dummy_def close_idle_def split: if_splits)

lemma rank_phase: "rank_ok n sl ph a CkClosed ds bl sd out \<Longrightarrow> rank_ok n sl True a CkPhased ds bl sd out"
  by (cases out; simp add: rank_ok_def no_dummy_def)

lemma rank_post: "rank_ok n sl ph a CkPhased ds bl sd False \<Longrightarrow> sd' < n \<Longrightarrow> rank_ok n sl ph a CkPosted ds bl sd' False"
  by (simp add: rank_ok_def no_dummy_def)

lemma rank_send:
  assumes "rank_ok n sl ph a c ds bl sd out" and "c \<in> {CkPosted, CkSent}" and "c' \<in> {CkPosted, CkSent}"
    and "out' \<longleftrightarrow> out \<or> m" and "m \<Longrightarrow> \<not> out"
  shows "rank_ok n sl ph a c' (ds + (if bl \<and> m then 1 else 0)) bl sd out'"
  using assms by (elim insertE emptyE; cases out; cases m; cases bl; simp add: rank_ok_def no_dummy_def)

lemma rank_shut: "rank_ok n sl ph Outside CkSent ds bl sd out \<Longrightarrow> rank_ok n sl ph Outside CkShut ds bl sd out'"
  by (cases out; simp add: rank_ok_def no_dummy_def)

lemma rank_reset: "rank_ok n sl ph a CkShut ds bl sd out \<Longrightarrow> rank_ok n PENDING_RECV_IDLE False a CkRunning ds bl sd out'"
  by (simp add: rank_ok_def no_dummy_def)

lemma pending_ok_at:
  assumes "\<forall>q<n. pending_ok n j q" and "p < n"
    and "slot j' = (slot j)(r := a)" "phase j' = (phase j)(r := b)" "app j' = (app j)(r := c)" "ck j' = (ck j)(r := d)"
      "dummies j' = (dummies j)(r := e)" "blocked j' = (blocked j)(r := f)" "sender j' = (sender j)(r := g)"
    and "\<And>q. q < n \<Longrightarrow> q \<noteq> r \<Longrightarrow> sent_out j' q = sent_out j q"
    and "rank_ok n a b c d e f g (sent_out j' r)"
  shows "pending_ok n j' p"
  using assms(1,2,10,11) by (cases "p = r") (simp_all add: pending_ok_def assms(3-9))

text \<open>A checkpoint thread that does not enter or leave the states after sending changes no dummy's state.\<close>

lemma sent_out_move:
  assumes "ck j' = (ck j)(r := c)" and "sender j' = sender j" and "c \<in> {CkSent, CkShut} \<longleftrightarrow> ck j r \<in> {CkSent, CkShut}"
    and "c \<in> {CkPosted, CkSent} \<longleftrightarrow> ck j r \<in> {CkPosted, CkSent}"
  shows "sent_out j' q = sent_out j q"
  using assms by (auto simp: sent_out_def)

lemma app_step_ok:
  assumes ok: "\<forall>q<n. pending_ok n j q" and r: "r < n" and p: "p < n"
    and j': "slot j' = (slot j)(r := sl)" "app j' = (app j)(r := a)" "phase j' = phase j" "ck j' = ck j"
      "dummies j' = (dummies j)(r := ds)" "blocked j' = blocked j" "sender j' = sender j"
    and new: "rank_ok n (slot j r) (phase j r) (app j r) (ck j r) (dummies j r) (blocked j r) (sender j r) (sent_out j r) \<Longrightarrow>
      rank_ok n sl (phase j r) a (ck j r) ds (blocked j r) (sender j r) (sent_out j r)"
  shows "pending_ok n j' p"
proof -
  have out: "sent_out j' q = sent_out j q" for q by (simp add: sent_out_def j')
  have "rank_ok n sl (phase j r) a (ck j r) ds (blocked j r) (sender j r) (sent_out j r)"
    using new ok r unfolding pending_ok_def by blast
  then show ?thesis
    by (intro pending_ok_at [OF ok p j'(1) _ j'(2) _ j'(5)]) (simp_all add: j' out)
qed

lemma ck_step_ok:
  assumes ok: "\<forall>q<n. pending_ok n j q" and r: "r < n" and p: "p < n"
    and j': "slot j' = (slot j)(r := sl)" "phase j' = (phase j)(r := ph)" "blocked j' = (blocked j)(r := bl)" "app j' = app j"
      "ck j' = (ck j)(r := c)" "dummies j' = dummies j" "sender j' = sender j"
    and out: "\<And>q. q < n \<Longrightarrow> q \<noteq> r \<Longrightarrow> sent_out j' q = sent_out j q"
    and new: "rank_ok n (slot j r) (phase j r) (app j r) (ck j r) (dummies j r) (blocked j r) (sender j r) (sent_out j r) \<Longrightarrow>
      rank_ok n sl ph (app j r) c (dummies j r) bl (sender j r) (sent_out j' r)"
  shows "pending_ok n j' p"
proof -
  have "rank_ok n sl ph (app j r) c (dummies j r) bl (sender j r) (sent_out j' r)"
    using new ok r unfolding pending_ok_def by blast
  then show ?thesis
    by (intro pending_ok_at [OF ok p j'(1,2) _ j'(5) _ j'(3) _ out]) (simp_all add: j')
qed

lemma app_steps_ok:
  assumes s: "slot_step n j j'" and ok: "\<forall>r<n. pending_ok n j r" and p: "p < n" and ck: "ck j' = ck j"
    and em: "\<And>r. r < n \<Longrightarrow> stage (ck j r) \<in> {3, 4, 5} \<Longrightarrow> in_flight j r = 0 \<and> uncounted (app j r) = 0"
  shows "pending_ok n j' p"
  using s
proof cases
  case (enter r)
  show ?thesis
    by (rule app_step_ok [OF ok enter(2) p, where sl = PENDING_RECV_ACTIVE and a = InRecv and ds = "dummies j r"])
      (use enter rank_enter in auto)
next
  case (real r)
  have "stage (ck j r) \<notin> {3, 4, 5}" using em [of r] real(2,4) by auto
  then show ?thesis using real rank_real
    by (intro app_step_ok [OF ok real(2) p, where sl = "slot j r" and a = "Returned False" and ds = "dummies j r"]) auto
next
  case (dummy r)
  show ?thesis
    by (rule app_step_ok [OF ok dummy(2) p, where sl = "slot j r" and a = "Returned True" and ds = "dummies j r - 1"])
      (use dummy rank_dummy in auto)
next
  case (classify r d)
  have "d \<or> stage (ck j r) \<notin> {3, 4, 5}" using em [of r] classify(2,3) by auto
  then show ?thesis using classify rank_classify
    by (intro app_step_ok [OF ok classify(2) p, where sl = "slot j r" and a = "Classified d (phase j r)" and ds = "dummies j r"]) auto
next
  case (store_dummy r d)
  show ?thesis
    by (rule app_step_ok [OF ok store_dummy(2) p, where sl = PENDING_RECV_CLOSED and a = Outside and ds = "dummies j r"])
      (use store_dummy rank_store_dummy in auto)
next
  case (store_real r d)
  have "d \<or> stage (ck j r) \<notin> {3, 4, 5}" using em [of r] store_real(2,3) by auto
  then show ?thesis using store_real rank_store_real
    by (intro app_step_ok [OF ok store_real(2) p, where sl = PENDING_RECV_IDLE and a = Counting and ds = "dummies j r"]) auto
next
  case (count_it r)
  show ?thesis
    by (rule app_step_ok [OF ok count_it(2) p, where sl = "slot j r" and a = Outside and ds = "dummies j r"])
      (use count_it rank_count in auto)
next
  case (send r q)
  then show ?thesis using ok p by (simp add: pending_ok_def sent_out_def)
next
  case (take r)
  then show ?thesis using ok p by (simp add: pending_ok_def sent_out_def)
qed (use ck in \<open>simp_all add: fun_upd_idem_iff split: if_splits\<close>)

lemma send_dummies_ok:
  assumes ok: "\<forall>r<n. pending_ok n j r" and p: "p < n" and r: "r < n" "ck j r = CkPosted" "\<forall>q<n. ck j q \<in> {CkPosted, CkSent}"
    and j': "j' = j \<lparr> ck := (ck j)(r := CkSent), dummies := send_posted n r j \<rparr>"
  shows "pending_ok n j' p"
proof -
  have okp: "pending_ok n j p" and cp: "ck j p \<in> {CkPosted, CkSent}" using ok p r(3) by blast+
  then have "sender j p < n" by (auto simp: pending_ok_def rank_ok_def)
  then have sp: "ck j (sender j p) \<in> {CkPosted, CkSent}" using r(3) by blast
  have out: "sent_out j' p \<longleftrightarrow> sent_out j p \<or> sender j p = r" "sender j p = r \<Longrightarrow> \<not> sent_out j p"
    using cp sp r(2) by (auto simp: sent_out_def j')
  have "ck j' p \<in> {CkPosted, CkSent}" using cp by (simp add: j')
  from rank_send [OF okp [unfolded pending_ok_def] cp this out] show ?thesis
    using p by (simp add: pending_ok_def j' send_posted_def)
qed

lemma ck_steps_ok:
  assumes s: "slot_step n j j'" and ok: "\<forall>r<n. pending_ok n j r" and p: "p < n" and ck: "ck j' \<noteq> ck j"
    and em: "\<And>r. r < n \<Longrightarrow> stage (ck j r) \<in> {3, 4, 5} \<Longrightarrow> in_flight j r = 0 \<and> uncounted (app j r) = 0"
  shows "pending_ok n j' p"
  using s
proof cases
  case (quiet r)
  show ?thesis
    by (rule ck_step_ok [OF ok quiet(2) p, where sl = "slot j r" and ph = "phase j r" and bl = "blocked j r" and c = CkQuiet])
      (use quiet(1,3) rank_before sent_out_move [of j' j r CkQuiet] in auto)
next
  case (start r)
  show ?thesis
    by (rule ck_step_ok [OF ok start(2) p, where sl = "close_idle (slot j r)" and ph = "phase j r" and bl = "blocked j r" and c = CkDrain])
      (use start(1,3) rank_idle [OF rank_before] sent_out_move [of j' j r CkDrain] in auto)
next
  case (register r k)
  show ?thesis
    by (rule ck_step_ok [OF ok register(2) p, where sl = "slot j r" and ph = "phase j r" and bl = "blocked j r" and c = CkCounted])
      (use register(1,3) rank_before sent_out_move [of j' j r CkCounted] in auto)
next
  case (decide r k)
  define c where "c = (if sum_sent j k > sum_recv j k then CkDrain else CkClose)"
  have c: "c \<in> {CkDrain, CkClose}" by (simp add: c_def)
  show ?thesis
    by (rule ck_step_ok [OF ok decide(2) p, where sl = "slot j r" and ph = "phase j r" and bl = "blocked j r" and c = c])
      (use decide(1,3) c rank_before sent_out_move [of j' j r c] in \<open>auto simp: c_def [symmetric]\<close>)
next
  case (close r)
  have u: "uncounted (app j r) = 0" using em [OF close(2)] close(3) by simp
  show ?thesis
    by (rule ck_step_ok [OF ok close(2) p, where sl = "close_idle (slot j r)" and ph = "phase j r" and
          bl = "slot j r = PENDING_RECV_ACTIVE" and c = CkClosed])
      (use close(1,3) u rank_close sent_out_move [of j' j r CkClosed] in \<open>auto simp: sent_out_def\<close>)
next
  case (set_phase r)
  show ?thesis
    by (rule ck_step_ok [OF ok set_phase(2) p, where sl = "slot j r" and ph = True and bl = "blocked j r" and c = CkPhased])
      (use set_phase(1,3) rank_phase sent_out_move [of j' j r CkPhased] in auto)
next
  case (post r q)
  have out: "\<not> sent_out j' x \<and> \<not> sent_out j x" if "x < n" for x
  proof -
    have "sender j x < n \<or> ck j x \<notin> {CkPosted, CkSent}" using ok that by (auto simp: pending_ok_def rank_ok_def)
    moreover have "ck j q \<notin> {CkSent, CkShut}" using post(3,5) by auto
    ultimately show ?thesis using post(1,4,5) by (auto simp: sent_out_def)
  qed
  have "rank_ok n (slot j r) (phase j r) (app j r) CkPhased (dummies j r) (blocked j r) (sender j r) False"
    using ok post(2,4) out [of r] by (auto simp: pending_ok_def)
  from rank_post [OF this post(3)] show ?thesis using out post
    by (intro pending_ok_at [OF ok p, of j' r]) auto
next
  case (send_dummies r)
  show ?thesis by (rule send_dummies_ok [OF ok p send_dummies(2-4,1)])
next
  case (shut r)
  show ?thesis
    by (rule ck_step_ok [OF ok shut(2) p, where sl = "slot j r" and ph = "phase j r" and bl = "blocked j r" and c = CkShut])
      (use shut(1,3,5) rank_shut in \<open>auto simp: sent_out_def\<close>)
next
  case (reset r)
  have "\<not> sent_out j' x \<and> \<not> sent_out j x" if "x < n" for x using reset that by (auto simp: sent_out_def)
  then show ?thesis using reset(1-3) rank_reset
    by (intro ck_step_ok [OF ok reset(2) p, where sl = PENDING_RECV_IDLE and ph = False and bl = "blocked j r" and c = CkRunning]) auto
qed (use ck in simp_all)

section \<open>The invariant\<close>

definition slots_inv :: "nat \<Rightarrow> slots \<Rightarrow> bool" where
  "slots_inv n j \<longleftrightarrow> together n j \<and> rounds_ok n j \<and> quiet_ok n j \<and> conserved n j \<and> (\<forall>r<n. pending_ok n j r)"

lemma start_slots_inv: "slot_start j \<Longrightarrow> slots_inv n j"
  by (simp add: slot_start_def slots_inv_def together_def near_def rounds_ok_def round_ok_def registered_def quiet_ok_def conserved_def
      held_def pending_ok_def rank_ok_def no_dummy_def)

lemma step_slots_inv:
  assumes inv: "slots_inv n j" and s: "slot_step n j j'"
  shows "slots_inv n j'"
proof -
  have t: "together n j" and k: "rounds_ok n j" and q: "quiet_ok n j" and c: "conserved n j" and ok: "\<forall>r<n. pending_ok n j r"
    using inv by (simp_all add: slots_inv_def)
  have em: "in_flight j r = 0 \<and> uncounted (app j r) = 0" if "r < n" "stage (ck j r) \<in> {3, 4, 5}" for r
    using drained_empty [OF c _ that(1)] q that unfolding quiet_ok_def by blast
  have "\<forall>r<n. sound (app j r)" using ok by (simp add: pending_ok_def rank_ok_def)
  then have "conserved n j'" by (rule conserved_step [OF s c])
  moreover have "pending_ok n j' p" if "p < n" for p
    using app_steps_ok [OF s ok that _ em] ck_steps_ok [OF s ok that _ em] by blast
  ultimately show ?thesis
    using together_step [OF s t] rounds_step [OF s t k] quiet_step [OF s t k q] by (simp add: slots_inv_def)
qed

interpretation recv_slots: state_machine slot_start "slot_step n" "slots_inv n" for n
  by unfold_locales (rule start_slots_inv, assumption, rule step_slots_inv)

lemma slots_inv_rank: "slots_inv n j \<Longrightarrow> r < n \<Longrightarrow>
    rank_ok n (slot j r) (phase j r) (app j r) (ck j r) (dummies j r) (blocked j r) (sender j r) (sent_out j r)"
  by (simp add: slots_inv_def pending_ok_def)

section \<open>The steps are those of the code\<close>

definition slot_view :: "'l proc \<Rightarrow> pending_recv_state \<times> bool \<times> int" where
  "slot_view s = (pr_state (g_pending_recv s), p2p_dummy_phase s, local_recv s)"

lemma recv_enter_slot:
  assumes "recv_enter env buf count datatype source tag comm s = Ok (e, t)"
  shows "e = Entered \<Longrightarrow> pr_state (g_pending_recv s) = PENDING_RECV_IDLE \<and> slot_view t = (PENDING_RECV_ACTIVE, p2p_dummy_phase s, local_recv s)"
    and "e = Parked \<Longrightarrow> pr_state (g_pending_recv s) \<noteq> PENDING_RECV_IDLE \<and> slot_view t = slot_view s"
  using assms
  by (auto simp: recv_enter_def andthen_Ok wait_p2p_drain_def LOWER_HALF_DISABLE_CKPT_def LOWER_HALF_ENABLE_CKPT_def slot_view_def
      split: option.splits if_splits)


section \<open>Properties\<close>


text \<open>A job of one rank, whose receive is blocked when a checkpoint begins.\<close>

definition one_rank :: "pending_recv_state \<Rightarrow> bool \<Rightarrow> app_pc \<Rightarrow> ck_pc \<Rightarrow> nat \<Rightarrow> bool \<Rightarrow> nat \<Rightarrow> slots" where
  "one_rank sl ph a c ds bl k = \<lparr> slot = (\<lambda>_. PENDING_RECV_IDLE)(0 := sl), phase = (\<lambda>_. False)(0 := ph), app = (\<lambda>_. Outside)(0 := a),
     ck = (\<lambda>_. CkRunning)(0 := c), in_flight = (\<lambda>_. 0), dummies = (\<lambda>_. 0)(0 := ds), sent = (\<lambda>_. 0), recvd = (\<lambda>_. 0),
     blocked = (\<lambda>_. False)(0 := bl), sender = (\<lambda>_. 0)(0 := 0), rnd = (\<lambda>_. 0)(0 := k), sum_sent = (\<lambda>_. 0)(0 := 0),
     sum_recv = (\<lambda>_. 0)(0 := 0) \<rparr>"

lemma blocked_run:
  "(slot_step 1)\<^sup>*\<^sup>* (one_rank PENDING_RECV_IDLE False Outside CkRunning 0 False 0)
     (one_rank PENDING_RECV_ACTIVE True InRecv CkSent 1 True 1)"
proof -
  let ?A = PENDING_RECV_ACTIVE
  have "slot_step 1 (one_rank PENDING_RECV_IDLE False Outside CkRunning 0 False 0) (one_rank ?A False InRecv CkRunning 0 False 0)"
    using slot_step.enter [of 0 1 "one_rank PENDING_RECV_IDLE False Outside CkRunning 0 False 0"] by (simp add: one_rank_def)
  moreover have "slot_step 1 (one_rank ?A False InRecv CkRunning 0 False 0) (one_rank ?A False InRecv CkQuiet 0 False 0)"
    using slot_step.quiet [of 0 1 "one_rank ?A False InRecv CkRunning 0 False 0"] by (simp add: one_rank_def)
  moreover have "slot_step 1 (one_rank ?A False InRecv CkQuiet 0 False 0) (one_rank ?A False InRecv CkDrain 0 False 0)"
    using slot_step.start [of 0 1 "one_rank ?A False InRecv CkQuiet 0 False 0"] by (simp add: one_rank_def close_idle_def)
  moreover have "slot_step 1 (one_rank ?A False InRecv CkDrain 0 False 0) (one_rank ?A False InRecv CkCounted 0 False 0)"
    using slot_step.register [of 0 1 "one_rank ?A False InRecv CkDrain 0 False 0" 0] by (simp add: one_rank_def)
  moreover have "slot_step 1 (one_rank ?A False InRecv CkCounted 0 False 0) (one_rank ?A False InRecv CkClose 0 False 1)"
    using slot_step.decide [of 0 1 "one_rank ?A False InRecv CkCounted 0 False 0" 0] by (simp add: one_rank_def registered_def)
  moreover have "slot_step 1 (one_rank ?A False InRecv CkClose 0 False 1) (one_rank ?A False InRecv CkClosed 0 True 1)"
    using slot_step.close [of 0 1 "one_rank ?A False InRecv CkClose 0 False 1"] by (simp add: one_rank_def close_idle_def)
  moreover have "slot_step 1 (one_rank ?A False InRecv CkClosed 0 True 1) (one_rank ?A True InRecv CkPhased 0 True 1)"
    using slot_step.set_phase [of 0 1 "one_rank ?A False InRecv CkClosed 0 True 1"] by (simp add: one_rank_def)
  moreover have "slot_step 1 (one_rank ?A True InRecv CkPhased 0 True 1) (one_rank ?A True InRecv CkPosted 0 True 1)"
    using slot_step.post [of 0 1 0 "one_rank ?A True InRecv CkPhased 0 True 1"] by (simp add: one_rank_def)
  moreover have "slot_step 1 (one_rank ?A True InRecv CkPosted 0 True 1) (one_rank ?A True InRecv CkSent 1 True 1)"
  proof -
    have "send_posted 1 0 (one_rank ?A True InRecv CkPosted 0 True 1) = (\<lambda>_. 0)(0 := 1)"
      by (auto simp: send_posted_def one_rank_def)
    then show ?thesis using slot_step.send_dummies [of 0 1 "one_rank ?A True InRecv CkPosted 0 True 1"] by (simp add: one_rank_def)
  qed
  ultimately show ?thesis by (meson rtranclp.rtrancl_refl converse_rtranclp_into_rtranclp)
qed


end
