(* ===== verification/Lower_Half_Gate.thy ===== *)
theory Lower_Half_Gate
  imports Mana_Prelude
begin

text \<open>
  The gate of the lower half (\<^verbatim>\<open>lower_half_ckpt.h\<close>, \<^verbatim>\<open>lower_half_ckpt.cpp\<close>).  A thread brackets its use of
  the lower half with \<^verbatim>\<open>LOWER_HALF_DISABLE_CKPT\<close> and \<^verbatim>\<open>LOWER_HALF_ENABLE_CKPT\<close>; the checkpoint thread
  closes the lower half and waits until no thread is inside.

  The entry of a thread stores its depth and then loads \<^verbatim>\<open>lower_half_closed\<close>, with no memory barrier between
  the two.  So the model has a store buffer for each thread (total store order): a store goes to the buffer,
  and an own step of the memory takes it out, in order; a thread reads its own stores from the buffer.
  \<^verbatim>\<open>membarrier(MEMBARRIER_CMD_GLOBAL)\<close> empties the buffers of all threads.  Threads are natural numbers, and
  \<open>c\<close> is the checkpoint thread.  The list of registered threads changes only under \<^verbatim>\<open>threads_lock\<close>, which the
  checkpoint thread holds while it walks the list; it is a list of threads here.

  The results: when \<^verbatim>\<open>wait_for_threads_to_leave_lower_half\<close> returns, no other thread is inside, and none
  enters until \<^verbatim>\<open>allow_threads_to_enter_lower_half\<close>; and the wait can always be completed.
\<close>

section \<open>Threads and memory\<close>

datatype gate_store =
    StDepth int
  | StBlocking bool
  | StClosed bool
  | StClosing "nat option"

datatype thread_pc =
    Outside
  | Entering      \<comment> \<open>\<^verbatim>\<open>depth\<close> stored, \<^verbatim>\<open>lower_half_closed\<close> not loaded yet\<close>
  | Checking      \<comment> \<open>at the outer \<^verbatim>\<open>while\<close> of \<^verbatim>\<open>wait_until_lower_half_open\<close>\<close>
  | Stepped_out   \<comment> \<open>at the inner \<^verbatim>\<open>while\<close>\<close>
  | Inside
  | Blocked       \<comment> \<open>in a lower-half call that can block\<close>

record lh_thread =
  lt_depth :: int
  in_blocking_call :: bool
  registered :: bool
  store_buffer :: "gate_store list"
  lt_pc :: thread_pc

datatype closing_pc =
    Open
  | Closing bool               \<comment> \<open>flags stored, before the barrier; \<^verbatim>\<open>skip_blocked\<close>\<close>
  | Locking bool               \<comment> \<open>after the barrier\<close>
  | Walking bool "nat list"    \<comment> \<open>the threads still to wait for\<close>
  | Closed bool

record gate =
  threads :: "nat list"
  thr :: "nat \<Rightarrow> lh_thread"
  lower_half_closed :: bool
  closing_thread :: "nat option"
  closing :: closing_pc
  skipped :: "nat set"         \<comment> \<open>the threads the last walk left in a blocking call\<close>

definition own_depth :: "lh_thread \<Rightarrow> int" where
  "own_depth th = foldl (\<lambda>d st. case st of StDepth n \<Rightarrow> n | _ \<Rightarrow> d) (lt_depth th) (store_buffer th)"

definition own_closed :: "gate \<Rightarrow> nat \<Rightarrow> bool" where
  "own_closed s t =
     foldl (\<lambda>b st. case st of StClosed n \<Rightarrow> n | _ \<Rightarrow> b) (lower_half_closed s) (store_buffer (thr s t))"

definition own_closing :: "gate \<Rightarrow> nat \<Rightarrow> nat option" where
  "own_closing s t =
     foldl (\<lambda>b st. case st of StClosing n \<Rightarrow> n | _ \<Rightarrow> b) (closing_thread s) (store_buffer (thr s t))"

definition store_pc :: "nat \<Rightarrow> gate_store list \<Rightarrow> thread_pc \<Rightarrow> gate \<Rightarrow> gate" where
  "store_pc t sts p s =
     s \<lparr> thr := (thr s)(t := (thr s t) \<lparr> store_buffer := store_buffer (thr s t) @ sts, lt_pc := p \<rparr>) \<rparr>"

fun apply_store :: "nat \<Rightarrow> gate_store \<Rightarrow> gate \<Rightarrow> gate" where
  "apply_store t (StDepth d) s = s \<lparr> thr := (thr s)(t := (thr s t) \<lparr> lt_depth := d \<rparr>) \<rparr>"
| "apply_store t (StBlocking b) s = s \<lparr> thr := (thr s)(t := (thr s t) \<lparr> in_blocking_call := b \<rparr>) \<rparr>"
| "apply_store t (StClosed b) s = s \<lparr> lower_half_closed := b \<rparr>"
| "apply_store t (StClosing x) s = s \<lparr> closing_thread := x \<rparr>"

definition flush_one :: "nat \<Rightarrow> gate \<Rightarrow> gate" where
  "flush_one t s =
     (case store_buffer (thr s t) of
        [] \<Rightarrow> s
      | st # sts \<Rightarrow> apply_store t st (s \<lparr> thr := (thr s)(t := (thr s t) \<lparr> store_buffer := sts \<rparr>) \<rparr>))"

section \<open>Operations\<close>

definition register_lower_half_thread :: "nat \<Rightarrow> gate \<Rightarrow> gate" where
  "register_lower_half_thread t s =
     s \<lparr> threads := t # threads s, thr := (thr s)(t := (thr s t) \<lparr> registered := True \<rparr>) \<rparr>"

definition unregister_lower_half_thread :: "nat \<Rightarrow> gate \<Rightarrow> gate" where
  "unregister_lower_half_thread t s =
     (if \<not> registered (thr s t) then s
      else s \<lparr> threads := remove1 t (threads s), thr := (thr s)(t := (thr s t) \<lparr> registered := False \<rparr>) \<rparr>)"

text \<open>\<^verbatim>\<open>lower_half_disable_ckpt\<close> of a registered thread: the store, and then the load with the early return of
  \<^verbatim>\<open>wait_until_lower_half_open\<close>.\<close>

definition disable_store :: "nat \<Rightarrow> gate \<Rightarrow> gate" where
  "disable_store t s = store_pc t [StDepth (own_depth (thr s t) + 1)] Entering s"

definition disable_load :: "nat \<Rightarrow> gate \<Rightarrow> gate" where
  "disable_load t s =
     store_pc t []
       (if own_closed s t \<and> \<not> (own_depth (thr s t) > 1 \<or> own_closing s t = Some t) then Checking else Inside) s"

text \<open>The loops of \<^verbatim>\<open>wait_until_lower_half_open\<close>.\<close>

definition check_again :: "nat \<Rightarrow> gate \<Rightarrow> gate" where
  "check_again t s = (if own_closed s t then store_pc t [StDepth 0] Stepped_out s else store_pc t [] Inside s)"

definition step_in :: "nat \<Rightarrow> gate \<Rightarrow> gate" where
  "step_in t s = (if own_closed s t then s else store_pc t [StDepth 1] Checking s)"

definition lower_half_enable_ckpt :: "nat \<Rightarrow> gate \<Rightarrow> gate" where
  "lower_half_enable_ckpt t s =
     (let d = own_depth (thr s t) - 1 in store_pc t [StDepth d] (if d = 0 then Outside else Inside) s)"

definition lower_half_blocking_call_begin :: "nat \<Rightarrow> gate \<Rightarrow> gate" where
  "lower_half_blocking_call_begin t s = store_pc t [StBlocking True] Blocked s"

definition lower_half_blocking_call_end :: "nat \<Rightarrow> gate \<Rightarrow> gate" where
  "lower_half_blocking_call_end t s = store_pc t [StBlocking False] Inside s"

text \<open>\<^verbatim>\<open>close_lower_half_and_wait\<close> and \<^verbatim>\<open>allow_threads_to_enter_lower_half\<close>.\<close>

definition flush_all :: "nat list \<Rightarrow> gate \<Rightarrow> gate" where
  "flush_all ts s = fold (\<lambda>t s. fold (\<lambda>_. flush_one t) (store_buffer (thr s t)) s) ts s"

definition close_lower_half :: "nat \<Rightarrow> bool \<Rightarrow> gate \<Rightarrow> gate" where
  "close_lower_half c skip_blocked s =
     (store_pc c [StClosing (Some c), StClosed True] (lt_pc (thr s c)) s) \<lparr> closing := Closing skip_blocked \<rparr>"

definition may_pass :: "nat \<Rightarrow> bool \<Rightarrow> nat \<Rightarrow> gate \<Rightarrow> bool" where
  "may_pass c skip_blocked t s \<longleftrightarrow>
     t = c \<or> \<not> (lt_depth (thr s t) > 0 \<and> \<not> (skip_blocked \<and> in_blocking_call (thr s t)))"

definition pass_thread :: "nat \<Rightarrow> bool \<Rightarrow> nat \<Rightarrow> nat list \<Rightarrow> gate \<Rightarrow> gate" where
  "pass_thread c skip_blocked t ts s =
     s \<lparr> closing := Walking skip_blocked ts,
         skipped := (if t \<noteq> c \<and> lt_depth (thr s t) > 0 then insert t (skipped s) else skipped s) \<rparr>"

definition allow_threads_to_enter_lower_half :: "nat \<Rightarrow> gate \<Rightarrow> gate" where
  "allow_threads_to_enter_lower_half c s =
     (store_pc c [StClosing None, StClosed False] (lt_pc (thr s c)) s) \<lparr> closing := Open \<rparr>"

text \<open>The steps of the threads, of the memory and of the checkpoint thread.\<close>

definition walking :: "gate \<Rightarrow> bool" where
  "walking s \<longleftrightarrow> (case closing s of Walking _ _ \<Rightarrow> True | _ \<Rightarrow> False)"

definition may_run :: "nat \<Rightarrow> nat \<Rightarrow> gate \<Rightarrow> bool" where
  "may_run c t s \<longleftrightarrow> t \<noteq> c \<or> (case closing s of Open \<Rightarrow> True | Closed _ \<Rightarrow> True | _ \<Rightarrow> False)"

inductive thread_step :: "nat \<Rightarrow> gate \<Rightarrow> gate \<Rightarrow> bool" for t where
  register: "lt_pc (thr s t) = Outside \<Longrightarrow> \<not> registered (thr s t) \<Longrightarrow> \<not> walking s \<Longrightarrow>
    thread_step t s (register_lower_half_thread t s)"
| unregister: "lt_pc (thr s t) = Outside \<Longrightarrow> registered (thr s t) \<Longrightarrow> \<not> walking s \<Longrightarrow>
    thread_step t s (unregister_lower_half_thread t s)"
| enter: "lt_pc (thr s t) = Outside \<or> lt_pc (thr s t) = Inside \<Longrightarrow> registered (thr s t) \<Longrightarrow>
    thread_step t s (disable_store t s)"
| entered: "lt_pc (thr s t) = Entering \<Longrightarrow> thread_step t s (disable_load t s)"
| check: "lt_pc (thr s t) = Checking \<Longrightarrow> thread_step t s (check_again t s)"
| spin: "lt_pc (thr s t) = Stepped_out \<Longrightarrow> thread_step t s (step_in t s)"
| leave: "lt_pc (thr s t) = Inside \<Longrightarrow> thread_step t s (lower_half_enable_ckpt t s)"
| block: "lt_pc (thr s t) = Inside \<Longrightarrow> thread_step t s (lower_half_blocking_call_begin t s)"
| unblock: "lt_pc (thr s t) = Blocked \<Longrightarrow> thread_step t s (lower_half_blocking_call_end t s)"

inductive gate_step :: "nat \<Rightarrow> gate \<Rightarrow> gate \<Rightarrow> bool" for c where
  run: "may_run c t s \<Longrightarrow> thread_step t s s' \<Longrightarrow> gate_step c s s'"
| memory: "gate_step c s (flush_one t s)"
| close: "closing s = Open \<or> closing s = Closed b \<Longrightarrow> gate_step c s (close_lower_half c skip_blocked s)"
| barrier: "closing s = Closing b \<Longrightarrow> \<forall>t. t \<notin> set ts \<longrightarrow> store_buffer (thr s t) = [] \<Longrightarrow>
    gate_step c s ((flush_all ts s) \<lparr> closing := Locking b \<rparr>)"
| lock: "closing s = Locking b \<Longrightarrow> gate_step c s (s \<lparr> closing := Walking b (threads s), skipped := {} \<rparr>)"
| pass: "closing s = Walking b (t # ts) \<Longrightarrow> may_pass c b t s \<Longrightarrow> gate_step c s (pass_thread c b t ts s)"
| walked: "closing s = Walking b [] \<Longrightarrow> gate_step c s (s \<lparr> closing := Closed b \<rparr>)"
| allow: "closing s = Closed b \<Longrightarrow> gate_step c s (allow_threads_to_enter_lower_half c s)"

section \<open>The invariant\<close>

text \<open>A thread that uses the lower half; one that stores a nested entry is still inside.\<close>

definition in_lower_half :: "lh_thread \<Rightarrow> bool" where
  "in_lower_half th \<longleftrightarrow> lt_pc th = Inside \<or> lt_pc th = Blocked \<or> (lt_pc th = Entering \<and> own_depth th > 1)"

definition thread_ok :: "lh_thread \<Rightarrow> bool" where
  "thread_ok th \<longleftrightarrow>
     (case lt_pc th of Outside \<Rightarrow> own_depth th = 0 | Stepped_out \<Rightarrow> own_depth th = 0 | Checking \<Rightarrow> own_depth th = 1
      | _ \<Rightarrow> own_depth th \<ge> 1) \<and> (lt_pc th \<noteq> Outside \<longrightarrow> registered th)"

definition visible :: "lh_thread \<Rightarrow> bool" where
  "visible th \<longleftrightarrow> (in_lower_half th \<longrightarrow> lt_depth th \<ge> 1 \<and> (\<forall>d. StDepth d \<in> set (store_buffer th) \<longrightarrow> d \<ge> 1))"

fun is_flag :: "gate_store \<Rightarrow> bool" where
  "is_flag (StClosed _) = True"
| "is_flag (StClosing _) = True"
| "is_flag _ = False"

definition no_flags :: "lh_thread \<Rightarrow> bool" where
  "no_flags th \<longleftrightarrow> (\<forall>st \<in> set (store_buffer th). \<not> is_flag st)"

text \<open>After the barrier of a closing: the threads that may still be inside.\<close>

fun barred :: "closing_pc \<Rightarrow> bool" where
  "barred Open = False"
| "barred (Closing _) = False"
| "barred _ = True"

fun may_be_inside :: "closing_pc \<Rightarrow> nat list \<Rightarrow> nat set \<Rightarrow> nat set" where
  "may_be_inside (Walking _ ts) regs sk = set ts \<union> sk"
| "may_be_inside (Closed _) regs sk = sk"
| "may_be_inside _ regs sk = set regs"

fun skips :: "closing_pc \<Rightarrow> bool" where
  "skips (Walking b _) = b"
| "skips (Closed b) = b"
| "skips _ = True"

definition barred_ok :: "nat \<Rightarrow> gate \<Rightarrow> bool" where
  "barred_ok c s \<longleftrightarrow>
     lower_half_closed s \<and> closing_thread s = Some c \<and> no_flags (thr s c) \<and>
     (\<forall>t. t \<noteq> c \<longrightarrow> visible (thr s t) \<and>
        (in_lower_half (thr s t) \<longrightarrow> t \<in> may_be_inside (closing s) (threads s) (skipped s)))"

definition gate_inv :: "nat \<Rightarrow> gate \<Rightarrow> bool" where
  "gate_inv c s \<longleftrightarrow>
     (\<forall>t. thread_ok (thr s t)) \<and> distinct (threads s) \<and> (\<forall>t. registered (thr s t) \<longleftrightarrow> t \<in> set (threads s)) \<and>
     (\<forall>t. t \<noteq> c \<longrightarrow> no_flags (thr s t)) \<and>
     (\<forall>b. closing s = Closing b \<longrightarrow> own_closed s c \<and> own_closing s c = Some c) \<and>
     (barred (closing s) \<longrightarrow> barred_ok c s) \<and> (\<not> skips (closing s) \<longrightarrow> skipped s = {})"

lemma own_depth_store [simp]:
  "own_depth (th \<lparr> store_buffer := store_buffer th @ sts \<rparr>) =
     foldl (\<lambda>d st. case st of StDepth n \<Rightarrow> n | _ \<Rightarrow> d) (own_depth th) sts"
  "own_depth (th \<lparr> registered := r \<rparr>) = own_depth th" "own_depth (th \<lparr> lt_pc := p \<rparr>) = own_depth th"
  by (simp_all add: own_depth_def)

lemma own_flags_none:
  "no_flags (thr s t) \<Longrightarrow> own_closed s t = lower_half_closed s \<and> own_closing s t = closing_thread s"
proof -
  have "foldl (\<lambda>b st. case st of StClosed n \<Rightarrow> n | _ \<Rightarrow> b) x b = x \<and>
      foldl (\<lambda>b st. case st of StClosing n \<Rightarrow> n | _ \<Rightarrow> b) y b = y" if "\<forall>st \<in> set b. \<not> is_flag st" for x y b
    using that by (induction b) (auto split: gate_store.splits)
  then show "no_flags (thr s t) \<Longrightarrow> own_closed s t = lower_half_closed s \<and> own_closing s t = closing_thread s"
    by (simp add: no_flags_def own_closed_def own_closing_def)
qed

text \<open>A step of a thread changes that thread, and its registration while the list is not walked.\<close>

lemma local_step_inv:
  assumes inv: "gate_inv c s" and s': "s' = s \<lparr> thr := (thr s)(t := th) \<rparr>"
    and "thread_ok th" and "registered th = registered (thr s t)"
    and buf: "store_buffer th = store_buffer (thr s t) @ sts" and nf: "\<forall>st \<in> set sts. \<not> is_flag st"
    and vis: "t \<noteq> c \<Longrightarrow> barred (closing s) \<Longrightarrow> visible (thr s t) \<Longrightarrow> visible th"
    and ins: "t \<noteq> c \<Longrightarrow> barred (closing s) \<Longrightarrow> in_lower_half th \<Longrightarrow> in_lower_half (thr s t)"
  shows "gate_inv c s'"
proof -
  have nfs: "no_flags th \<longleftrightarrow> no_flags (thr s t)" using buf nf by (auto simp: no_flags_def)
  have fl: "foldl (\<lambda>b st. case st of StClosed n \<Rightarrow> n | _ \<Rightarrow> b) x sts = x"
    "foldl (\<lambda>b st. case st of StClosing n \<Rightarrow> n | _ \<Rightarrow> b) y sts = y" for x y
    using nf by (induction sts) (auto split: gate_store.splits)
  have own: "own_closed s' u = own_closed s u \<and> own_closing s' u = own_closing s u" for u
    by (simp add: s' own_closed_def own_closing_def buf fl)
  have b: "barred_ok c s'" if "barred (closing s)"
  proof -
    have b: "barred_ok c s" using inv that by (simp add: gate_inv_def)
    show ?thesis unfolding barred_ok_def
    proof (intro conjI allI impI)
      show "lower_half_closed s'" "closing_thread s' = Some c" using b by (simp_all add: barred_ok_def s')
      show "no_flags (thr s' c)" using b nfs by (auto simp: barred_ok_def s')
      fix u assume u: "u \<noteq> c"
      have u': "visible (thr s u)" "in_lower_half (thr s u) \<Longrightarrow> u \<in> may_be_inside (closing s) (threads s) (skipped s)"
        using b u by (simp_all add: barred_ok_def)
      show "visible (thr s' u)" using vis that u u'(1) by (cases "u = t") (simp_all add: s')
      show "u \<in> may_be_inside (closing s') (threads s') (skipped s')" if "in_lower_half (thr s' u)"
        using that ins \<open>barred (closing s)\<close> u u'(2) by (cases "u = t") (simp_all add: s')
    qed
  qed
  show ?thesis unfolding gate_inv_def
    using inv b own assms(3,4) nfs by (auto simp: gate_inv_def s')
qed

lemma in_closed_lower_half:
  assumes "gate_inv c s" and "t \<noteq> c" and "barred (closing s)"
  shows "own_closed s t" and "own_closing s t = Some c"
  using assms own_flags_none [of s t] by (auto simp: gate_inv_def barred_ok_def)

lemma registration_inv:
  assumes inv: "gate_inv c s" and out: "lt_pc (thr s t) = Outside" and "\<not> walking s"
    and s': "s' = s \<lparr> threads := ts, thr := (thr s)(t := (thr s t) \<lparr> registered := r \<rparr>) \<rparr>"
    and ts: "distinct ts" "set ts = (if r then insert t (set (threads s)) else set (threads s) - {t})"
  shows "gate_inv c s'"
proof -
  have own: "own_closed s' u = own_closed s u \<and> own_closing s' u = own_closing s u" for u
    by (simp add: s' own_closed_def own_closing_def)
  have b: "barred_ok c s'" if b: "barred (closing s)"
  proof -
    have "barred_ok c s" using inv b by (simp add: gate_inv_def)
    moreover have "may_be_inside (closing s) ts (skipped s) \<union> {t} \<supseteq> may_be_inside (closing s) (threads s) (skipped s)"
      using ts(2) by (cases "closing s") auto
    ultimately show ?thesis
      using out by (auto simp: s' barred_ok_def visible_def in_lower_half_def no_flags_def)
  qed
  have "thread_ok ((thr s t) \<lparr> registered := r \<rparr>)"
    using spec [OF conjunct1 [OF inv [unfolded gate_inv_def]], of t] out by (simp add: thread_ok_def)
  then show ?thesis unfolding gate_inv_def
    using inv b own ts by (auto simp: gate_inv_def s' no_flags_def)
qed

lemmas thread_defs = thread_ok_def in_lower_half_def visible_def

lemma thread_step_inv:
  assumes "thread_step t s s'" and "gate_inv c s"
  shows "gate_inv c s'"
  using assms
proof (induction rule: thread_step.induct)
  case (register s)
  have r: "distinct (t # threads s)" using register by (simp add: gate_inv_def)
  show ?case
    by (rule registration_inv [OF register(4,1,3) _ r, where r = True]) (simp_all add: register_lower_half_thread_def)
next
  case (unregister s)
  have d: "distinct (remove1 t (threads s))" "set (remove1 t (threads s)) = set (threads s) - {t}"
    using unregister by (simp_all add: gate_inv_def)
  show ?case
    by (rule registration_inv [OF unregister(4,1,3) _ d(1), where r = False])
      (simp_all add: unregister_lower_half_thread_def d(2) unregister(2))
next
  case (enter s)
  have ok: "thread_ok (thr s t)" using enter by (simp add: gate_inv_def)
  show ?case
    unfolding disable_store_def store_pc_def
    by (rule local_step_inv [OF enter(3) refl, where sts = "[StDepth (own_depth (thr s t) + 1)]"])
      (use enter(1,2) ok in \<open>auto simp: thread_defs\<close>)
next
  case (entered s)
  have ok: "thread_ok (thr s t)" using entered by (simp add: gate_inv_def)
  show ?case
    unfolding disable_load_def store_pc_def
    by (rule local_step_inv [OF entered(2) refl, where sts = "[]"])
      (use entered(1) ok in_closed_lower_half [OF entered(2), of t] in \<open>auto simp: thread_defs split: if_splits\<close>)
next
  case (check s)
  have ok: "thread_ok (thr s t)" using check by (simp add: gate_inv_def)
  show ?case
  proof (cases "own_closed s t")
    case True
    then show ?thesis unfolding check_again_def store_pc_def if_P [OF True]
      by (intro local_step_inv [OF check(2) refl, where sts = "[StDepth 0]"])
        (use check(1) ok in \<open>auto simp: thread_defs\<close>)
  next
    case False
    then show ?thesis unfolding check_again_def store_pc_def if_not_P [OF False]
      by (intro local_step_inv [OF check(2) refl, where sts = "[]"])
        (use check(1) ok in_closed_lower_half [OF check(2), of t] in \<open>auto simp: thread_defs\<close>)
  qed
next
  case (spin s)
  have ok: "thread_ok (thr s t)" using spin by (simp add: gate_inv_def)
  show ?case
  proof (cases "own_closed s t")
    case False
    then show ?thesis unfolding step_in_def store_pc_def if_not_P [OF False]
      by (intro local_step_inv [OF spin(2) refl, where sts = "[StDepth 1]"])
        (use spin(1) ok in \<open>auto simp: thread_defs\<close>)
  qed (simp add: step_in_def spin)
next
  case (leave s)
  have ok: "thread_ok (thr s t)" using leave by (simp add: gate_inv_def)
  show ?case
    unfolding lower_half_enable_ckpt_def store_pc_def Let_def
    by (rule local_step_inv [OF leave(2) refl, where sts = "[StDepth (own_depth (thr s t) - 1)]"])
      (use leave(1) ok in \<open>auto simp: thread_defs split: if_splits\<close>)
next
  case (block s)
  have ok: "thread_ok (thr s t)" using block by (simp add: gate_inv_def)
  show ?case
    unfolding lower_half_blocking_call_begin_def store_pc_def
    by (rule local_step_inv [OF block(2) refl, where sts = "[StBlocking True]"])
      (use block(1) ok in \<open>auto simp: thread_defs\<close>)
next
  case (unblock s)
  have ok: "thread_ok (thr s t)" using unblock by (simp add: gate_inv_def)
  show ?case
    unfolding lower_half_blocking_call_end_def store_pc_def
    by (rule local_step_inv [OF unblock(2) refl, where sts = "[StBlocking False]"])
      (use unblock(1) ok in \<open>auto simp: thread_defs\<close>)
qed

lemma apply_store_sel:
  "threads (apply_store t st x) = threads x" "closing (apply_store t st x) = closing x"
  "skipped (apply_store t st x) = skipped x" "lt_pc (thr (apply_store t st x) u) = lt_pc (thr x u)"
  "registered (thr (apply_store t st x) u) = registered (thr x u)"
  "store_buffer (thr (apply_store t st x) u) = store_buffer (thr x u)"
  "lt_depth (thr (apply_store t st x) u) =
     (case st of StDepth d \<Rightarrow> if u = t then d else lt_depth (thr x u) | _ \<Rightarrow> lt_depth (thr x u))"
  "lower_half_closed (apply_store t st x) = (case st of StClosed b \<Rightarrow> b | _ \<Rightarrow> lower_half_closed x)"
  "closing_thread (apply_store t st x) = (case st of StClosing b \<Rightarrow> b | _ \<Rightarrow> closing_thread x)"
  by (cases st; simp)+

lemma flush_one_sel [simp]:
  "threads (flush_one t s) = threads s" "closing (flush_one t s) = closing s" "skipped (flush_one t s) = skipped s"
  "lt_pc (thr (flush_one t s) u) = lt_pc (thr s u)" "registered (thr (flush_one t s) u) = registered (thr s u)"
  "own_depth (thr (flush_one t s) u) = own_depth (thr s u)"
  "store_buffer (thr (flush_one t s) u) = (if u = t then tl (store_buffer (thr s u)) else store_buffer (thr s u))"
  by (auto simp: flush_one_def own_depth_def apply_store_sel split: list.split gate_store.split)

lemma flush_one_flags:
  assumes "t = c \<or> no_flags (thr s t)"
  shows "own_closed (flush_one t s) c = own_closed s c" and "own_closing (flush_one t s) c = own_closing s c"
  using assms
  by (auto simp: flush_one_def own_closed_def own_closing_def no_flags_def apply_store_sel
      split: list.split gate_store.split)

lemma flush_one_memory:
  assumes "no_flags (thr s t)"
  shows "lower_half_closed (flush_one t s) = lower_half_closed s" and "closing_thread (flush_one t s) = closing_thread s"
  using assms by (auto simp: flush_one_def no_flags_def apply_store_sel split: list.split gate_store.split)

lemma flush_one_depth:
  "lt_depth (thr (flush_one t s) u) =
     (case store_buffer (thr s u) of StDepth d # _ \<Rightarrow> if u = t then d else lt_depth (thr s u) | _ \<Rightarrow> lt_depth (thr s u))"
  by (cases "u = t") (auto simp: flush_one_def apply_store_sel split: list.split gate_store.split)

lemma flush_one_visible: "visible (thr s u) \<Longrightarrow> visible (thr (flush_one t s) u)"
  unfolding visible_def in_lower_half_def flush_one_sel flush_one_depth
  by (auto split: list.split gate_store.split dest: list.set_sel(2))

lemma flush_one_no_flags: "no_flags (thr s u) \<Longrightarrow> no_flags (thr (flush_one t s) u)"
  by (cases "store_buffer (thr s u)") (auto simp: no_flags_def)

lemma flush_one_inv:
  assumes "gate_inv c s"
  shows "gate_inv c (flush_one t s)"
proof -
  have b: "barred_ok c (flush_one t s)" if b: "barred_ok c s"
  proof -
    have "no_flags (thr s t)" using b assms by (cases "t = c") (auto simp: barred_ok_def gate_inv_def)
    then show ?thesis
      using b flush_one_memory [of s t] flush_one_no_flags [of s c t] flush_one_visible [of s _ t]
      by (auto simp: barred_ok_def in_lower_half_def)
  qed
  have f: "t = c \<or> no_flags (thr s t)" using assms by (auto simp: gate_inv_def)
  have "thread_ok (thr (flush_one t s) u) = thread_ok (thr s u)" for u
    unfolding thread_ok_def flush_one_sel ..
  then show ?thesis
    using assms b flush_one_flags [OF f] flush_one_no_flags [of s _ t] unfolding gate_inv_def by simp
qed

lemma flush_thread:
  assumes "gate_inv c s" and "length xs = length (store_buffer (thr s t))"
  shows "gate_inv c (fold (\<lambda>_. flush_one t) xs s) \<and> closing (fold (\<lambda>_. flush_one t) xs s) = closing s \<and>
    (\<forall>u. store_buffer (thr (fold (\<lambda>_. flush_one t) xs s) u) = (if u = t then [] else store_buffer (thr s u)))"
  using assms
proof (induction xs arbitrary: s)
  case (Cons x xs)
  then have "length xs = length (store_buffer (thr (flush_one t s) t))" by (cases "store_buffer (thr s t)") simp_all
  then show ?case using Cons.IH [OF flush_one_inv [OF Cons.prems(1)]] by (simp add: if_distrib cong: if_cong)
qed simp

lemma flush_all_spec:
  assumes "gate_inv c s" and "\<forall>t. t \<notin> set ts \<longrightarrow> store_buffer (thr s t) = []"
  shows "gate_inv c (flush_all ts s) \<and> closing (flush_all ts s) = closing s \<and>
    (\<forall>t. store_buffer (thr (flush_all ts s) t) = [])"
  using assms
proof (induction ts arbitrary: s)
  case (Cons t ts)
  let ?s = "fold (\<lambda>_. flush_one t) (store_buffer (thr s t)) s"
  have "gate_inv c ?s \<and> closing ?s = closing s \<and> (\<forall>u. u \<notin> set ts \<longrightarrow> store_buffer (thr ?s u) = [])"
    using flush_thread [OF Cons.prems(1) refl, of t] Cons.prems(2) by auto
  then show ?case using Cons.IH [of ?s] by (simp add: flush_all_def)
qed (simp add: flush_all_def)

lemma barrier_inv:
  assumes "gate_inv c s" and "closing s = Closing b" and "\<forall>t. t \<notin> set ts \<longrightarrow> store_buffer (thr s t) = []"
  shows "gate_inv c ((flush_all ts s) \<lparr> closing := Locking b \<rparr>)"
proof -
  let ?s = "flush_all ts s"
  have f: "gate_inv c ?s" "closing ?s = Closing b" "\<And>t. store_buffer (thr ?s t) = []"
    using flush_all_spec [OF assms(1,3)] assms(2) by simp_all
  have nf: "no_flags (thr ?s t)" for t using f(3) by (simp add: no_flags_def)
  have m: "lower_half_closed ?s" "closing_thread ?s = Some c"
    using f(1,2) own_flags_none [OF nf, of c] by (auto simp: gate_inv_def)
  have ok: "thread_ok (thr ?s t)" "registered (thr ?s t) \<longleftrightarrow> t \<in> set (threads ?s)" for t
    using f(1) by (simp_all add: gate_inv_def)
  have "visible (thr ?s t) \<and> (in_lower_half (thr ?s t) \<longrightarrow> t \<in> set (threads ?s))" for t
    using ok [of t] f(3) [of t] by (auto simp: thread_defs own_depth_def split: thread_pc.splits)
  then show ?thesis using f(1) m nf by (auto simp: gate_inv_def barred_ok_def)
qed

lemma ckpt_store_inv:
  assumes "gate_inv c s" and "\<not> barred p" and "skips p"
    and p: "\<And>b. p = Closing b \<Longrightarrow> sts = [StClosing (Some c), StClosed True]"
    and sts: "\<forall>d. StDepth d \<notin> set sts"
  shows "gate_inv c ((store_pc c sts (lt_pc (thr s c)) s) \<lparr> closing := p \<rparr>)"
proof -
  have d: "foldl (\<lambda>d st. case st of StDepth n \<Rightarrow> n | _ \<Rightarrow> d) x sts = x" for x
    using sts by (induction sts) (auto split: gate_store.split)
  have "thread_ok (thr s c \<lparr> store_buffer := store_buffer (thr s c) @ sts \<rparr>) = thread_ok (thr s c)"
    by (simp add: thread_ok_def d split: thread_pc.split)
  then show ?thesis
    using assms by (auto simp: gate_inv_def store_pc_def own_closed_def own_closing_def)
qed

lemma pass_inv:
  assumes inv: "gate_inv c s" and w: "closing s = Walking b (t # ts)" and p: "may_pass c b t s"
  shows "gate_inv c (pass_thread c b t ts s)"
proof -
  have b: "barred_ok c s" using inv w by (simp add: gate_inv_def)
  have t: "\<not> in_lower_half (thr s t)" if "t \<noteq> c" "\<not> lt_depth (thr s t) > 0"
    using b that by (auto simp: barred_ok_def visible_def)
  have "barred_ok c (pass_thread c b t ts s)"
    using b t w by (auto simp: barred_ok_def pass_thread_def)
  moreover have "\<not> b \<Longrightarrow> t = c \<or> \<not> lt_depth (thr s t) > 0" using p by (auto simp: may_pass_def)
  ultimately show ?thesis using inv w by (auto simp: gate_inv_def pass_thread_def)
qed

lemma gate_step_inv:
  assumes "gate_inv c s" and "gate_step c s s'"
  shows "gate_inv c s'"
  using assms(2,1)
proof (induction rule: gate_step.induct)
  case (close s b skip_blocked)
  then show ?case unfolding close_lower_half_def by (intro ckpt_store_inv) auto
next
  case (allow s b)
  then show ?case unfolding allow_threads_to_enter_lower_half_def by (intro ckpt_store_inv) auto
next
  case (lock s b)
  then show ?case by (auto simp: gate_inv_def barred_ok_def)
next
  case (walked s b)
  then show ?case by (auto simp: gate_inv_def barred_ok_def)
qed (auto intro: thread_step_inv flush_one_inv barrier_inv pass_inv)

definition gate_start :: "gate \<Rightarrow> bool" where
  "gate_start s \<longleftrightarrow> threads s = [] \<and> \<not> lower_half_closed s \<and> closing_thread s = None \<and> closing s = Open \<and>
     skipped s = {} \<and>
     (\<forall>t. thr s t = \<lparr> lt_depth = 0, in_blocking_call = False, registered = False, store_buffer = [], lt_pc = Outside \<rparr>)"

interpretation gate: state_machine gate_start "gate_step c" "gate_inv c" for c
proof
  show "gate_inv c s" if "gate_start s" for s
    using that by (auto simp: gate_start_def gate_inv_def thread_ok_def own_depth_def no_flags_def)
qed (rule gate_step_inv)

section \<open>Progress of the wait\<close>

lemma thread_steps:
  assumes "thread_step t s s'" and "t \<noteq> c"
  shows "(gate_step c)\<^sup>*\<^sup>* s s'"
  using assms by (intro r_into_rtranclp gate_step.run) (auto simp: may_run_def)

lemma local_sel [simp]:
  "closing (store_pc t sts p s) = closing s" "lt_pc (thr (store_pc t sts p s) t) = p"
  "own_depth (thr (store_pc t sts p s) t) = foldl (\<lambda>d st. case st of StDepth n \<Rightarrow> n | _ \<Rightarrow> d) (own_depth (thr s t)) sts"
  by (simp_all add: store_pc_def)

lemma inside_can_leave:
  assumes "t \<noteq> c" and "lt_pc (thr s t) = Inside" and "own_depth (thr s t) = int (Suc n)"
  shows "\<exists>s'. (gate_step c)\<^sup>*\<^sup>* s s' \<and> closing s' = closing s \<and> lt_pc (thr s' t) = Outside"
  using assms
proof (induction n arbitrary: s)
  case 0
  then show ?case
    using thread_steps [OF thread_step.leave [OF 0(2)] 0(1)]
    by (intro exI [of _ "lower_half_enable_ckpt t s"]) (simp add: lower_half_enable_ckpt_def)
next
  case (Suc n)
  let ?s = "lower_half_enable_ckpt t s"
  have "lt_pc (thr ?s t) = Inside" "own_depth (thr ?s t) = int (Suc n)" "closing ?s = closing s"
    using Suc.prems(3) by (simp_all add: lower_half_enable_ckpt_def)
  then obtain s' where "(gate_step c)\<^sup>*\<^sup>* ?s s'" "closing s' = closing s" "lt_pc (thr s' t) = Outside"
    using Suc.IH [OF Suc.prems(1)] by metis
  then show ?case using rtranclp_trans [OF thread_steps [OF thread_step.leave [OF Suc.prems(2)] Suc.prems(1)]] by blast
qed

lemma thread_can_leave:
  assumes inv: "gate_inv c s" and t: "t \<noteq> c" and b: "barred (closing s)"
  shows "\<exists>s'. (gate_step c)\<^sup>*\<^sup>* s s' \<and> closing s' = closing s \<and> own_depth (thr s' t) = 0"
proof -
  have ok: "thread_ok (thr s t)" if "gate_inv c s" for s using that by (simp add: gate_inv_def)
  have inside: "\<exists>s'. (gate_step c)\<^sup>*\<^sup>* s s' \<and> closing s' = closing s \<and> own_depth (thr s' t) = 0"
    if i: "gate_inv c s" "lt_pc (thr s t) = Inside" for s
  proof -
    have "own_depth (thr s t) = int (Suc (nat (own_depth (thr s t) - 1)))"
      using ok [OF i(1)] i(2) by (simp add: thread_ok_def)
    then obtain s' where s': "(gate_step c)\<^sup>*\<^sup>* s s'" "closing s' = closing s" "lt_pc (thr s' t) = Outside"
      using inside_can_leave [OF t i(2)] by blast
    have "own_depth (thr s' t) = 0" using ok [OF gate.run_inv [OF s'(1) i(1)]] s'(3) by (simp add: thread_ok_def)
    then show ?thesis using s' by blast
  qed
  have check: "\<exists>s'. (gate_step c)\<^sup>*\<^sup>* s s' \<and> closing s' = closing s \<and> own_depth (thr s' t) = 0"
    if i: "gate_inv c s" "barred (closing s)" "lt_pc (thr s t) = Checking" for s
    using thread_steps [OF thread_step.check [OF i(3)] t] in_closed_lower_half [OF i(1) t i(2)]
    by (intro exI [of _ "check_again t s"]) (simp add: check_again_def)
  show ?thesis
  proof (cases "lt_pc (thr s t)")
    case Entering
    let ?s = "disable_load t s"
    have st: "(gate_step c)\<^sup>*\<^sup>* s ?s" by (rule thread_steps [OF thread_step.entered [OF Entering] t])
    have "closing ?s = closing s" "lt_pc (thr ?s t) = Inside \<or> lt_pc (thr ?s t) = Checking"
      by (simp_all add: disable_load_def)
    then show ?thesis
      using inside [OF gate.run_inv [OF st inv]] check [OF gate.run_inv [OF st inv]] b rtranclp_trans [OF st] by metis
  next
    case Blocked
    let ?s = "lower_half_blocking_call_end t s"
    have st: "(gate_step c)\<^sup>*\<^sup>* s ?s" by (rule thread_steps [OF thread_step.unblock [OF Blocked] t])
    have "closing ?s = closing s" "lt_pc (thr ?s t) = Inside" by (simp_all add: lower_half_blocking_call_end_def)
    then show ?thesis using inside [OF gate.run_inv [OF st inv]] rtranclp_trans [OF st] by metis
  next
    case Outside
    then show ?thesis using ok [OF inv] by (auto simp: thread_ok_def)
  next
    case Stepped_out
    then show ?thesis using ok [OF inv] by (auto simp: thread_ok_def)
  qed (use inside [OF inv] check [OF inv b] in auto)
qed

lemma flush_run:
  "(gate_step c)\<^sup>*\<^sup>* s (fold (\<lambda>_. flush_one t) xs s)"
proof (induction xs arbitrary: s)
  case (Cons x xs)
  have "gate_step c s (flush_one t s)" by (rule gate_step.memory)
  also note Cons.IH
  finally show ?case by simp
qed simp

lemma flush_own_depth: "own_depth (thr (fold (\<lambda>_. flush_one t) xs s) u) = own_depth (thr s u)"
  by (induction xs arbitrary: s) simp_all

lemma walk_can_pass:
  assumes inv: "gate_inv c s" and w: "closing s = Walking b (t # ts)"
  shows "\<exists>s'. (gate_step c)\<^sup>*\<^sup>* s s' \<and> closing s' = Walking b ts"
proof (cases "t = c")
  case True
  then have "may_pass c b t s" by (simp add: may_pass_def)
  from gate_step.pass [OF w this] show ?thesis
    by (intro exI [of _ "pass_thread c b t ts s"]) (auto simp: pass_thread_def)
next
  case False
  obtain s1 where s1: "(gate_step c)\<^sup>*\<^sup>* s s1" "closing s1 = closing s" "own_depth (thr s1 t) = 0"
    using thread_can_leave [OF inv False] w by auto
  let ?s2 = "fold (\<lambda>_. flush_one t) (store_buffer (thr s1 t)) s1"
  have f: "closing ?s2 = closing s1" "store_buffer (thr ?s2 t) = []"
    using flush_thread [OF gate.run_inv [OF s1(1) inv] refl, of t] by simp_all
  have "own_depth (thr ?s2 t) = 0" using s1(3) by (simp add: flush_own_depth)
  then have "lt_depth (thr ?s2 t) = 0" using f(2) by (simp add: own_depth_def)
  then have "may_pass c b t ?s2" by (simp add: may_pass_def)
  with gate_step.pass [of ?s2 b t ts c] f(1) s1(2) w
  have "gate_step c ?s2 (pass_thread c b t ts ?s2)" by simp
  with rtranclp_trans [OF s1(1) flush_run] have "(gate_step c)\<^sup>*\<^sup>* s (pass_thread c b t ts ?s2)"
    by (rule rtranclp.rtrancl_into_rtrancl)
  then show ?thesis by (intro exI [of _ "pass_thread c b t ts ?s2"]) (simp add: pass_thread_def)
qed

lemma walk_can_end:
  assumes "gate_inv c s" and "closing s = Walking b ts"
  shows "\<exists>s'. (gate_step c)\<^sup>*\<^sup>* s s' \<and> closing s' = Closed b"
  using assms
proof (induction ts arbitrary: s)
  case Nil
  then show ?case using gate_step.walked [OF Nil(2), of c] by (intro exI [of _ "s \<lparr> closing := Closed b \<rparr>"]) auto
next
  case (Cons t ts)
  obtain s1 where s1: "(gate_step c)\<^sup>*\<^sup>* s s1" "closing s1 = Walking b ts" using walk_can_pass [OF Cons.prems] by blast
  then show ?case using Cons.IH [OF gate.run_inv [OF s1(1) Cons.prems(1)] s1(2)] rtranclp_trans [OF s1(1)] by blast
qed

section \<open>Properties\<close>

text \<open>A run of thread 1 and of the checkpoint thread 0: the thread is inside when the lower half is closed, and
  the walk waits until it has left.\<close>

definition run_start :: gate where
  "run_start = \<lparr> threads = [], thr = (\<lambda>_. \<lparr> lt_depth = 0, in_blocking_call = False, registered = False,
     store_buffer = [], lt_pc = Outside \<rparr>), lower_half_closed = False, closing_thread = None, closing = Open, skipped = {} \<rparr>"

definition run_inside :: gate where
  "run_inside = disable_load 1 (disable_store 1 (register_lower_half_thread 1 run_start))"

definition run_walk :: gate where
  "run_walk = (let s = (flush_all [0, 1] (close_lower_half 0 False run_inside)) \<lparr> closing := Locking False \<rparr>
     in s \<lparr> closing := Walking False (threads s), skipped := {} \<rparr>)"

definition run_closed :: gate where
  "run_closed = (pass_thread 0 False 1 [] (flush_one 1 (lower_half_enable_ckpt 1 run_walk))) \<lparr> closing := Closed False \<rparr>"

lemmas run_defs = run_start_def run_inside_def run_walk_def run_closed_def register_lower_half_thread_def
  disable_store_def disable_load_def store_pc_def own_depth_def own_closed_def own_closing_def close_lower_half_def
  flush_all_def flush_one_def lower_half_enable_ckpt_def pass_thread_def Let_def

lemma run_to_inside: "(gate_step 0)\<^sup>*\<^sup>* run_start run_inside"
proof -
  let ?s1 = "register_lower_half_thread 1 run_start" and ?s2 = "disable_store 1 (register_lower_half_thread 1 run_start)"
  have "(gate_step 0)\<^sup>*\<^sup>* run_start ?s1"
    by (rule thread_steps [OF thread_step.register]) (simp_all add: run_start_def walking_def)
  also have "(gate_step 0)\<^sup>*\<^sup>* ?s1 ?s2"
    by (rule thread_steps [OF thread_step.enter]) (simp_all add: run_start_def register_lower_half_thread_def)
  also have "(gate_step 0)\<^sup>*\<^sup>* ?s2 run_inside"
    unfolding run_inside_def
    by (rule thread_steps [OF thread_step.entered])
      (simp_all add: run_start_def disable_store_def store_pc_def register_lower_half_thread_def)
  finally show ?thesis .
qed

lemma run_to_walk: "(gate_step 0)\<^sup>*\<^sup>* run_inside run_walk"
proof -
  let ?s1 = "close_lower_half 0 False run_inside"
  let ?s2 = "(flush_all [0, 1] ?s1) \<lparr> closing := Locking False \<rparr>"
  have "(gate_step 0)\<^sup>*\<^sup>* run_inside ?s1"
    by (intro r_into_rtranclp gate_step.close) (simp add: run_defs)
  also have "gate_step 0 ?s1 ?s2"
    by (rule gate_step.barrier) (simp_all add: run_defs)
  also have "gate_step 0 ?s2 run_walk"
    unfolding run_walk_def Let_def by (rule gate_step.lock) simp
  finally show ?thesis .
qed

lemma run_walk_sel: "closing run_walk = Walking False [1]" "lt_pc (thr run_walk 1) = Inside"
  by (simp_all add: run_defs)

lemma run_to_closed: "(gate_step 0)\<^sup>*\<^sup>* run_walk run_closed"
proof -
  let ?s1 = "lower_half_enable_ckpt 1 run_walk"
  let ?s2 = "flush_one 1 ?s1"
  let ?s3 = "pass_thread 0 False 1 [] ?s2"
  have "(gate_step 0)\<^sup>*\<^sup>* run_walk ?s1"
    by (rule thread_steps [OF thread_step.leave]) (simp_all add: run_walk_sel [simplified])
  also have "gate_step 0 ?s1 ?s2" by (rule gate_step.memory)
  also have "gate_step 0 ?s2 ?s3"
    by (rule gate_step.pass) (simp_all add: run_walk_sel [simplified] lower_half_enable_ckpt_def Let_def may_pass_def run_defs)
  also have "gate_step 0 ?s3 run_closed"
    unfolding run_closed_def by (rule gate_step.walked) (simp add: pass_thread_def)
  finally show ?thesis .
qed

lemma run_reachable: "(gate_step 0)\<^sup>*\<^sup>* run_start run_closed" "(gate_step 0)\<^sup>*\<^sup>* run_start run_walk" "gate_start run_start"
  using run_to_inside run_to_walk run_to_closed by (auto simp: gate_start_def run_start_def)

text \<open>C12. When \<^verbatim>\<open>wait_for_threads_to_leave_lower_half\<close> has returned, and until the lower half is opened again, no
  thread but the checkpoint thread is inside the lower half, although entering threads use no memory barrier;
  and every thread in the entry waits with a depth of its own that the entry takes back.\<close>

theorem closed_lower_half_is_empty:
  assumes "gate_start s" and "(gate_step c)\<^sup>*\<^sup>* s s'" and "closing s' = Closed False" and "t \<noteq> c"
  shows "\<not> in_lower_half (thr s' t) \<and> lt_pc (thr s' t) \<in> {Outside, Entering, Checking, Stepped_out}"
proof -
  have "gate_inv c s'" by (rule gate.reachable_inv [OF assms(1,2)])
  then have "\<not> in_lower_half (thr s' t)"
    using assms(3,4) by (auto simp: gate_inv_def barred_ok_def)
  then show ?thesis by (cases "lt_pc (thr s' t)") (simp_all add: in_lower_half_def)
qed

theorem closed_lower_half_is_empty_witness:
  "gate_start run_start \<and> (gate_step 0)\<^sup>*\<^sup>* run_start run_closed \<and> registered (thr run_closed 1) \<and>
   \<not> in_lower_half (thr run_closed 1)"
proof -
  have "closing run_closed = Closed False" by (simp add: run_closed_def)
  from closed_lower_half_is_empty [OF run_reachable(3,1) this, of 1] run_reachable show ?thesis
    by (simp add: run_defs)
qed

text \<open>C13. From the barrier of \<^verbatim>\<open>close_lower_half_and_wait\<close> on, no other thread enters the lower half: a thread
  that is inside after a step was inside before it.  With \<^verbatim>\<open>skip_blocked\<close> too, only threads that the walk left in
  a blocking call can be inside after it.\<close>

theorem no_entry_while_closed:
  assumes "gate_start s" and "(gate_step c)\<^sup>*\<^sup>* s s1" and "gate_step c s1 s2" and "t \<noteq> c"
    and "closing s1 = Closed b" and "closing s2 = Closed b" and "in_lower_half (thr s2 t)"
  shows "in_lower_half (thr s1 t) \<and> t \<in> skipped s1"
proof -
  have inv: "gate_inv c s1" "gate_inv c s2"
    using gate.reachable_inv [OF assms(1,2)] gate_step_inv [OF _ assms(3)] by auto
  have own: "own_closed s1 t" "own_closing s1 t = Some c"
    using in_closed_lower_half [OF inv(1) assms(4)] assms(5) by simp_all
  have "in_lower_half (thr s1 t)"
    using assms(3)
  proof (cases rule: gate_step.cases)
    case (run u)
    from run(2) show ?thesis
    proof (cases "u = t")
      case True
      have "thread_ok (thr s1 t)" using inv(1) by (simp add: gate_inv_def)
      with run(2) own assms(4,7) True show ?thesis
        by cases (auto simp: in_lower_half_def thread_ok_def register_lower_half_thread_def
            unregister_lower_half_thread_def disable_store_def disable_load_def check_again_def step_in_def
            store_pc_def split: if_splits)
    next
      case False
      with run(2) assms(7) show ?thesis
        by cases (auto simp: in_lower_half_def register_lower_half_thread_def
            unregister_lower_half_thread_def disable_store_def disable_load_def check_again_def step_in_def
            lower_half_enable_ckpt_def lower_half_blocking_call_begin_def lower_half_blocking_call_end_def
            store_pc_def Let_def split: if_splits)
    qed
  next
    case (memory u)
    then show ?thesis using assms(7) by (simp add: in_lower_half_def)
  qed (use assms(5,6) in \<open>simp_all add: close_lower_half_def allow_threads_to_enter_lower_half_def\<close>)
  then show ?thesis using inv(1) assms(4,5) by (auto simp: gate_inv_def barred_ok_def)
qed

text \<open>The same run with a thread in a blocking call and \<^verbatim>\<open>skip_blocked\<close>.\<close>

definition run_blocked :: gate where
  "run_blocked = (flush_all [0, 1] (close_lower_half 0 True (lower_half_blocking_call_begin 1 run_inside)))
     \<lparr> closing := Locking True \<rparr>"

definition run_skipped :: gate where
  "run_skipped = (pass_thread 0 True 1 [] (run_blocked \<lparr> closing := Walking True (threads run_blocked), skipped := {} \<rparr>))
     \<lparr> closing := Closed True \<rparr>"

lemma run_blocked_sel:
  "lt_pc (thr run_inside 1) = Inside" "closing run_inside = Open" "threads run_blocked = [1]"
  "closing run_blocked = Locking True" "in_blocking_call (thr run_blocked 1)"
  "lt_pc (thr run_skipped 1) = Blocked" "closing run_skipped = Closed True"
  unfolding run_skipped_def run_blocked_def lower_half_blocking_call_begin_def by (simp_all add: run_defs)

lemma run_to_skipped: "(gate_step 0)\<^sup>*\<^sup>* run_inside run_skipped"
proof -
  let ?s1 = "lower_half_blocking_call_begin 1 run_inside"
  let ?s2 = "close_lower_half 0 True ?s1"
  let ?s3 = "run_blocked \<lparr> closing := Walking True (threads run_blocked), skipped := {} \<rparr>"
  let ?s4 = "pass_thread 0 True 1 [] ?s3"
  have "(gate_step 0)\<^sup>*\<^sup>* run_inside ?s1"
    by (rule thread_steps [OF thread_step.block [OF run_blocked_sel(1)]]) simp
  also have "gate_step 0 ?s1 ?s2"
    by (rule gate_step.close) (simp add: run_blocked_sel lower_half_blocking_call_begin_def)
  also have "gate_step 0 ?s2 run_blocked"
    unfolding run_blocked_def
    by (rule gate_step.barrier) (simp_all add: lower_half_blocking_call_begin_def run_defs)
  also have "gate_step 0 run_blocked ?s3"
    by (rule gate_step.lock [OF run_blocked_sel(4)])
  also have "gate_step 0 ?s3 ?s4"
    by (rule gate_step.pass) (simp_all add: run_blocked_sel [simplified] may_pass_def)
  also have "gate_step 0 ?s4 run_skipped"
    unfolding run_skipped_def by (rule gate_step.walked) (simp add: pass_thread_def)
  finally show ?thesis .
qed

theorem no_entry_while_closed_witness:
  "\<exists>s1 s2. (gate_step 0)\<^sup>*\<^sup>* run_start s1 \<and> gate_step 0 s1 s2 \<and> closing s2 = Closed True \<and>
     in_lower_half (thr s2 1) \<and> in_lower_half (thr s1 1) \<and> 1 \<in> skipped s1"
proof -
  let ?s2 = "lower_half_blocking_call_end 1 run_skipped"
  have r: "(gate_step 0)\<^sup>*\<^sup>* run_start run_skipped" using run_to_inside run_to_skipped by (rule rtranclp_trans)
  have st: "gate_step 0 run_skipped ?s2"
    by (rule gate_step.run [OF _ thread_step.unblock [OF run_blocked_sel(6)]]) (simp add: may_run_def)
  have c: "closing ?s2 = Closed True" and i: "in_lower_half (thr ?s2 1)"
    by (simp_all add: lower_half_blocking_call_end_def run_blocked_sel(7) in_lower_half_def)
  have "(1::nat) \<noteq> 0" by simp
  from no_entry_while_closed [OF run_reachable(3) r st this run_blocked_sel(7) c i] r st c i show ?thesis by blast
qed

text \<open>C14. The wait of the checkpoint thread can always be completed: from every reachable state in which it walks
  the list of threads, some run of the other threads, of the memory and of the walk ends the wait.\<close>

theorem close_can_complete:
  assumes "gate_start s" and "(gate_step c)\<^sup>*\<^sup>* s s1" and "closing s1 = Walking b ts"
  shows "\<exists>s2. (gate_step c)\<^sup>*\<^sup>* s1 s2 \<and> closing s2 = Closed b"
  by (rule walk_can_end [OF gate.reachable_inv [OF assms(1,2)] assms(3)])

theorem close_can_complete_witness:
  "lt_pc (thr run_walk 1) = Inside \<and> closing run_walk = Walking False [1] \<and>
   (\<exists>s. (gate_step 0)\<^sup>*\<^sup>* run_walk s \<and> closing s = Closed False)"
  using close_can_complete [OF run_reachable(3,2) run_walk_sel(1)] run_walk_sel by blast

end
