(* ===== verification/Address_Ranges.thy ===== *)
theory Address_Ranges
  imports Mana_Prelude
begin

text \<open>
  The lists of address ranges of the memory wrappers (\<^verbatim>\<open>lower-half/mem-wrapper.cpp\<close>): sorted vectors of
  blocks, to which \<^verbatim>\<open>merge_overlap_blocks\<close> adds a range and from which \<^verbatim>\<open>remove_overlap_blocks\<close> takes one.

  An address is a natural number; no range of the upper half reaches \<open>2 ^ 64\<close>, so sums and differences do
  not wrap.  \<^verbatim>\<open>std::sort\<close> is \<open>sort_key\<close>: the addresses in a list are different, so the sorted order is
  unique.  \<open>range_set\<close> states what the two operations promise, and the interpretation \<open>blocks\<close> proves it.
\<close>

section \<open>Blocks\<close>

record block =
  b_addr :: nat
  b_len :: nat

abbreviation b_end :: "block \<Rightarrow> nat" where
  "b_end b \<equiv> b_addr b + b_len b"

abbreviation mk_block :: "nat \<Rightarrow> nat \<Rightarrow> block" where
  "mk_block a n \<equiv> \<lparr> b_addr = a, b_len = n \<rparr>"

text \<open>The loop of \<^verbatim>\<open>merge_overlap_blocks\<close>: the merged block, and the blocks that stay.\<close>

fun merge_loop :: "block \<Rightarrow> block list \<Rightarrow> block \<times> block list" where
  "merge_loop m [] = (m, [])"
| "merge_loop m (b # bs) =
     (if b_end b < b_addr m then (let (m', bs') = merge_loop m bs in (m', b # bs'))
      else if b_addr b > b_end m then (m, b # bs)
      else let min_start = (if b_addr b < b_addr m then b_addr b else b_addr m);
               max_end = (if b_end b > b_end m then b_end b else b_end m)
           in merge_loop (mk_block min_start (max_end - min_start)) bs)"

definition merge_overlap_blocks :: "block \<Rightarrow> block list \<Rightarrow> block list" where
  "merge_overlap_blocks n bs = (let (m, bs') = merge_loop n bs in sort_key b_addr (bs' @ [m]))"

text \<open>The pieces of a block that overlaps with the removed one.\<close>

definition pieces :: "block \<Rightarrow> block \<Rightarrow> block list" where
  "pieces n b =
     (let front = mk_block (b_addr b) (b_len b - (b_end b - b_addr n));
          back = mk_block (b_end n) (b_end b - b_end n);
          keep = (\<lambda>x. if b_len x > 0 then [x] else [])
      in if b_addr b < b_addr n
         then if b_end b > b_addr n \<and> b_end b < b_end n then keep front else keep front @ keep back
         else if b_end b > b_end n then keep back else [])"

text \<open>The loop of \<^verbatim>\<open>remove_overlap_blocks\<close>: the blocks that stay and the pieces pushed to the back.  \<open>old\<close> is
  the range of the block visited before; the loop never ends on a null block or on the same range twice.\<close>

fun remove_loop :: "block \<Rightarrow> nat \<times> nat \<Rightarrow> block list \<Rightarrow> (block list \<times> block list) result" where
  "remove_loop n old [] = Ok ([], [])"
| "remove_loop n old (b # bs) =
     (if b_addr b = 0 \<or> (b_addr b, b_end b) = old then Fault Spin
      else if b_end b \<le> b_addr n
           then bind_result (remove_loop n (b_addr b, b_end b) bs) (\<lambda>(stay, pushed). Ok (b # stay, pushed))
      else if b_addr b \<ge> b_end n then Ok (b # bs, [])
      else bind_result (remove_loop n (b_addr b, b_end b) bs) (\<lambda>(stay, pushed). Ok (stay, pieces n b @ pushed)))"

definition remove_overlap_blocks :: "block \<Rightarrow> block list \<Rightarrow> block list result" where
  "remove_overlap_blocks n bs =
     bind_result (remove_loop n (0, 0) bs) (\<lambda>(stay, pushed). Ok (sort_key b_addr (stay @ pushed)))"

section \<open>The interface\<close>

text \<open>A set of addresses kept as a list of ranges.\<close>

locale range_set =
  fixes wf :: "'r list \<Rightarrow> bool" and addrs :: "'r list \<Rightarrow> nat set" and range_of :: "'r \<Rightarrow> nat set"
    and valid :: "'r \<Rightarrow> bool"
    and add :: "'r \<Rightarrow> 'r list \<Rightarrow> 'r list" and del :: "'r \<Rightarrow> 'r list \<Rightarrow> 'r list result"
  assumes add_law: "wf bs \<Longrightarrow> valid r \<Longrightarrow> wf (add r bs) \<and> addrs (add r bs) = addrs bs \<union> range_of r"
    and del_law: "wf bs \<Longrightarrow> \<exists>bs'. del r bs = Ok bs' \<and> wf bs' \<and> addrs bs' = addrs bs - range_of r"
begin

text \<open>Moving a range from one list to another keeps the lists disjoint.\<close>

lemma move_disjoint:
  assumes "wf xs" and "wf ys" and "addrs xs \<inter> addrs ys = {}" and "valid r"
  shows "\<exists>ys'. del r ys = Ok ys' \<and> wf (add r xs) \<and> wf ys' \<and> addrs (add r xs) \<inter> addrs ys' = {} \<and>
    addrs (add r xs) = addrs xs \<union> range_of r \<and> addrs ys' = addrs ys - range_of r"
proof -
  obtain ys' where "del r ys = Ok ys'" "wf ys'" "addrs ys' = addrs ys - range_of r"
    using del_law [OF assms(2)] by blast
  moreover have "wf (add r xs)" "addrs (add r xs) = addrs xs \<union> range_of r" using add_law [OF assms(1,4)] by auto
  ultimately show ?thesis using assms(3) by (intro exI [of _ ys']) blast
qed

end

section \<open>Sorted lists of disjoint blocks\<close>

definition range_of_block :: "block \<Rightarrow> nat set" where
  "range_of_block b = {b_addr b..<b_end b}"

definition addrs :: "block list \<Rightarrow> nat set" where
  "addrs bs = (\<Union>b\<in>set bs. range_of_block b)"

text \<open>Below: a block lies below another one, with no common address and a different start.\<close>

definition below :: "block \<Rightarrow> block \<Rightarrow> bool" where
  "below b c \<longleftrightarrow> b_addr b < b_addr c \<and> b_end b \<le> b_addr c"

definition blocks_ok :: "block list \<Rightarrow> bool" where
  "blocks_ok bs \<longleftrightarrow> sorted_wrt below bs \<and> (\<forall>b\<in>set bs. b_addr b \<noteq> 0)"

lemma addrs_simps [simp, range_simps]:
  "addrs [] = {}" "addrs (b # bs) = range_of_block b \<union> addrs bs" "addrs (xs @ ys) = addrs xs \<union> addrs ys"
  "addrs (sort_key f bs) = addrs bs"
  by (auto simp: addrs_def)

lemma blocks_ok_Cons: "blocks_ok (b # bs) \<longleftrightarrow> (\<forall>c\<in>set bs. below b c) \<and> b_addr b \<noteq> 0 \<and> blocks_ok bs"
  by (auto simp: blocks_ok_def)

text \<open>Sorting blocks that are pairwise apart.\<close>

definition apart :: "block \<Rightarrow> block \<Rightarrow> bool" where
  "apart b c \<longleftrightarrow> below b c \<or> below c b"

lemma sort_apart:
  assumes "pairwise apart (set bs)" and "distinct bs"
  shows "sorted_wrt below (sort_key b_addr bs)"
  unfolding sorted_wrt_iff_nth_less
proof (intro allI impI)
  let ?xs = "sort_key b_addr bs"
  fix i j assume ij: "i < j" "j < length ?xs"
  have "?xs ! i \<in> set bs" "?xs ! j \<in> set bs" using ij by (metis nth_mem set_sort less_trans)+
  moreover have "?xs ! i \<noteq> ?xs ! j" using ij assms(2) by (simp add: nth_eq_iff_index_eq)
  moreover have "b_addr (?xs ! i) \<le> b_addr (?xs ! j)"
    using sorted_nth_mono [OF sorted_sort_key [of b_addr bs], of i j] ij by simp
  ultimately show "below (?xs ! i) (?xs ! j)"
    using assms(1) by (fastforce simp: pairwise_def apart_def below_def)
qed

lemma blocks_ok_apart:
  assumes "blocks_ok bs"
  shows "pairwise apart (set bs)" and "distinct bs"
proof -
  have s: "sorted_wrt below bs" using assms by (simp add: blocks_ok_def)
  then show "pairwise apart (set bs)"
    by (induction bs) (auto simp: pairwise_insert apart_def)
  show "distinct bs" using s by (induction bs) (auto simp: below_def)
qed

subsection \<open>Merging\<close>

lemma merge_loop_lower:
  "merge_loop n bs = (m, bs') \<Longrightarrow> l \<le> b_addr n \<Longrightarrow> (\<forall>b\<in>set bs. l \<le> b_addr b) \<Longrightarrow> l \<le> b_addr m"
  by (induction n bs arbitrary: m bs' rule: merge_loop.induct) (auto simp: Let_def split: if_splits prod.splits)

lemma merge_loop_spec:
  assumes "blocks_ok bs" and "merge_loop n bs = (m, bs')"
  shows "range_of_block m \<union> addrs bs' = range_of_block n \<union> addrs bs \<and> (\<forall>b\<in>set bs'. apart b m) \<and>
    blocks_ok bs' \<and> set bs' \<subseteq> set bs"
  using assms
proof (induction n bs arbitrary: m bs' rule: merge_loop.induct)
  case (2 n b bs)
  have ok: "blocks_ok bs" "\<forall>c\<in>set bs. below b c" "b_addr b \<noteq> 0" using "2.prems"(1) by (auto simp: blocks_ok_Cons)
  consider (low) "b_end b < b_addr n" | (high) "\<not> b_end b < b_addr n" "b_addr b > b_end n"
    | (touch) "\<not> b_end b < b_addr n" "\<not> b_addr b > b_end n" by linarith
  then show ?case
  proof cases
    case low
    obtain bs'' where r: "merge_loop n bs = (m, bs'')" "bs' = b # bs''"
      using "2.prems"(2) low by (auto simp: Let_def split: prod.splits)
    have ih: "range_of_block m \<union> addrs bs'' = range_of_block n \<union> addrs bs" "\<forall>b\<in>set bs''. apart b m"
      "blocks_ok bs''" "set bs'' \<subseteq> set bs"
      using "2.IH"(1) [OF low ok(1) r(1)] by auto
    have "b_end b \<le> b_addr m" "Suc (b_addr b) \<le> b_addr m"
      using merge_loop_lower [OF r(1), of "b_end b"] merge_loop_lower [OF r(1), of "Suc (b_addr b)"] low ok(2)
      by (auto simp: below_def Suc_le_eq)
    then have "below b m" by (simp add: below_def)
    then show ?thesis using ih ok r(2) by (auto simp: apart_def blocks_ok_Cons)
  next
    case high
    then have m: "m = n" "bs' = b # bs" using "2.prems"(2) by simp_all
    have "below n b" using high by (simp add: below_def)
    moreover have "below n c" if "c \<in> set bs" for c
      using that high ok(2) by (fastforce simp: below_def)
    ultimately show ?thesis using "2.prems"(1) m by (auto simp: apart_def)
  next
    case touch
    let ?min = "if b_addr b < b_addr n then b_addr b else b_addr n"
    let ?max = "if b_end b > b_end n then b_end b else b_end n"
    let ?n = "mk_block ?min (?max - ?min)"
    have "range_of_block ?n = range_of_block n \<union> range_of_block b"
      using touch by (auto simp: range_of_block_def)
    moreover have "merge_loop ?n bs = (m, bs')" using "2.prems"(2) touch by (simp add: Let_def)
    then have "range_of_block m \<union> addrs bs' = range_of_block ?n \<union> addrs bs \<and> (\<forall>b\<in>set bs'. apart b m) \<and>
        blocks_ok bs' \<and> set bs' \<subseteq> set bs"
      using "2.IH"(2) [OF touch refl refl ok(1)] by blast
    ultimately show ?thesis by auto
  qed
qed simp

lemma merge_loop_addr:
  assumes "merge_loop n bs = (m, bs')" and "b_addr n \<noteq> 0" and "\<forall>b\<in>set bs. b_addr b \<noteq> 0"
  shows "b_addr m \<noteq> 0"
  using merge_loop_lower [OF assms(1), of 1] assms(2,3) by (auto simp: Suc_le_eq)

lemma merge_overlap_blocks_spec:
  assumes "blocks_ok bs" and "b_addr n \<noteq> 0"
  shows "blocks_ok (merge_overlap_blocks n bs) \<and>
    addrs (merge_overlap_blocks n bs) = addrs bs \<union> range_of_block n"
proof -
  obtain m bs' where r: "merge_loop n bs = (m, bs')" by force
  have s: "range_of_block m \<union> addrs bs' = range_of_block n \<union> addrs bs" "\<forall>b\<in>set bs'. apart b m" "blocks_ok bs'"
    using merge_loop_spec [OF assms(1) r] by auto
  have "b_addr m \<noteq> 0" using merge_loop_addr [OF r assms(2)] assms(1) by (simp add: blocks_ok_def)
  moreover have "m \<notin> set bs'" using s(2) by (auto simp: apart_def below_def)
  moreover have "pairwise apart (set (bs' @ [m]))"
    using blocks_ok_apart(1) [OF s(3)] s(2) by (auto simp: pairwise_insert apart_def)
  ultimately have "blocks_ok (sort_key b_addr (bs' @ [m]))"
    using sort_apart [of "bs' @ [m]"] blocks_ok_apart(2) [OF s(3)] s(3) by (auto simp: blocks_ok_def)
  then show ?thesis using s(1) by (simp add: merge_overlap_blocks_def r) blast
qed

subsection \<open>Removing\<close>

definition within :: "block \<Rightarrow> block \<Rightarrow> bool" where
  "within x c \<longleftrightarrow> b_addr c \<le> b_addr x \<and> b_end x \<le> b_end c"

lemma pieces_spec:
  assumes "\<not> b_end b \<le> b_addr n" and "\<not> b_addr b \<ge> b_end n"
  shows "addrs (pieces n b) = range_of_block b - range_of_block n"
    and "\<forall>x\<in>set (pieces n b). within x b \<and> b_len x > 0"
    and "pairwise apart (set (pieces n b))" and "distinct (pieces n b)"
  using assms
  by (auto simp: pieces_def Let_def range_of_block_def within_def pairwise_def apart_def below_def)

lemma below_within: "below b c \<Longrightarrow> within x c \<Longrightarrow> below b x"
  by (auto simp: below_def within_def)

lemma within_below: "within x b \<Longrightarrow> b_len x > 0 \<Longrightarrow> below b c \<Longrightarrow> below x c"
  by (auto simp: below_def within_def)

text \<open>What the loop leaves of a list: pairwise apart blocks inside the blocks of the list.\<close>

definition leaves :: "block list \<Rightarrow> block \<Rightarrow> block list \<Rightarrow> bool" where
  "leaves bs n xs \<longleftrightarrow> addrs xs = addrs bs - range_of_block n \<and> pairwise apart (set xs) \<and> distinct xs \<and>
     (\<forall>x\<in>set xs. \<exists>c\<in>set bs. within x c)"

lemma leaves_append:
  assumes l: "leaves bs n xs" and b: "\<forall>c\<in>set bs. below b c"
    and ys: "addrs ys = range_of_block b - range_of_block n" "pairwise apart (set ys)" "distinct ys"
      "\<forall>y\<in>set ys. within y b \<and> (y = b \<or> b_len y > 0)"
    and zs: "set zs = set ys \<union> set xs" "addrs zs = addrs ys \<union> addrs xs" "length zs = length ys + length xs"
  shows "leaves (b # bs) n zs"
proof -
  have bel: "below y x" if "y \<in> set ys" "x \<in> set xs" for x y
  proof -
    obtain c where c: "c \<in> set bs" "within x c" using l \<open>x \<in> set xs\<close> unfolding leaves_def by blast
    have "below b c" using b c(1) by simp
    moreover have "within y b" "y = b \<or> b_len y > 0" using ys(4) that(1) by simp_all
    ultimately have "below y c" using within_below [of y b c] by (elim disjE) simp_all
    then show ?thesis using below_within c(2) by blast
  qed
  then have d: "set ys \<inter> set xs = {}" by (auto simp: below_def)
  have "card (set zs) = length zs"
    using d ys(3) l zs(1,3) by (simp add: card_Un_disjoint distinct_card leaves_def)
  then have "distinct zs" by (rule card_distinct)
  moreover have "pairwise apart (set zs)"
    using bel ys(2) l zs(1) by (auto simp: pairwise_def apart_def leaves_def)
  ultimately show ?thesis using l ys zs by (auto simp: leaves_def)
qed

lemma remove_loop_spec:
  assumes "blocks_ok bs" and "\<forall>b\<in>set bs. fst old < b_addr b"
  shows "\<exists>stay pushed. remove_loop n old bs = Ok (stay, pushed) \<and> leaves bs n (stay @ pushed)"
  using assms
proof (induction n old bs rule: remove_loop.induct)
  case (2 n old b bs)
  have ok: "blocks_ok bs" "\<forall>c\<in>set bs. below b c" "b_addr b \<noteq> 0" using "2.prems"(1) by (auto simp: blocks_ok_Cons)
  have nf: "\<not> (b_addr b = 0 \<or> (b_addr b, b_end b) = old)" using "2.prems"(2) ok(3) by auto
  have next_ok: "\<forall>c\<in>set bs. fst (b_addr b, b_end b) < b_addr c" using ok(2) by (auto simp: below_def)
  have self: "within b b" by (simp add: within_def)
  consider (low) "b_end b \<le> b_addr n" | (high) "\<not> b_end b \<le> b_addr n" "b_addr b \<ge> b_end n"
    | (overlap) "\<not> b_end b \<le> b_addr n" "\<not> b_addr b \<ge> b_end n" by linarith
  then show ?case
  proof cases
    case low
    obtain stay pushed where r: "remove_loop n (b_addr b, b_end b) bs = Ok (stay, pushed)" "leaves bs n (stay @ pushed)"
      using "2.IH"(1) [OF nf low ok(1) next_ok] by blast
    have "leaves (b # bs) n (b # stay @ pushed)"
      by (rule leaves_append [OF r(2) ok(2), of "[b]"]) (use low self in \<open>auto simp: range_of_block_def\<close>)
    then show ?thesis using nf low r(1) by simp
  next
    case high
    have "range_of_block n \<inter> addrs (b # bs) = {}"
      using high ok(2) by (fastforce simp: addrs_def range_of_block_def below_def)
    then have "leaves (b # bs) n (b # bs)"
      using blocks_ok_apart [OF "2.prems"(1)] by (auto simp: leaves_def within_def)
    then show ?thesis using nf high by simp
  next
    case overlap
    obtain stay pushed where r: "remove_loop n (b_addr b, b_end b) bs = Ok (stay, pushed)" "leaves bs n (stay @ pushed)"
      using "2.IH"(2) [OF nf overlap ok(1) next_ok] by blast
    have "leaves (b # bs) n (stay @ pieces n b @ pushed)"
      by (rule leaves_append [OF r(2) ok(2), of "pieces n b"]) (use pieces_spec [OF overlap] in auto)
    then show ?thesis using nf overlap r(1) by simp
  qed
qed (simp add: leaves_def)

lemma remove_overlap_blocks_spec:
  assumes "blocks_ok bs"
  shows "\<exists>bs'. remove_overlap_blocks n bs = Ok bs' \<and> blocks_ok bs' \<and> addrs bs' = addrs bs - range_of_block n"
proof -
  have nz: "\<forall>b\<in>set bs. b_addr b \<noteq> 0" using assms by (simp add: blocks_ok_def)
  then have "\<forall>b\<in>set bs. fst (0, 0) < b_addr b" by simp
  then obtain stay pushed where r: "remove_loop n (0, 0) bs = Ok (stay, pushed)" "leaves bs n (stay @ pushed)"
    using remove_loop_spec [OF assms] by blast
  let ?bs = "sort_key b_addr (stay @ pushed)"
  have "b_addr x \<noteq> 0" if "x \<in> set (stay @ pushed)" for x
  proof -
    obtain c where "c \<in> set bs" "within x c" using r(2) \<open>x \<in> set (stay @ pushed)\<close> unfolding leaves_def by blast
    then show ?thesis using nz by (auto simp: within_def)
  qed
  then have "blocks_ok ?bs" using sort_apart [of "stay @ pushed"] r(2) by (auto simp: leaves_def blocks_ok_def)
  then show ?thesis using r by (simp add: remove_overlap_blocks_def leaves_def)
qed

interpretation blocks: range_set blocks_ok addrs range_of_block "\<lambda>b. b_addr b \<noteq> 0" merge_overlap_blocks remove_overlap_blocks
  by unfold_locales (auto simp: merge_overlap_blocks_spec remove_overlap_blocks_spec)

section \<open>Property\<close>

text \<open>C15. On a sorted list of disjoint blocks, \<^verbatim>\<open>merge_overlap_blocks\<close> adds exactly the addresses of the new block
  and \<^verbatim>\<open>remove_overlap_blocks\<close> takes away exactly the addresses of the given block; both results are again sorted
  and disjoint, and the removal always ends.\<close>

theorem block_lists_are_sets:
  assumes "blocks_ok bs" and "b_addr n \<noteq> 0"
  shows "blocks_ok (merge_overlap_blocks n bs) \<and> addrs (merge_overlap_blocks n bs) = addrs bs \<union> range_of_block n \<and>
    (\<exists>bs'. remove_overlap_blocks n bs = Ok bs' \<and> blocks_ok bs' \<and> addrs bs' = addrs bs - range_of_block n)"
  using blocks.add_law [OF assms] blocks.del_law [OF assms(1), of n] by blast

theorem block_lists_are_sets_witness:
  "blocks_ok [mk_block 1 5, mk_block 8 4] \<and>
   merge_overlap_blocks (mk_block 6 1) [mk_block 1 5, mk_block 8 4] = [mk_block 1 6, mk_block 8 4] \<and>
   remove_overlap_blocks (mk_block 3 6) [mk_block 1 5, mk_block 8 4] = Ok [mk_block 1 2, mk_block 9 3] \<and>
   addrs (merge_overlap_blocks (mk_block 6 1) [mk_block 1 5, mk_block 8 4]) =
     addrs [mk_block 1 5, mk_block 8 4] \<union> {6..<7}"
proof -
  have ok: "blocks_ok [mk_block 1 5, mk_block 8 4]" by (simp add: blocks_ok_def below_def)
  have "b_addr (mk_block 6 1) \<noteq> 0" by simp
  from block_lists_are_sets [OF ok this] ok show ?thesis
    by (simp add: merge_overlap_blocks_def remove_overlap_blocks_def pieces_def Let_def range_of_block_def)
qed

end
