(* ===== verification/Mem_Arena.thy ===== *)
theory Mem_Arena
  imports Address_Ranges
begin

text \<open>
  The memory wrappers of the lower half (\<^verbatim>\<open>lower-half/mem-wrapper.cpp\<close>): the upper half's \<^verbatim>\<open>mmap\<close>, \<^verbatim>\<open>munmap\<close>
  and \<^verbatim>\<open>mremap\<close> jump to them, so that its mappings stay in an arena and are known at checkpoint time.  The
  wrappers keep a list of the allocated ranges and a list of the free ranges of the arena.

  The kernel is a parameter: the record \<open>kernel\<close> has the system calls as functions of a kernel state of an
  arbitrary type, and \<open>kernel_ok\<close> states what their manual pages promise.  Errors of a call are \<open>errno\<close>
  values.  The file of a mapping is known to be libc by \<open>k_is_libc\<close>, which stands for the \<^verbatim>\<open>readlink\<close> of its
  descriptor; the machine code that \<^verbatim>\<open>patchLibc\<close> and \<^verbatim>\<open>patchSbrk\<close> write is not modelled, only the heap that
  \<^verbatim>\<open>patchSbrk\<close> reserves.  Switching the thread register and blocking signals have no effect on this state.
\<close>

section \<open>The kernel\<close>

record 'k kernel =
  k_mmap :: "nat \<Rightarrow> nat \<Rightarrow> int \<Rightarrow> int \<Rightarrow> int \<Rightarrow> int \<Rightarrow> 'k \<Rightarrow> (int + nat) \<times> 'k"
  k_munmap :: "nat \<Rightarrow> nat \<Rightarrow> 'k \<Rightarrow> bool \<times> 'k"
  k_mremap :: "nat \<Rightarrow> nat \<Rightarrow> nat \<Rightarrow> int \<Rightarrow> nat \<Rightarrow> 'k \<Rightarrow> (int + nat) \<times> 'k"
  k_mprotect :: "nat \<Rightarrow> nat \<Rightarrow> int \<Rightarrow> 'k \<Rightarrow> bool \<times> 'k"
  k_madvise :: "nat \<Rightarrow> nat \<Rightarrow> 'k \<Rightarrow> bool \<times> 'k"
  k_brk :: "'k \<Rightarrow> nat"
  k_maps :: "'k \<Rightarrow> (nat \<times> nat) list"
  k_is_libc :: "int \<Rightarrow> bool"
  k_libc_symbols :: "int \<Rightarrow> bool"       \<comment> \<open>\<^verbatim>\<open>mmap\<close>, \<^verbatim>\<open>munmap\<close> and \<^verbatim>\<open>mremap\<close> are found\<close>
  k_sbrk_offset :: "int \<Rightarrow> nat"

abbreviation (input) PAGE_SIZE :: nat where "PAGE_SIZE \<equiv> 0x1000"
abbreviation (input) EEXIST :: int where "EEXIST \<equiv> 17"
abbreviation (input) ENOMEM :: int where "ENOMEM \<equiv> 12"
abbreviation (input) EINVAL :: int where "EINVAL \<equiv> 22"
abbreviation (input) PROT_NONE :: int where "PROT_NONE \<equiv> 0"
abbreviation (input) PROT_READ_WRITE :: int where "PROT_READ_WRITE \<equiv> 3"
abbreviation (input) PROT_WRITE :: int where "PROT_WRITE \<equiv> 2"
abbreviation (input) PROT_EXEC :: int where "PROT_EXEC \<equiv> 4"
abbreviation (input) MAP_PRIVATE_ANONYMOUS :: int where "MAP_PRIVATE_ANONYMOUS \<equiv> 0x22"
abbreviation (input) MAP_FIXED :: int where "MAP_FIXED \<equiv> 0x10"
abbreviation (input) MAP_NORESERVE :: int where "MAP_NORESERVE \<equiv> 0x4000"
abbreviation (input) MAP_FIXED_NOREPLACE :: int where "MAP_FIXED_NOREPLACE \<equiv> 0x100000"
abbreviation (input) MREMAP_MAYMOVE :: int where "MREMAP_MAYMOVE \<equiv> 1"
abbreviation (input) MREMAP_FIXED :: int where "MREMAP_FIXED \<equiv> 2"
abbreviation (input) MREMAP_DONTUNMAP :: int where "MREMAP_DONTUNMAP \<equiv> 4"
abbreviation (input) UH_BRK_RESERVE :: nat where "UH_BRK_RESERVE \<equiv> 2 ^ 36"

text \<open>What the manual pages promise of a call that succeeds: \<^verbatim>\<open>mmap\<close> never maps the null page, and maps at the
  given address with \<^verbatim>\<open>MAP_FIXED\<close> or \<^verbatim>\<open>MAP_FIXED_NOREPLACE\<close>; \<^verbatim>\<open>mremap\<close> takes the address of a mapping, which
  is not null, and gives one.\<close>

definition kernel_ok :: "'k kernel \<Rightarrow> bool" where
  "kernel_ok K \<longleftrightarrow>
     (\<forall>a n prot flags fd off k p. fst (k_mmap K a n prot flags fd off k) = Inr p \<longrightarrow>
        p \<noteq> 0 \<and> (flags AND (MAP_FIXED OR MAP_FIXED_NOREPLACE) \<noteq> 0 \<longrightarrow> p = a)) \<and>
     (\<forall>a n m flags b k p. fst (k_mremap K a n m flags b k) = Inr p \<longrightarrow> a \<noteq> 0 \<and> p \<noteq> 0)"

section \<open>State\<close>

text \<open>The heap of the upper half.\<close>

record UhBrk =
  brk :: nat
  base :: nat
  heap_end :: nat
  libc_text :: nat
  libc_text_end :: nat

record arena =
  allocated_blocks :: "block list"
  free_blocks :: "block list"
  max_allocated_addr :: nat
  arena_base :: nat
  libc_base_addr :: nat
  uh_brk :: "UhBrk option"
  has_map_fixed_noreplace :: "bool option"

type_synonym ('k, 'a) mem = "arena \<Rightarrow> 'k \<Rightarrow> ('a \<times> arena \<times> 'k) result"

definition ROUND_UP :: "nat \<Rightarrow> nat \<Rightarrow> nat" where
  "ROUND_UP a n = nat ((int a + int n - 1) AND NOT (int n - 1))"

section \<open>Choosing an address\<close>

definition align_mask :: "nat \<Rightarrow> nat" where
  "align_mask hint =
     (let hint_align = nat (int hint AND - int hint)
      in if hint \<noteq> 0 \<and> hint_align > PAGE_SIZE \<and> hint_align \<le> 2 ^ 21
         then (PAGE_SIZE - 1) OR (hint_align - 1) else PAGE_SIZE - 1)"

definition fits :: "nat \<Rightarrow> nat \<Rightarrow> block \<Rightarrow> bool" where
  "fits al n b \<longleftrightarrow> ROUND_UP (b_addr b) (al + 1) - b_addr b + n \<le> b_len b"

definition next_free_addr :: "nat \<Rightarrow> nat \<Rightarrow> block list \<Rightarrow> nat option" where
  "next_free_addr hint n bs =
     (let al = align_mask hint
      in map_option (\<lambda>b. ROUND_UP (b_addr b) (al + 1)) (find (fits al n) bs))"

definition init_mem_arena :: "'k kernel \<Rightarrow> nat \<Rightarrow> arena \<Rightarrow> 'k \<Rightarrow> arena" where
  "init_mem_arena K bs a k =
     (let n = (case find (\<lambda>(start, fin). start \<ge> bs) (k_maps K k) of
                 Some (start, fin) \<Rightarrow> start - bs
               | None \<Rightarrow> (2 ^ 64 - 1) div 2)
      in a \<lparr> arena_base := bs, free_blocks := [mk_block bs n] \<rparr>)"

definition init_mem_arena_after_restore :: "'k kernel \<Rightarrow> arena \<Rightarrow> 'k \<Rightarrow> arena" where
  "init_mem_arena_after_restore K a k = init_mem_arena K (ROUND_UP (max_allocated_addr a) PAGE_SIZE) a k"

text \<open>\<^verbatim>\<open>mmap_fixed_noreplace\<close>: the first call finds out whether the kernel knows \<^verbatim>\<open>MAP_FIXED_NOREPLACE\<close>.\<close>

definition probe_noreplace :: "'k kernel \<Rightarrow> 'k \<Rightarrow> ((int + bool) \<times> 'k) result" where
  "probe_noreplace K k =
     (case k_mmap K 0 PAGE_SIZE PROT_NONE MAP_PRIVATE_ANONYMOUS (-1) 0 k of
        (Inl e, k) \<Rightarrow> Ok (Inl e, k)
      | (Inr p, k) \<Rightarrow>
          (case k_mmap K p PAGE_SIZE PROT_NONE (MAP_PRIVATE_ANONYMOUS OR MAP_FIXED_NOREPLACE) (-1) 0 k of
             (Inr q, k) \<Rightarrow> Fault Assert_failed
           | (Inl e, k) \<Rightarrow>
               (case k_munmap K p PAGE_SIZE k of
                  (True, k) \<Rightarrow> Ok (Inr (e = EEXIST), k)
                | (False, k) \<Rightarrow> Fault Assert_failed)))"

definition clear_flag :: "int \<Rightarrow> int \<Rightarrow> int" where
  "clear_flag flags f = (if flags AND f \<noteq> 0 then flags XOR f else flags)"

definition map_noreplace ::
  "'k kernel \<Rightarrow> bool \<Rightarrow> nat \<Rightarrow> nat \<Rightarrow> int \<Rightarrow> int \<Rightarrow> int \<Rightarrow> int \<Rightarrow> 'k \<Rightarrow> ((int + nat) \<times> 'k) result"
where
  "map_noreplace K has a n prot flags fd off k =
     (let flags = clear_flag flags MAP_FIXED
      in if has then Ok (k_mmap K a n prot (flags OR MAP_FIXED_NOREPLACE) fd off k)
         else let flags = clear_flag flags MAP_FIXED_NOREPLACE
              in case k_mmap K a n prot flags fd off k of
                   (Inl e, k) \<Rightarrow> Ok (Inl e, k)
                 | (Inr p, k) \<Rightarrow>
                     if p = a then Ok (Inr a, k)
                     else (case k_munmap K p n k of
                             (True, k) \<Rightarrow> Ok (Inl EEXIST, k)
                           | (False, k) \<Rightarrow> Fault Assert_failed))"

definition mmap_fixed_noreplace ::
  "'k kernel \<Rightarrow> nat \<Rightarrow> nat \<Rightarrow> int \<Rightarrow> int \<Rightarrow> int \<Rightarrow> int \<Rightarrow> ('k, int + nat) mem"
where
  "mmap_fixed_noreplace K a n prot flags fd off ar k =
     bind_result (case has_map_fixed_noreplace ar of Some b \<Rightarrow> Ok (Inr b, k) | None \<Rightarrow> probe_noreplace K k)
       (\<lambda>(r, k). case r of
          Inl e \<Rightarrow> Ok (Inl e, ar, k)
        | Inr b \<Rightarrow> bind_result (map_noreplace K b a n prot flags fd off k)
            (\<lambda>(r, k). Ok (r, ar \<lparr> has_map_fixed_noreplace := Some b \<rparr>, k)))"

text \<open>The mappings that \<^verbatim>\<open>arena_mmap\<close> meets leave the free list.\<close>

fun drop_mapped :: "nat \<Rightarrow> nat \<Rightarrow> (nat \<times> nat) list \<Rightarrow> block list \<Rightarrow> block list result" where
  "drop_mapped a n [] bs = Ok bs"
| "drop_mapped a n ((start, fin) # maps) bs =
     bind_result (if start < a + n \<and> fin > a then remove_overlap_blocks (mk_block start (fin - start)) bs else Ok bs)
       (\<lambda>bs. if start \<ge> a + n then Ok bs else drop_mapped a n maps bs)"

fun arena_tries :: "'k kernel \<Rightarrow> nat \<Rightarrow> nat \<Rightarrow> nat \<Rightarrow> int \<Rightarrow> int \<Rightarrow> int \<Rightarrow> int \<Rightarrow> ('k, int + nat) mem" where
  "arena_tries K 0 hint n prot flags fd off ar k = Ok (Inl ENOMEM, ar, k)"
| "arena_tries K (Suc tries) hint n prot flags fd off ar k =
     (case next_free_addr hint n (free_blocks ar) of
        None \<Rightarrow> Ok (Inl ENOMEM, ar, k)
      | Some a \<Rightarrow>
          bind_result (mmap_fixed_noreplace K a n prot flags fd off ar k) (\<lambda>(r, ar, k).
            case r of
              Inr p \<Rightarrow> Ok (Inr p, ar \<lparr> max_allocated_addr := (if a + n > max_allocated_addr ar then a + n
                                                               else max_allocated_addr ar) \<rparr>, k)
            | Inl e \<Rightarrow>
                if e \<noteq> EEXIST then Ok (Inl e, ar, k)
                else bind_result (drop_mapped a n (k_maps K k) (free_blocks ar)) (\<lambda>bs.
                       arena_tries K tries hint n prot flags fd off (ar \<lparr> free_blocks := bs \<rparr>) k)))"

definition arena_mmap :: "'k kernel \<Rightarrow> nat \<Rightarrow> nat \<Rightarrow> int \<Rightarrow> int \<Rightarrow> int \<Rightarrow> int \<Rightarrow> ('k, int + nat) mem" where
  "arena_mmap K = arena_tries K 16"

section \<open>The wrappers\<close>

text \<open>A new mapping: it is allocated and no longer free.\<close>

definition add_mapping :: "nat \<Rightarrow> nat \<Rightarrow> arena \<Rightarrow> arena result" where
  "add_mapping p n ar =
     (let ar = ar \<lparr> allocated_blocks := merge_overlap_blocks (mk_block p n) (allocated_blocks ar) \<rparr>
      in bind_result (remove_overlap_blocks (mk_block p n) (free_blocks ar)) (\<lambda>bs. Ok (ar \<lparr> free_blocks := bs \<rparr>)))"

definition drop_mapping :: "nat \<Rightarrow> nat \<Rightarrow> arena \<Rightarrow> arena result" where
  "drop_mapping p n ar =
     bind_result (remove_overlap_blocks (mk_block p n) (allocated_blocks ar)) (\<lambda>bs.
       Ok (ar \<lparr> allocated_blocks := bs, free_blocks := merge_overlap_blocks (mk_block p n) (free_blocks ar) \<rparr>))"

definition restore_mmap :: "'k kernel \<Rightarrow> nat \<Rightarrow> nat \<Rightarrow> int \<Rightarrow> int \<Rightarrow> int \<Rightarrow> int \<Rightarrow> ('k, int + nat) mem" where
  "restore_mmap K a n prot flags fd off ar k =
     (let n = ROUND_UP n PAGE_SIZE;
          ar = ar \<lparr> max_allocated_addr := (if a + n > max_allocated_addr ar then a + n else max_allocated_addr ar) \<rparr>
      in case k_mmap K a n prot (flags OR MAP_FIXED) fd off k of
           (Inl e, k) \<Rightarrow> Ok (Inl e, ar, k)
         | (Inr p, k) \<Rightarrow> bind_result (add_mapping a n ar) (\<lambda>ar. Ok (Inr p, ar, k)))"

text \<open>\<^verbatim>\<open>__mmap_wrapper\<close> up to the block lists.\<close>

definition mmap_blocks :: "'k kernel \<Rightarrow> nat \<Rightarrow> nat \<Rightarrow> int \<Rightarrow> int \<Rightarrow> int \<Rightarrow> int \<Rightarrow> ('k, int + nat) mem" where
  "mmap_blocks K a n prot flags fd off ar k =
     (let chosen = (arena_base ar \<noteq> 0 \<and>
            (a = 0 \<or> flags AND MAP_FIXED = 0 \<or> (max_allocated_addr ar \<noteq> 0 \<and> a > max_allocated_addr ar)));
          flags = (if arena_base ar \<noteq> 0 then (flags AND NOT MAP_FIXED_NOREPLACE) OR MAP_FIXED else flags)
      in bind_result (if chosen then arena_mmap K a n prot flags fd off ar k
                      else (case k_mmap K a n prot flags fd off k of (r, k) \<Rightarrow> Ok (r, ar, k))) (\<lambda>(r, ar, k).
           case r of
             Inl e \<Rightarrow> Ok (Inl e, ar, k)
           | Inr p \<Rightarrow> bind_result (add_mapping p n ar) (\<lambda>ar. Ok (Inr p, ar, k))))"

text \<open>\<^verbatim>\<open>patchSbrk\<close>: the reserved heap.  \<^verbatim>\<open>mmap\<close> of an anonymous mapping is not one of libc.\<close>

definition patchSbrk :: "'k kernel \<Rightarrow> nat \<Rightarrow> nat \<Rightarrow> ('k, unit) mem" where
  "patchSbrk K text n ar k =
     bind_result (mmap_blocks K 0 UH_BRK_RESERVE PROT_NONE (MAP_PRIVATE_ANONYMOUS OR MAP_NORESERVE) (-1) 0 ar k)
       (\<lambda>(r, ar, k). case r of
          Inl e \<Rightarrow> Ok ((), ar, k)
        | Inr p \<Rightarrow>
            (case k_mprotect K p PAGE_SIZE PROT_READ_WRITE k of
               (False, k) \<Rightarrow> Ok ((), ar, k)
             | (True, k) \<Rightarrow>
                 Ok ((), ar \<lparr> uh_brk := Some \<lparr> brk = p + PAGE_SIZE, base = p + PAGE_SIZE,
                   heap_end = p + UH_BRK_RESERVE, libc_text = text, libc_text_end = text + n \<rparr> \<rparr>, k)))"

definition patch_mapping :: "'k kernel \<Rightarrow> nat \<Rightarrow> nat \<Rightarrow> int \<Rightarrow> int \<Rightarrow> ('k, int + nat) mem" where
  "patch_mapping K p n prot fd ar k =
     (let ar = (if libc_base_addr ar = 0 then ar \<lparr> libc_base_addr := p \<rparr> else ar)
      in if prot AND PROT_EXEC = 0 then Ok (Inr p, ar, k)
         else case k_mprotect K p n (prot OR PROT_WRITE) k of
                (False, k) \<Rightarrow> Ok (Inr 0, ar, k)
              | (True, k) \<Rightarrow>
                  if \<not> k_libc_symbols K fd then Fault Assert_failed
                  else bind_result (if k_sbrk_offset K fd \<noteq> 0 then patchSbrk K p n ar k else Ok ((), ar, k))
                    (\<lambda>(_, ar, k). case k_mprotect K p n prot k of
                       (False, k) \<Rightarrow> Ok (Inr 0, ar, k)
                     | (True, k) \<Rightarrow> Ok (Inr p, ar \<lparr> libc_base_addr := 0 \<rparr>, k)))"

definition mmap_wrapper :: "'k kernel \<Rightarrow> nat \<Rightarrow> nat \<Rightarrow> int \<Rightarrow> int \<Rightarrow> int \<Rightarrow> int \<Rightarrow> ('k, int + nat) mem" where
  "mmap_wrapper K a n prot flags fd off ar k =
     (let n = ROUND_UP n PAGE_SIZE
      in bind_result (mmap_blocks K a n prot flags fd off ar k) (\<lambda>(r, ar, k).
           case r of
             Inl e \<Rightarrow> Ok (Inl e, ar, k)
           | Inr p \<Rightarrow> if fd > 0 \<and> k_is_libc K fd then patch_mapping K p n prot fd ar k else Ok (Inr p, ar, k)))"

definition munmap_wrapper :: "'k kernel \<Rightarrow> nat \<Rightarrow> nat \<Rightarrow> ('k, bool) mem" where
  "munmap_wrapper K a n ar k =
     (if a = 0 then Ok (False, ar, k)
      else let n = ROUND_UP n PAGE_SIZE
           in case k_munmap K a n k of
                (False, k) \<Rightarrow> Ok (False, ar, k)
              | (True, k) \<Rightarrow> bind_result (drop_mapping a n ar) (\<lambda>ar. Ok (True, ar, k)))"

definition is_free_range :: "nat \<Rightarrow> nat \<Rightarrow> block list \<Rightarrow> bool" where
  "is_free_range a n bs \<longleftrightarrow> list_ex (\<lambda>b. b_addr b \<le> a \<and> a + n \<le> b_end b) bs"

text \<open>\<^verbatim>\<open>__mremap_wrapper\<close>: in place first, and then a move to a range that the arena reserves.\<close>

definition remap_in_place :: "'k kernel \<Rightarrow> nat \<Rightarrow> nat \<Rightarrow> nat \<Rightarrow> int \<Rightarrow> ('k, int + nat) mem" where
  "remap_in_place K old old_size new_size flags ar k =
     (if flags AND MREMAP_DONTUNMAP = 0 \<and>
         (new_size \<le> old_size \<or> is_free_range (old + old_size) (new_size - old_size) (free_blocks ar))
      then (case k_mremap K old old_size new_size 0 0 k of (r, k) \<Rightarrow> Ok (r, ar, k))
      else Ok (Inl ENOMEM, ar, k))"

definition remap_moving :: "'k kernel \<Rightarrow> nat \<Rightarrow> nat \<Rightarrow> nat \<Rightarrow> int \<Rightarrow> ('k, int + nat) mem" where
  "remap_moving K old old_size new_size flags ar k =
     bind_result (arena_mmap K 0 new_size PROT_NONE (MAP_PRIVATE_ANONYMOUS OR MAP_NORESERVE OR MAP_FIXED) (-1) 0 ar k)
       (\<lambda>(r, ar, k). case r of
          Inl e \<Rightarrow> Ok (Inl e, ar, k)
        | Inr dest \<Rightarrow>
            (case k_mremap K old old_size new_size
                    (MREMAP_MAYMOVE OR MREMAP_FIXED OR (flags AND MREMAP_DONTUNMAP)) dest k of
               (Inr p, k) \<Rightarrow> Ok (Inr p, ar, k)
             | (Inl e, k) \<Rightarrow> (case k_munmap K dest new_size k of (_, k) \<Rightarrow> Ok (Inl e, ar, k))))"

definition remap :: "'k kernel \<Rightarrow> nat \<Rightarrow> nat \<Rightarrow> nat \<Rightarrow> int \<Rightarrow> nat \<Rightarrow> ('k, int + nat) mem" where
  "remap K old old_size new_size flags new ar k =
     (let dontunmap = flags AND MREMAP_DONTUNMAP;
          other_flags = flags AND NOT (MREMAP_MAYMOVE OR MREMAP_FIXED OR dontunmap);
          invalid = (other_flags \<noteq> 0 \<or> (dontunmap \<noteq> 0 \<and> flags AND MREMAP_MAYMOVE = 0))
      in if arena_base ar = 0 \<or> old_size = 0 \<or> flags AND MREMAP_FIXED \<noteq> 0 \<or> invalid
         then (case k_mremap K old old_size new_size flags new k of (r, k) \<Rightarrow> Ok (r, ar, k))
         else bind_result (remap_in_place K old old_size new_size flags ar k) (\<lambda>(r, ar, k).
                case r of
                  Inr p \<Rightarrow> Ok (Inr p, ar, k)
                | Inl e \<Rightarrow> if flags AND MREMAP_MAYMOVE \<noteq> 0
                           then remap_moving K old old_size new_size flags ar k else Ok (Inl e, ar, k)))"

definition mremap_wrapper :: "'k kernel \<Rightarrow> nat \<Rightarrow> nat \<Rightarrow> nat \<Rightarrow> int \<Rightarrow> nat \<Rightarrow> ('k, int + nat) mem" where
  "mremap_wrapper K old old_size new_size flags new ar k =
     (let old_size = ROUND_UP old_size PAGE_SIZE; new_size = ROUND_UP new_size PAGE_SIZE
      in bind_result (remap K old old_size new_size flags new ar k) (\<lambda>(r, ar, k).
           case r of
             Inl e \<Rightarrow> Ok (Inl e, ar, k)
           | Inr p \<Rightarrow>
               bind_result (if flags AND MREMAP_DONTUNMAP = 0 then drop_mapping old old_size ar else Ok ar) (\<lambda>ar.
               bind_result (add_mapping p new_size ar) (\<lambda>ar.
               Ok (Inr p, ar \<lparr> max_allocated_addr := (if p + new_size > max_allocated_addr ar then p + new_size
                                                       else max_allocated_addr ar) \<rparr>, k)))))"

text \<open>The upper half's \<^verbatim>\<open>sbrk\<close>; \<open>None\<close> is \<^verbatim>\<open>(void*)-1\<close>.\<close>

definition uhSbrk :: "'k kernel \<Rightarrow> int \<Rightarrow> nat \<Rightarrow> UhBrk \<Rightarrow> 'k \<Rightarrow> nat option \<times> UhBrk \<times> 'k" where
  "uhSbrk K increment caller h k =
     (if caller < libc_text h \<or> caller \<ge> libc_text_end h
      then (if increment = 0 then Some (k_brk K k) else None, h, k)
      else let old = brk h; new = int old + increment
           in if new \<ge> int (base h) \<and> new \<le> int (heap_end h)
              then let start = ROUND_UP old PAGE_SIZE; stop = ROUND_UP (nat new) PAGE_SIZE;
                       (ok, k) =
                         (if stop > start then k_mprotect K start (stop - start) PROT_READ_WRITE k
                          else if stop < start
                          then (case k_madvise K stop (start - stop) k of
                                  (True, k) \<Rightarrow> k_mprotect K stop (start - stop) PROT_NONE k
                                | (False, k) \<Rightarrow> (False, k))
                          else (True, k))
                   in if ok then (Some old, h \<lparr> brk := nat new \<rparr>, k) else (None, h, k)
              else (None, h, k))"

text \<open>\<^verbatim>\<open>lock_wrappers\<close> and \<^verbatim>\<open>unlock_wrappers\<close>: the owner (0 for none) and the depth; the lock spins while another
  thread is the owner.\<close>

definition lock_wrappers :: "nat \<Rightarrow> nat \<times> int \<Rightarrow> (nat \<times> int) result" where
  "lock_wrappers self l =
     (case l of (owner, d) \<Rightarrow>
        if owner = self then Ok (owner, d + 1) else if owner = 0 then Ok (self, 1) else Fault Spin)"

definition unlock_wrappers :: "nat \<times> int \<Rightarrow> nat \<times> int" where
  "unlock_wrappers l = (case l of (owner, d) \<Rightarrow> if d - 1 = 0 then (0, d - 1) else (owner, d - 1))"

section \<open>The invariant of the two lists\<close>

definition arena_ok :: "arena \<Rightarrow> bool" where
  "arena_ok ar \<longleftrightarrow> blocks_ok (allocated_blocks ar) \<and> blocks_ok (free_blocks ar) \<and>
     addrs (allocated_blocks ar) \<inter> addrs (free_blocks ar) = {}"

text \<open>A step of the wrappers: it never spins, and it keeps the invariant.\<close>

definition keeps :: "('a \<times> arena \<times> 'k) result \<Rightarrow> bool" where
  "keeps r \<longleftrightarrow> (case r of Inl e \<Rightarrow> e \<noteq> Spin | Inr (x, ar, k) \<Rightarrow> arena_ok ar)"

lemma add_mapping_ok:
  assumes "arena_ok ar" and "p \<noteq> 0"
  shows "\<exists>ar'. add_mapping p n ar = Ok ar' \<and> arena_ok ar' \<and> arena_base ar' = arena_base ar \<and>
    addrs (allocated_blocks ar') = addrs (allocated_blocks ar) \<union> {p..<p + n} \<and>
    addrs (free_blocks ar') = addrs (free_blocks ar) - {p..<p + n}"
  using blocks.move_disjoint [of "allocated_blocks ar" "free_blocks ar" "mk_block p n"] assms
  by (auto simp: arena_ok_def add_mapping_def range_of_block_def Let_def)

lemma drop_mapping_ok:
  assumes "arena_ok ar" and "p \<noteq> 0"
  shows "\<exists>ar'. drop_mapping p n ar = Ok ar' \<and> arena_ok ar' \<and> arena_base ar' = arena_base ar \<and>
    addrs (allocated_blocks ar') = addrs (allocated_blocks ar) - {p..<p + n} \<and>
    addrs (free_blocks ar') = addrs (free_blocks ar) \<union> {p..<p + n}"
proof -
  have "addrs (free_blocks ar) \<inter> addrs (allocated_blocks ar) = {}" using assms(1) by (auto simp: arena_ok_def)
  then show ?thesis
    using blocks.move_disjoint [of "free_blocks ar" "allocated_blocks ar" "mk_block p n"] assms
    by (auto simp: arena_ok_def drop_mapping_def range_of_block_def Let_def)
qed

subsection \<open>Rounding and fitting\<close>

lemma round_up_ge: "0 < n \<Longrightarrow> a \<le> ROUND_UP a n"
proof -
  assume n: "0 < n"
  let ?x = "int a + int n - 1" and ?m = "int n - 1"
  have "?x AND ?m \<le> ?m" using n by (intro AND_upper2) simp
  moreover have "?x = (?x AND ?m) + (?x AND NOT ?m)"
    by (subst disjunctive_add) (auto simp: bit_simps intro!: bit_eqI)
  ultimately have "int a \<le> ?x AND NOT ?m" by linarith
  then show ?thesis unfolding ROUND_UP_def by linarith
qed

lemma bit_low_mask: "bit (0xfff::nat) i \<longleftrightarrow> i < 12"
proof -
  have "(0xfff::nat) = mask 12" by (simp add: mask_eq_exp_minus_1)
  then show ?thesis by (simp only: bit_mask_iff) simp
qed

lemma align_mask_bit: "i < 12 \<Longrightarrow> bit (align_mask hint) i"
  by (simp add: align_mask_def Let_def bit_or_iff bit_low_mask [simplified])

lemma round_up_page: "ROUND_UP a (align_mask hint + 1) mod 4096 = 0"
proof -
  let ?x = "int a + int (align_mask hint + 1) - 1"
  have "take_bit 12 (?x AND NOT (int (align_mask hint))) = 0"
    by (rule bit_eqI) (simp add: bit_simps align_mask_bit)
  then have "(?x AND NOT (int (align_mask hint))) mod 4096 = 0" by (simp add: take_bit_eq_mod)
  moreover have "0 \<le> ?x AND NOT (int (align_mask hint))" by simp
  ultimately have "nat (?x AND NOT (int (align_mask hint))) mod 4096 = 0"
    using nat_mod_distrib [of "?x AND NOT (int (align_mask hint))" 4096] by simp
  then show ?thesis by (simp add: ROUND_UP_def)
qed

lemma next_free_addr_spec:
  assumes "next_free_addr hint n bs = Some a"
  shows "\<exists>b\<in>set bs. b_addr b \<le> a \<and> a + n \<le> b_end b" and "a mod 4096 = 0"
proof -
  obtain b where b: "find (fits (align_mask hint) n) bs = Some b" "a = ROUND_UP (b_addr b) (align_mask hint + 1)"
    using assms by (auto simp: next_free_addr_def Let_def)
  have "b \<in> set bs" "fits (align_mask hint) n b" using b(1) by (auto simp: find_Some_iff)
  moreover have "b_addr b \<le> a" unfolding b(2) by (rule round_up_ge) simp
  ultimately show "\<exists>b\<in>set bs. b_addr b \<le> a \<and> a + n \<le> b_end b" using b(2) by (auto simp: fits_def)
  show "a mod 4096 = 0" unfolding b(2) by (rule round_up_page)
qed

subsection \<open>The arena\<close>

lemma noreplace_flag: "(x OR 0x100000) AND (0x10 OR 0x100000) \<noteq> (0::int)"
proof
  assume "(x OR 0x100000) AND (0x10 OR 0x100000) = (0::int)"
  then have "\<not> bit ((x OR 0x100000) AND (0x10 OR 0x100000)) 20" by simp
  moreover have "bit (0x100000::int) 20" by (simp add: bit_iff_odd)
  ultimately show False by (simp add: bit_simps)
qed

lemma map_noreplace_addr:
  assumes "kernel_ok K" and "map_noreplace K has a n prot flags fd off k = Ok (Inr p, k')"
  shows "p = a"
proof (cases has)
  case True
  define fl where "fl = clear_flag flags MAP_FIXED"
  have "fst (k_mmap K a n prot (fl OR MAP_FIXED_NOREPLACE) fd off k) = Inr p"
    using assms(2) True by (simp add: map_noreplace_def fl_def Let_def)
  then show ?thesis using assms(1) noreplace_flag [of fl] by (simp add: kernel_ok_def)
next
  case False
  then show ?thesis using assms(2)
    by (auto simp: map_noreplace_def Let_def split: prod.splits sum.splits if_splits bool.splits)
qed

lemma mmap_fixed_noreplace_spec:
  assumes "kernel_ok K"
  shows "mmap_fixed_noreplace K a n prot flags fd off ar k \<noteq> Fault Spin"
    and "mmap_fixed_noreplace K a n prot flags fd off ar k = Ok (r, ar', k') \<Longrightarrow>
      (\<exists>h. ar' = ar \<lparr> has_map_fixed_noreplace := h \<rparr>) \<and> (\<forall>p. r = Inr p \<longrightarrow> p = a)"
proof -
  have p: "probe_noreplace K k \<noteq> Fault Spin"
    by (auto simp: probe_noreplace_def split: prod.split sum.split bool.split)
  have m: "map_noreplace K b a n prot flags fd off k1 \<noteq> Fault Spin" for b k1
    by (auto simp: map_noreplace_def Let_def split: prod.split sum.split bool.split)
  have "(case has_map_fixed_noreplace ar of Some b \<Rightarrow> Ok (Inr b, k) | None \<Rightarrow> probe_noreplace K k) \<noteq> Fault Spin"
    using p by (simp split: option.split)
  moreover have "(case q of (Inl e, k1) \<Rightarrow> Ok (Inl e, ar, k1)
      | (Inr b, k1) \<Rightarrow> bind_result (map_noreplace K b a n prot flags fd off k1)
          (\<lambda>(r, k). Ok (r, ar \<lparr> has_map_fixed_noreplace := Some b \<rparr>, k))) \<noteq> Fault Spin" for q
    using m by (cases q; cases "fst q") (auto simp: bind_result_Fault_iff)
  ultimately show "mmap_fixed_noreplace K a n prot flags fd off ar k \<noteq> Fault Spin"
    unfolding mmap_fixed_noreplace_def bind_result_Fault_iff by (auto split: prod.splits)
  show "(\<exists>h. ar' = ar \<lparr> has_map_fixed_noreplace := h \<rparr>) \<and> (\<forall>p. r = Inr p \<longrightarrow> p = a)"
    if ok: "mmap_fixed_noreplace K a n prot flags fd off ar k = Ok (r, ar', k')"
  proof -
    obtain q k1 where q: "(case has_map_fixed_noreplace ar of Some b \<Rightarrow> Ok (Inr b, k) | None \<Rightarrow> probe_noreplace K k) = Ok (q, k1)"
      "(case q of Inl e \<Rightarrow> Ok (Inl e, ar, k1)
        | Inr b \<Rightarrow> bind_result (map_noreplace K b a n prot flags fd off k1)
            (\<lambda>(r, k). Ok (r, ar \<lparr> has_map_fixed_noreplace := Some b \<rparr>, k))) = Ok (r, ar', k')"
      using ok unfolding mmap_fixed_noreplace_def bind_result_Ok_iff by auto
    show ?thesis
    proof (cases q)
      case (Inl e)
      then show ?thesis using q(2) by (auto intro: exI [of _ "has_map_fixed_noreplace ar"])
    next
      case (Inr b)
      then have "map_noreplace K b a n prot flags fd off k1 = Ok (r, k')"
        "ar' = ar \<lparr> has_map_fixed_noreplace := Some b \<rparr>"
        using q(2) by (auto simp: bind_result_Ok_iff)
      then show ?thesis using map_noreplace_addr [OF assms] by auto
    qed
  qed
qed

lemma drop_mapped_ok:
  "blocks_ok bs \<Longrightarrow> \<exists>bs'. drop_mapped a n maps bs = Ok bs' \<and> blocks_ok bs' \<and> addrs bs' \<subseteq> addrs bs"
proof (induction a n maps bs rule: drop_mapped.induct)
  case (2 a n start fin maps bs)
  let ?r = "if start < a + n \<and> fin > a then remove_overlap_blocks (mk_block start (fin - start)) bs else Ok bs"
  obtain bs0 where "remove_overlap_blocks (mk_block start (fin - start)) bs = Ok bs0" "blocks_ok bs0"
    "addrs bs0 = addrs bs - range_of_block (mk_block start (fin - start))"
    using blocks.del_law [OF "2.prems"] by blast
  then have "\<exists>bs1. ?r = Ok bs1 \<and> blocks_ok bs1 \<and> addrs bs1 \<subseteq> addrs bs"
    using "2.prems" by (cases "start < a + n \<and> fin > a") auto
  then obtain bs1 where r: "?r = Ok bs1" "blocks_ok bs1" "addrs bs1 \<subseteq> addrs bs" by blast
  show ?case
  proof (cases "start \<ge> a + n")
    case True
    then show ?thesis using r "2.prems" by simp
  next
    case False
    obtain bs2 where "drop_mapped a n maps bs1 = Ok bs2" "blocks_ok bs2" "addrs bs2 \<subseteq> addrs bs1"
      using "2.IH" [OF r(1) False r(2)] by blast
    moreover have "drop_mapped a n ((start, fin) # maps) bs = drop_mapped a n maps bs1"
      unfolding drop_mapped.simps r(1) using False by simp
    ultimately show ?thesis using r(3) by auto
  qed
qed auto

text \<open>What the arena gives: a page-aligned range that is free, and the allocated list as it was.\<close>

definition gives_free :: "arena \<Rightarrow> nat \<Rightarrow> ((int + nat) \<times> arena \<times> 'k) result \<Rightarrow> bool" where
  "gives_free ar n x \<longleftrightarrow> x \<noteq> Fault Spin \<and> (\<forall>r ar' k'. x = Ok (r, ar', k') \<longrightarrow>
     arena_ok ar' \<and> allocated_blocks ar' = allocated_blocks ar \<and> arena_base ar' = arena_base ar \<and>
     addrs (free_blocks ar') \<subseteq> addrs (free_blocks ar) \<and>
     (\<forall>p. r = Inr p \<longrightarrow> p \<noteq> 0 \<and> p mod 4096 = 0 \<and> {p..<p + n} \<subseteq> addrs (free_blocks ar')))"

lemma gives_free_mono:
  assumes "gives_free ar1 n x" and "allocated_blocks ar1 = allocated_blocks ar" and "arena_base ar1 = arena_base ar"
    and "addrs (free_blocks ar1) \<subseteq> addrs (free_blocks ar)"
  shows "gives_free ar n x"
  using assms(1) unfolding gives_free_def assms(2,3) by (intro conjI allI impI) (use assms(4) in auto)

lemma arena_tries_spec:
  assumes "kernel_ok K" and "arena_ok ar"
  shows "gives_free ar n (arena_tries K m hint n prot flags fd off ar k)"
  using assms(2)
proof (induction m arbitrary: ar k)
  case (Suc m)
  show ?case
  proof (cases "next_free_addr hint n (free_blocks ar)")
    case None
    then show ?thesis using Suc.prems by (simp add: gives_free_def)
  next
    case (Some a)
    note ns = mmap_fixed_noreplace_spec [OF assms(1), of a n prot flags fd off ar k]
    obtain b where b: "b \<in> set (free_blocks ar)" "b_addr b \<le> a" "a + n \<le> b_end b"
      using next_free_addr_spec(1) [OF Some] by (elim bexE conjE)
    note pg = next_free_addr_spec(2) [OF Some]
    have fr: "{a..<a + n} \<subseteq> addrs (free_blocks ar)" using b by (force simp: addrs_def range_of_block_def)
    have a0: "a \<noteq> 0" using b Suc.prems by (auto simp: arena_ok_def blocks_ok_def)
    show ?thesis
    proof (cases "mmap_fixed_noreplace K a n prot flags fd off ar k")
      case (Inl e)
      then show ?thesis using ns(1) Some by (simp add: gives_free_def)
    next
      case (Inr x)
      obtain r ar1 k1 where x: "x = (r, ar1, k1)" by (cases x)
      obtain h where h: "ar1 = ar \<lparr> has_map_fixed_noreplace := h \<rparr>" "\<And>p. r = Inr p \<Longrightarrow> p = a"
        using ns(2) [OF Inr [unfolded x]] by blast
      obtain bs where bs: "drop_mapped a n (k_maps K k1) (free_blocks ar1) = Ok bs" "blocks_ok bs"
        "addrs bs \<subseteq> addrs (free_blocks ar)"
        using drop_mapped_ok [of "free_blocks ar" a n "k_maps K k1"] Suc.prems h(1) by (auto simp: arena_ok_def)
      have "arena_ok (ar1 \<lparr> free_blocks := bs \<rparr>)" using Suc.prems bs h(1) by (auto simp: arena_ok_def)
      note ih = Suc.IH [OF this, of k1]
      show ?thesis
      proof (cases r)
        case (Inr p)
        then show ?thesis
          using Some \<open>mmap_fixed_noreplace _ _ _ _ _ _ _ _ _ = _\<close> x h fr a0 pg Suc.prems by (simp add: gives_free_def arena_ok_def)
      next
        case (Inl e)
        have t: "arena_tries K (Suc m) hint n prot flags fd off ar k =
            (if e \<noteq> EEXIST then Ok (Inl e, ar1, k1)
             else arena_tries K m hint n prot flags fd off (ar1 \<lparr> free_blocks := bs \<rparr>) k1)"
          using Some \<open>mmap_fixed_noreplace _ _ _ _ _ _ _ _ _ = _\<close> x bs(1) Inl by simp
        show ?thesis
        proof (cases "e = EEXIST")
          case True
          have "gives_free ar n (arena_tries K m hint n prot flags fd off (ar1 \<lparr> free_blocks := bs \<rparr>) k1)"
            by (rule gives_free_mono [OF ih]) (use bs(3) h(1) in simp_all)
          then show ?thesis unfolding t using True by simp
        next
          case False
          then show ?thesis unfolding t if_P [OF False] using h(1) Suc.prems by (simp add: gives_free_def arena_ok_def)
        qed
      qed
    qed
  qed
qed (simp add: gives_free_def)

lemmas arena_mmap_spec = arena_tries_spec [where m = 16, folded arena_mmap_def]

subsection \<open>The wrappers keep the invariant\<close>

lemma keeps_simps [simp]:
  "keeps (Ok (x, ar, k)) \<longleftrightarrow> arena_ok ar" "keeps (Fault Assert_failed)"
  by (simp_all add: keeps_def)

lemma keeps_bind [intro?]:
  assumes "keeps m" and "\<And>x ar k. m = Ok (x, ar, k) \<Longrightarrow> arena_ok ar \<Longrightarrow> keeps (f (x, ar, k))"
  shows "keeps (bind_result m f)"
  using assms by (cases m) (auto simp: keeps_def)

lemma arena_ok_upd [simp]:
  "arena_ok (ar \<lparr> max_allocated_addr := m \<rparr>) = arena_ok ar" "arena_ok (ar \<lparr> libc_base_addr := b \<rparr>) = arena_ok ar"
  "arena_ok (ar \<lparr> uh_brk := h \<rparr>) = arena_ok ar"
  by (simp_all add: arena_ok_def)

lemma gives_free_keeps: "gives_free ar n x \<Longrightarrow> keeps x"
  by (cases x) (auto simp: gives_free_def keeps_def)

lemma add_mapping_keeps:
  assumes "arena_ok ar" and "p \<noteq> 0" and "\<And>ar'. arena_ok ar' \<Longrightarrow> keeps (f ar')"
  shows "keeps (bind_result (add_mapping p n ar) f)"
  using add_mapping_ok [OF assms(1,2), of n] assms(3) by auto

lemma drop_mapping_keeps:
  assumes "arena_ok ar" and "p \<noteq> 0" and "\<And>ar'. arena_ok ar' \<Longrightarrow> keeps (f ar')"
  shows "keeps (bind_result (drop_mapping p n ar) f)"
  using drop_mapping_ok [OF assms(1,2), of n] assms(3) by auto

lemma kernel_mmap_nonnull:
  "kernel_ok K \<Longrightarrow> k_mmap K a n prot flags fd off k = (Inr p, k') \<Longrightarrow> p \<noteq> 0"
  unfolding kernel_ok_def by (metis fst_conv)

lemma kernel_mremap_nonnull:
  "kernel_ok K \<Longrightarrow> k_mremap K a n m flags b k = (Inr p, k') \<Longrightarrow> a \<noteq> 0 \<and> p \<noteq> 0"
  unfolding kernel_ok_def by (metis fst_conv)

definition nonnull_result :: "((int + nat) \<times> arena \<times> 'k) result \<Rightarrow> bool" where
  "nonnull_result x \<longleftrightarrow> (\<forall>p ar k. x = Ok (Inr p, ar, k) \<longrightarrow> p \<noteq> 0)"

lemma gives_free_nonnull:
  assumes "gives_free ar n x"
  shows "nonnull_result x"
  unfolding nonnull_result_def
proof (intro allI impI)
  fix p ar' k assume "x = Ok (Inr p, ar', k)"
  then show "p \<noteq> 0" using assms by (simp add: gives_free_def)
qed

lemma keeps_bind_nonnull:
  assumes m: "keeps m \<and> nonnull_result m" and "\<And>e ar k. arena_ok ar \<Longrightarrow> keeps (f (Inl e, ar, k))"
    and "\<And>p ar k. arena_ok ar \<Longrightarrow> p \<noteq> 0 \<Longrightarrow> keeps (f (Inr p, ar, k))"
  shows "keeps (bind_result m f)"
proof (rule keeps_bind [OF conjunct1 [OF m]])
  fix r ar k assume "m = Ok (r, ar, k)" "arena_ok ar"
  then show "keeps (f (r, ar, k))" using assms by (cases r) (auto simp: nonnull_result_def)
qed

lemma mmap_blocks_keeps:
  assumes "kernel_ok K" and "arena_ok ar"
  shows "keeps (mmap_blocks K a n prot flags fd off ar k)"
proof -
  have r: "keeps (if c then arena_mmap K a n prot fl fd off ar k
      else (case k_mmap K a n prot fl fd off k of (r, k) \<Rightarrow> Ok (r, ar, k))) \<and>
    nonnull_result (if c then arena_mmap K a n prot fl fd off ar k
      else (case k_mmap K a n prot fl fd off k of (r, k) \<Rightarrow> Ok (r, ar, k)))" for c fl
  proof (cases c)
    case True
    have "gives_free ar n (arena_mmap K a n prot fl fd off ar k)" by (rule arena_mmap_spec [OF assms])
    from gives_free_keeps [OF this] gives_free_nonnull [OF this] True show ?thesis by simp
  next
    case False
    obtain q k1 where "k_mmap K a n prot fl fd off k = (q, k1)" by (cases "k_mmap K a n prot fl fd off k")
    then show ?thesis
      using False assms(2) kernel_mmap_nonnull [OF assms(1)] by (auto simp: nonnull_result_def)
  qed
  show ?thesis
    unfolding mmap_blocks_def Let_def
    by (rule keeps_bind_nonnull [OF r]) (auto intro!: add_mapping_keeps)
qed

lemma patchSbrk_keeps:
  assumes "kernel_ok K" and "arena_ok ar"
  shows "keeps (patchSbrk K text n ar k)"
  unfolding patchSbrk_def
  by (rule keeps_bind [OF mmap_blocks_keeps [OF assms]]) (auto split: sum.split prod.split bool.split)

lemma patch_mapping_keeps:
  assumes "kernel_ok K" and "arena_ok ar"
  shows "keeps (patch_mapping K p n prot fd ar k)"
proof -
  have *: "keeps (bind_result (if b then patchSbrk K p n ar1 k1 else Ok ((), ar1, k1))
      (\<lambda>(_, ar, k). case k_mprotect K p n prot k of
         (False, k) \<Rightarrow> Ok (Inr 0, ar, k) | (True, k) \<Rightarrow> Ok (Inr p, ar \<lparr> libc_base_addr := 0 \<rparr>, k)))"
    if "arena_ok ar1" for b ar1 k1
    by (rule keeps_bind) (use that patchSbrk_keeps [OF assms(1) that] in \<open>auto split: prod.split bool.split\<close>)
  define ar1 where "ar1 = (if libc_base_addr ar = 0 then ar \<lparr> libc_base_addr := p \<rparr> else ar)"
  have ok: "arena_ok ar1" using assms(2) by (simp add: ar1_def)
  obtain b k1 where m: "k_mprotect K p n (prot OR PROT_WRITE) k = (b, k1)"
    by (cases "k_mprotect K p n (prot OR PROT_WRITE) k")
  show ?thesis unfolding patch_mapping_def Let_def ar1_def [symmetric] m
    using ok * [OF ok, of True k1] * [OF ok, of False k1] by (cases b) auto
qed

lemma mmap_wrapper_keeps:
  assumes "kernel_ok K" and "arena_ok ar"
  shows "keeps (mmap_wrapper K a n prot flags fd off ar k)"
  unfolding mmap_wrapper_def Let_def
  by (rule keeps_bind [OF mmap_blocks_keeps [OF assms]])
    (auto split: sum.split simp: patch_mapping_keeps [OF assms(1)])

lemma munmap_wrapper_keeps:
  assumes "arena_ok ar"
  shows "keeps (munmap_wrapper K a n ar k)"
proof (cases "k_munmap K a (ROUND_UP n PAGE_SIZE) k")
  case (Pair b k1)
  then show ?thesis
    using assms by (cases b) (auto simp: munmap_wrapper_def intro!: drop_mapping_keeps)
qed

lemma fixed_flag: "(x OR 0x10) AND (0x10 OR 0x100000) \<noteq> (0::int)"
proof
  assume "(x OR 0x10) AND (0x10 OR 0x100000) = (0::int)"
  then have "\<not> bit ((x OR 0x10) AND (0x10 OR 0x100000)) 4" by simp
  moreover have "bit (0x10::int) 4" by (simp add: bit_iff_odd)
  ultimately show False by (simp add: bit_simps)
qed

lemma restore_mmap_keeps:
  assumes "kernel_ok K" and "arena_ok ar"
  shows "keeps (restore_mmap K a n prot flags fd off ar k)"
proof (cases "k_mmap K a (ROUND_UP n PAGE_SIZE) prot (flags OR MAP_FIXED) fd off k")
  case (Pair r k1)
  have a: "a \<noteq> 0" if "r = Inr p" for p
  proof -
    have "fst (k_mmap K a (ROUND_UP n PAGE_SIZE) prot (flags OR MAP_FIXED) fd off k) = Inr p" using Pair that by simp
    then show ?thesis using assms(1) fixed_flag [of flags] unfolding kernel_ok_def by blast
  qed
  then show ?thesis
    using assms(2) Pair by (cases r) (auto simp: restore_mmap_def Let_def intro!: add_mapping_keeps)
qed

text \<open>The result of \<^verbatim>\<open>mremap\<close>: not null, and the old address is not null either.\<close>

definition remapped :: "nat \<Rightarrow> ((int + nat) \<times> arena \<times> 'k) result \<Rightarrow> bool" where
  "remapped old x \<longleftrightarrow> keeps x \<and> (\<forall>p ar k. x = Ok (Inr p, ar, k) \<longrightarrow> old \<noteq> 0 \<and> p \<noteq> 0)"

lemma remapped_kernel:
  assumes "kernel_ok K" and "arena_ok ar"
  shows "remapped old (case k_mremap K old n m flags b k of (r, k) \<Rightarrow> Ok (r, ar, k))"
  using assms(2) kernel_mremap_nonnull [OF assms(1)] by (auto simp: remapped_def split: prod.split)

lemma remapped_bind:
  assumes "keeps m" and "\<And>r ar k. m = Ok (r, ar, k) \<Longrightarrow> arena_ok ar \<Longrightarrow> remapped old (f (r, ar, k))"
  shows "remapped old (bind_result m f)"
  using assms by (cases m) (auto simp: remapped_def keeps_def)

lemma remap_moving_ok:
  assumes "kernel_ok K" and "arena_ok ar"
  shows "remapped old (remap_moving K old n m flags ar k)"
  unfolding remap_moving_def
proof (rule remapped_bind [OF gives_free_keeps [OF arena_mmap_spec [OF assms]]])
  fix r ar1 k1 assume ok: "arena_ok ar1"
  show "remapped old (case (r, ar1, k1) of (r, ar, k) \<Rightarrow> case r of
      Inl e \<Rightarrow> Ok (Inl e, ar, k)
    | Inr dest \<Rightarrow> (case k_mremap K old n m (MREMAP_MAYMOVE OR MREMAP_FIXED OR (flags AND MREMAP_DONTUNMAP)) dest k of
        (Inr p, k) \<Rightarrow> Ok (Inr p, ar, k)
      | (Inl e, k) \<Rightarrow> (case k_munmap K dest m k of (_, k) \<Rightarrow> Ok (Inl e, ar, k))))"
  proof (cases r)
    case (Inr dest)
    obtain q k2 where q: "k_mremap K old n m (MREMAP_MAYMOVE OR MREMAP_FIXED OR (flags AND MREMAP_DONTUNMAP)) dest k1 = (q, k2)"
      by (cases "k_mremap K old n m (MREMAP_MAYMOVE OR MREMAP_FIXED OR (flags AND MREMAP_DONTUNMAP)) dest k1")
    show ?thesis
      using Inr q ok kernel_mremap_nonnull [OF assms(1)]
      by (cases q; cases "k_munmap K dest m k2") (auto simp: remapped_def)
  qed (simp add: remapped_def ok)
qed

lemma remap_ok:
  assumes "kernel_ok K" and "arena_ok ar"
  shows "remapped old (remap K old n m flags b ar k)"
proof -
  have p: "remapped old (remap_in_place K old n m flags ar k)"
    using remapped_kernel [OF assms] assms(2) by (auto simp: remap_in_place_def remapped_def)
  have "remapped old (bind_result (remap_in_place K old n m flags ar k) (\<lambda>(r, ar, k).
      case r of Inr p \<Rightarrow> Ok (Inr p, ar, k)
      | Inl e \<Rightarrow> if c then remap_moving K old n m flags ar k else Ok (Inl e, ar, k)))" for c
  proof (rule remapped_bind)
    fix r ar1 k1 assume eq: "remap_in_place K old n m flags ar k = Ok (r, ar1, k1)" and ok: "arena_ok ar1"
    show "remapped old (case (r, ar1, k1) of (r, ar, k) \<Rightarrow> case r of Inr p \<Rightarrow> Ok (Inr p, ar, k)
      | Inl e \<Rightarrow> if c then remap_moving K old n m flags ar k else Ok (Inl e, ar, k))"
      using p eq ok remap_moving_ok [OF assms(1) ok, of old n m flags k1] by (cases r) (auto simp: remapped_def)
  qed (use p in \<open>simp add: remapped_def\<close>)
  then show ?thesis unfolding remap_def Let_def using remapped_kernel [OF assms] by simp
qed

lemma mremap_wrapper_keeps:
  assumes "kernel_ok K" and "arena_ok ar"
  shows "keeps (mremap_wrapper K old n m flags b ar k)"
proof -
  have r: "remapped old (remap K old (ROUND_UP n PAGE_SIZE) (ROUND_UP m PAGE_SIZE) flags b ar k)" by (rule remap_ok [OF assms])
  show ?thesis unfolding mremap_wrapper_def Let_def
  proof (rule keeps_bind)
    fix q ar1 k1
    assume eq: "remap K old (ROUND_UP n PAGE_SIZE) (ROUND_UP m PAGE_SIZE) flags b ar k = Ok (q, ar1, k1)" and ok: "arena_ok ar1"
    show "keeps (case (q, ar1, k1) of (r, ar, k) \<Rightarrow> case r of
        Inl e \<Rightarrow> Ok (Inl e, ar, k)
      | Inr p \<Rightarrow> bind_result (if flags AND MREMAP_DONTUNMAP = 0 then drop_mapping old (ROUND_UP n PAGE_SIZE) ar else Ok ar)
          (\<lambda>ar. bind_result (add_mapping p (ROUND_UP m PAGE_SIZE) ar) (\<lambda>ar.
             Ok (Inr p, ar \<lparr> max_allocated_addr := (if p + ROUND_UP m PAGE_SIZE > max_allocated_addr ar
               then p + ROUND_UP m PAGE_SIZE else max_allocated_addr ar) \<rparr>, k))))"
    proof (cases q)
      case (Inr p)
      then have "old \<noteq> 0" "p \<noteq> 0" using r eq by (auto simp: remapped_def)
      then show ?thesis using Inr ok by (auto intro!: drop_mapping_keeps add_mapping_keeps)
    qed (simp add: ok)
  qed (use r in \<open>simp add: remapped_def\<close>)
qed

section \<open>Properties\<close>

text \<open>The calls of the upper half, one after the other (\<^verbatim>\<open>lock_wrappers\<close> makes each of them atomic), and those of
  the restart.\<close>

datatype mem_call =
    Mmap nat nat int int int int
  | Munmap nat nat
  | Mremap nat nat nat int nat
  | Restore nat nat int int int int

fun mem_step :: "'k kernel \<Rightarrow> mem_call \<Rightarrow> arena \<Rightarrow> 'k \<Rightarrow> (arena \<times> 'k) result" where
  "mem_step K (Mmap a n prot flags fd off) ar k =
     bind_result (mmap_wrapper K a n prot flags fd off ar k) (\<lambda>(_, ar, k). Ok (ar, k))"
| "mem_step K (Munmap a n) ar k = bind_result (munmap_wrapper K a n ar k) (\<lambda>(_, ar, k). Ok (ar, k))"
| "mem_step K (Mremap a n m flags b) ar k =
     bind_result (mremap_wrapper K a n m flags b ar k) (\<lambda>(_, ar, k). Ok (ar, k))"
| "mem_step K (Restore a n prot flags fd off) ar k =
     bind_result (restore_mmap K a n prot flags fd off ar k) (\<lambda>(_, ar, k). Ok (ar, k))"

fun mem_run :: "'k kernel \<Rightarrow> mem_call list \<Rightarrow> arena \<Rightarrow> 'k \<Rightarrow> (arena \<times> 'k) result" where
  "mem_run K [] ar k = Ok (ar, k)"
| "mem_run K (c # cs) ar k = bind_result (mem_step K c ar k) (\<lambda>(ar, k). mem_run K cs ar k)"

lemma keeps_drop_result:
  "keeps m \<Longrightarrow> bind_result m (\<lambda>(_, ar, k). Ok (ar, k)) \<noteq> Fault Spin \<and>
    (\<forall>ar k. bind_result m (\<lambda>(_, ar, k). Ok (ar, k)) = Ok (ar, k) \<longrightarrow> arena_ok ar)"
  by (cases m) (auto simp: keeps_def)

lemma mem_step_keeps:
  assumes "kernel_ok K" and "arena_ok ar"
  shows "mem_step K c ar k \<noteq> Fault Spin \<and> (\<forall>ar' k'. mem_step K c ar k = Ok (ar', k') \<longrightarrow> arena_ok ar')"
  by (cases c; simp only: mem_step.simps; intro keeps_drop_result)
    (rule mmap_wrapper_keeps [OF assms] munmap_wrapper_keeps [OF assms(2)] mremap_wrapper_keeps [OF assms]
      restore_mmap_keeps [OF assms])+

text \<open>A kernel that keeps the addresses of its mappings.\<close>

definition sample_kernel :: "nat list kernel" where
  "sample_kernel = \<lparr>
     k_mmap = (\<lambda>a n prot flags fd off k.
       if flags AND MAP_FIXED_NOREPLACE \<noteq> 0 \<and> a \<in> set k then (Inl EEXIST, k)
       else if a = 0 then (if flags AND (MAP_FIXED OR MAP_FIXED_NOREPLACE) \<noteq> 0 then (Inl EINVAL, k) else (Inr 0x7000, 0x7000 # k))
       else (Inr a, a # k)),
     k_munmap = (\<lambda>a n k. (True, remove1 a k)),
     k_mremap = (\<lambda>a n m flags b k. if a = 0 then (Inl EINVAL, k) else (Inr a, k)),
     k_mprotect = (\<lambda>a n prot k. (True, k)), k_madvise = (\<lambda>a n k. (True, k)), k_brk = (\<lambda>k. 0), k_maps = (\<lambda>k. []),
     k_is_libc = (\<lambda>fd. False), k_libc_symbols = (\<lambda>fd. True), k_sbrk_offset = (\<lambda>fd. 0) \<rparr>"

lemma sample_kernel_ok: "kernel_ok sample_kernel"
  by (auto simp: kernel_ok_def sample_kernel_def split: if_splits)

definition sample_arena :: arena where
  "sample_arena = \<lparr> allocated_blocks = [mk_block 0x1000 0x1000], free_blocks = [mk_block 0x2000 0x10000],
     max_allocated_addr = 0x2000, arena_base = 0x1000, libc_base_addr = 0, uh_brk = None,
     has_map_fixed_noreplace = Some True \<rparr>"

lemma sample_arena_ok: "arena_ok sample_arena"
  by (auto simp: arena_ok_def sample_arena_def blocks_ok_def range_of_block_def)

text \<open>C16. Through every sequence of \<^verbatim>\<open>mmap\<close>, \<^verbatim>\<open>munmap\<close> and \<^verbatim>\<open>mremap\<close> calls of the upper half and of restored
  mappings, whatever the kernel answers, the allocated and the free list stay sorted lists of disjoint blocks,
  no address is in both, and the loop detection of \<^verbatim>\<open>remove_overlap_blocks\<close> never stops the process.\<close>

theorem mem_run_keeps_lists_disjoint:
  assumes "kernel_ok K" and "arena_ok ar"
  shows "mem_run K cs ar k \<noteq> Fault Spin \<and>
    (\<forall>ar' k'. mem_run K cs ar k = Ok (ar', k') \<longrightarrow> arena_ok ar')"
  using assms(2)
proof (induction cs arbitrary: ar k)
  case (Cons c cs)
  show ?case
  proof (cases "mem_step K c ar k")
    case (Inl e)
    then show ?thesis using mem_step_keeps [OF assms(1) Cons.prems, of c k] by simp
  next
    case (Inr x)
    obtain ar1 k1 where x: "x = (ar1, k1)" by (cases x)
    then have "arena_ok ar1" using mem_step_keeps [OF assms(1) Cons.prems, of c k] Inr by blast
    then show ?thesis using Cons.IH Inr x by simp
  qed
qed simp

theorem mem_run_keeps_lists_disjoint_witness:
  "arena_ok sample_arena \<and> mem_run sample_kernel [Munmap 0x1000 0x1000] sample_arena [] \<noteq> Fault Spin \<and>
   (\<exists>ar k. mem_run sample_kernel [Munmap 0x1000 0x1000] sample_arena [] = Ok (ar, k) \<and> arena_ok ar)"
proof -
  have "\<exists>ar k. mem_run sample_kernel [Munmap 0x1000 0x1000] sample_arena [] = Ok (ar, k)"
    by (simp add: munmap_wrapper_def sample_kernel_def Let_def drop_mapping_def sample_arena_def
        remove_overlap_blocks_def ROUND_UP_def pieces_def)
  then show ?thesis
    using mem_run_keeps_lists_disjoint [OF sample_kernel_ok sample_arena_ok, of "[Munmap 0x1000 0x1000]" "[]"]
      sample_arena_ok by blast
qed

text \<open>C17. The arena never places a mapping over an allocated one: the range that \<^verbatim>\<open>arena_mmap\<close> returns is page
  aligned, was free before the call, and has no address in common with the allocated blocks; the call does not
  change the allocated list.\<close>

theorem arena_never_overlaps:
  assumes "kernel_ok K" and "arena_ok ar" and "arena_mmap K hint n prot flags fd off ar k = Ok (Inr p, ar', k')"
  shows "p \<noteq> 0 \<and> p mod 4096 = 0 \<and> {p..<p + n} \<subseteq> addrs (free_blocks ar) \<and>
    {p..<p + n} \<inter> addrs (allocated_blocks ar) = {} \<and> allocated_blocks ar' = allocated_blocks ar"
proof -
  have g: "gives_free ar n (arena_mmap K hint n prot flags fd off ar k)" by (rule arena_mmap_spec [OF assms(1,2)])
  have "p \<noteq> 0" "p mod 4096 = 0" "{p..<p + n} \<subseteq> addrs (free_blocks ar')"
    "addrs (free_blocks ar') \<subseteq> addrs (free_blocks ar)" "allocated_blocks ar' = allocated_blocks ar"
    using g assms(3) by (auto simp: gives_free_def)
  moreover have "addrs (allocated_blocks ar) \<inter> addrs (free_blocks ar) = {}" using assms(2) by (simp add: arena_ok_def)
  ultimately show ?thesis by blast
qed

theorem arena_never_overlaps_witness:
  "\<exists>ar' k'. arena_mmap sample_kernel 0 0x1000 3 0x32 (-1) 0 sample_arena [] = Ok (Inr 0x2000, ar', k') \<and>
     {0x2000..<0x2000 + 0x1000} \<inter> addrs (allocated_blocks sample_arena) = {}"
proof -
  have n: "next_free_addr 0 0x1000 [mk_block 0x2000 0x10000] = Some 0x2000"
    by (simp add: next_free_addr_def align_mask_def fits_def ROUND_UP_def Let_def)
  have "\<exists>ar' k'. arena_mmap sample_kernel 0 0x1000 3 0x32 (-1) 0 sample_arena [] = Ok (Inr 0x2000, ar', k')"
    unfolding arena_mmap_def numeral_eq_Suc pred_numeral_simps arena_tries.simps
    by (simp add: sample_arena_def n [simplified] mmap_fixed_noreplace_def map_noreplace_def sample_kernel_def Let_def)
  then show ?thesis using arena_never_overlaps [OF sample_kernel_ok sample_arena_ok] by blast
qed



end
