(* ===== verification/Message_Buffer.thy ===== *)
theory Message_Buffer
  imports Frames Datatype_Refs
begin

text \<open>
  Properties of the point-to-point wrappers: the buffer of drained messages gives messages in order, a completed receive
  is counted once, \<^verbatim>\<open>MPI_Wait\<close> returns when the library completes the request, and how much of a buffered message a
  receive gets.
\<close>

section \<open>The buffer gives the oldest matching message\<close>

lemma remove_first_split:
  "find P xs = Some x \<Longrightarrow>
     \<exists>pre post. xs = pre @ x # post \<and> remove_first P xs = pre @ post \<and> P x \<and> (\<forall>y\<in>set pre. \<not> P y)"
proof (induction xs)
  case (Cons y ys)
  show ?case
  proof (cases "P y")
    case True
    then show ?thesis using Cons.prems by (intro exI [of _ "[]"] exI [of _ ys]) (simp add: remove_first_def)
  next
    case False
    then obtain pre post where "ys = pre @ x # post" "remove_first P ys = pre @ post" "P x" "\<forall>y\<in>set pre. \<not> P y"
      using Cons by auto
    then show ?thesis using False by (intro exI [of _ "y # pre"] exI [of _ post]) (simp add: remove_first_def)
  qed
qed simp

text \<open>C24. A receive that the buffer serves gets the oldest message that matches its source, tag and communicator; the
  other messages stay in their order, so messages between two ranks do not overtake each other.\<close>

theorem buffer_serves_oldest:
  assumes "take_buffered env buf n type source tag comm s = Ok (st, t)"
  shows "\<exists>pre m post. message_queue s = pre @ m # post \<and> message_queue t = pre @ post \<and> st = m_status m \<and>
    msg_matches env source tag comm m \<and> (\<forall>x\<in>set pre. \<not> msg_matches env source tag comm x)"
proof -
  obtain rc outs u where u: "PMPI_Type_size env type s = Ok ((rc, outs), u)"
    "consumeMatchingMsgBuffer env buf n type source tag comm (int_mult (the_int outs 0) n) u = Ok (st, t)"
    using assms by (auto simp: take_buffered_def andthen_Ok)
  have "same message_queue (PMPI_Type_size env type)"
    unfolding PMPI_Type_size_def by (intro frame_intros)
  then have q: "message_queue u = message_queue s" using u(1) by (rule sameD)
  let ?P = "msg_matches env source tag comm"
  obtain m where m: "find ?P (message_queue s) = Some m"
    using u(2) by (auto simp: consumeMatchingMsgBuffer_def q split: option.splits)
  let ?unpack = "let elements = unpacked_elements n (int_mult (the_int outs 0) n) (m_size m)
    in when_act (elements > 0) (unpack_message env buf type elements m)"
  let ?ack = "when_act (ack_to m \<ge> 0) (sendSsendAck env (ack_to m) (ack_tag m))"
  obtain a v b where v: "?unpack u = Ok (a, v)"
    "?ack (v \<lparr> message_queue := remove_first ?P (message_queue v) \<rparr>) = Ok (b, t)" "st = m_status m"
    using u(2) by (auto simp: consumeMatchingMsgBuffer_def q m andthen_Ok)
  have "same message_queue ?unpack" "same message_queue ?ack" by (intro frame_intros)+
  then have "message_queue v = message_queue s" "message_queue t = remove_first ?P (message_queue v)"
    using v(1,2) q by (auto dest: sameD)
  then show ?thesis
    using remove_first_split [OF m] v(3) by metis
qed

definition sample_message :: "int \<Rightarrow> mpi_message" where
  "sample_message src = \<lparr> m_buf = 1, m_count = 0, m_datatype = 4, m_size = 0, m_comm = 0x10000000,
     m_status = \<lparr> st_source = src, st_tag = 5, st_error = 0, st_count = 0 \<rparr>, ack_to = -1, ack_tag = 0 \<rparr>"

theorem buffer_serves_oldest_witness:
  "\<exists>t. take_buffered sample_env 9 3 0x10000000 2 5 0x10000000
       ((sample_process [sample_comm]) \<lparr> message_queue := [sample_message 1, sample_message 2] \<rparr>)
     = Ok (m_status (sample_message 2), t) \<and> message_queue t = [sample_message 1]"
proof -
  let ?s = "(sample_process [sample_comm]) \<lparr> message_queue := [sample_message 1, sample_message 2] \<rparr>"
  have "\<exists>t. take_buffered sample_env 9 3 0x10000000 2 5 0x10000000 ?s = Ok (m_status (sample_message 2), t)"
    by (simp add: take_buffered_def PMPI_Type_size_def consumeMatchingMsgBuffer_def act_simps real_of_def lift_def
        next_func_def msg_matches_def sample_message_def unpacked_elements_def int_mult_def when_act_def andthen_def
        ret_def modify_def LOWER_HALF_DISABLE_CKPT_def LOWER_HALF_ENABLE_CKPT_def)
  then obtain t where t: "take_buffered sample_env 9 3 0x10000000 2 5 0x10000000 ?s = Ok (m_status (sample_message 2), t)" ..
  obtain pre m post where p: "[sample_message 1, sample_message 2] = pre @ m # post" "message_queue t = pre @ post"
    "msg_matches sample_env 2 5 0x10000000 m"
    using buffer_serves_oldest [OF t] by auto
  have "\<not> msg_matches sample_env 2 5 0x10000000 (sample_message 1)" by (simp add: msg_matches_def sample_message_def)
  then have "m = sample_message 2" "pre = [sample_message 1]" "post = []"
    using p(1,3) by (auto simp: Cons_eq_append_conv)
  then show ?thesis using t p(2) by simp
qed

section \<open>Waiting\<close>

lemma free_virt_id_clears:
  assumes "free_virt_id w v t = Ok t'"
  shows "\<exists>j. lookup_virt_id_entry w t v = Some j \<and> virt (slot_entry t' j) = 0"
proof (cases "lookup_virt_id_entry w t v")
  case None
  then show ?thesis using assms by (simp add: free_virt_id_def)
next
  case (Some j)
  define e' where "e' = (slot_entry t j) \<lparr> gen := gen (slot_entry t j) + 1, virt := 0, desc := NoDesc, next_free := virt_id_free_head t \<rparr>"
  define u where "u = free_desc (desc (slot_entry t j)) (handle_kind (ucast v)) t"
  have "virt_id_chunks t' = virt_id_chunks (set_entry j e' u)"
    using assms by (auto simp: free_virt_id_def Some Let_def e'_def [symmetric] u_def [symmetric] split: if_splits)
  then have "slot_entry t' j = slot_entry (set_entry j e' u) j" by (rule slot_entry_cong [THEN fun_cong])
  moreover have "slot_entry u = slot_entry t" unfolding u_def by (rule slot_entry_cong) (rule free_desc_chunks)
  moreover have "has_chunk t j"
    using Some by (subst (asm) lookup_any) (auto simp: lookup_handle_iff split: if_splits)
  then have "has_chunk u j" by (simp add: u_def has_chunk_def free_desc_chunks)
  ultimately show ?thesis using Some by (auto simp: set_entry_slot e'_def)
qed

lemma free_virt_freed:
  assumes "free_virt env r s = Ok (a, t)"
  shows "lookup env t r = None"
proof -
  obtain v where v: "free_virt_id (wide_handles env) r (vtab s) = Ok v" "t = s \<lparr> vtab := v \<rparr>"
    using assms by (auto simp: free_virt_def change_table_def on_table_def bind_result_Ok_iff)
  then obtain j where j: "lookup_virt_id_entry (wide_handles env) (vtab s) r = Some j" "virt (slot_entry v j) = 0"
    using free_virt_id_clears by blast
  obtain h where h: "key env r = Some h" "lookup_virt_id_entry (wide_handles env) (vtab s) (ucast h) = Some j"
    using j(1) unfolding key_lookup [of env "vtab s" r] by (auto split: option.splits)
  have "lookup_virt_id_entry (wide_handles env) v (ucast h) = None"
  proof (rule ccontr)
    assume "lookup_virt_id_entry (wide_handles env) v (ucast h) \<noteq> None"
    then obtain i where i: "lookup_virt_id_entry (wide_handles env) v (ucast h) = Some i" by blast
    then have "i = j" using h(2) unfolding lookup_handle_iff by simp
    then show False using i j(2) unfolding lookup_handle_iff by auto
  qed
  then show ?thesis unfolding lookup_def v(2) by (simp add: key_lookup [of env v r] h(1))
qed

lemma Test_only_low:
  assumes "MPI_Test_internal env r flag b s = Ok (a, t)"
  obtains l where "t = s \<lparr> low := l \<rparr>"
proof -
  have "same (\<lambda>s :: 'a proc. s \<lparr> low := l \<rparr>) (next_func env g args)" for l g args
    by (auto simp: same_def next_func_def split: prod.splits)
  then have "same (\<lambda>s :: 'a proc. s \<lparr> low := l \<rparr>) (MPI_Test_internal env r flag b)" for l
    unfolding MPI_Test_internal_def by (intro frame_intros)
  from sameD [OF this assms] have "t \<lparr> low := low t \<rparr> = s \<lparr> low := low t \<rparr>" .
  then show ?thesis by (intro that [of "low t"]) simp
qed

lemma counted_fields [simp]:
  "is_counted_irecv env r (s \<lparr> low := l \<rparr>) = is_counted_irecv env r s"
  "is_counted_irecv env r (s \<lparr> depth := n \<rparr>) = is_counted_irecv env r s"
  by (simp_all add: is_counted_irecv_def getPendingCall_def lookup_def)

lemma finish_request_freed: "finish_request env r s = Ok (a, t) \<Longrightarrow> lookup env t r = None"
  by (auto simp: finish_request_def andthen_Ok dest: free_virt_freed)

text \<open>A pass of the wait: nothing but the library changes, or the request is done.\<close>

lemma wait_pass_cases:
  assumes "wait_pass env r s = Ok ((rv, flag, st), t)" and "r \<noteq> MPI_REQUEST_NULL env"
  shows "if flag = 0 then \<exists>l. t = s \<lparr> low := l \<rparr>
    else local_recv t = local_recv s + of_bool (is_counted_irecv env r s) \<and> lookup env t r = None"
proof -
  obtain u where u: "MPI_Test_internal env r 0 False (s \<lparr> depth := depth s + 1 \<rparr>) = Ok ((rv, flag, st), u)"
    "andthen (count_if_irecv env flag r) (\<lambda>_. andthen (when_act (flag \<noteq> 0) (finish_request env r)) (\<lambda>_.
       andthen LOWER_HALF_ENABLE_CKPT (\<lambda>_. ret (rv, flag, st)))) u = Ok ((rv, flag, st), t)"
    using assms(1) by (auto simp: wait_pass_def andthen_Ok)
  obtain l where l: "u = s \<lparr> depth := depth s + 1, low := l \<rparr>"
    by (rule Test_only_low [OF u(1)])
  show ?thesis
  proof (cases "flag = 0")
    case True
    then have "t = s \<lparr> low := l \<rparr>"
      using u(2) by (auto simp: count_if_irecv_def when_act_def andthen_Ok l)
    then show ?thesis using True by auto
  next
    case False
    define v where "v = (if is_counted_irecv env r s then u \<lparr> local_recv := local_recv u + 1 \<rparr> else u)"
    obtain w where w: "finish_request env r v = Ok ((), w)" "t = w \<lparr> depth := depth w - 1 \<rparr>"
      using u(2) False assms(2)
      by (auto simp: count_if_irecv_def when_act_def andthen_Ok count_received_message_def v_def l split: if_splits)
    have "local_recv w = local_recv v" by (rule sameD [OF received.finish_request_same w(1)])
    moreover have "lookup env w r = None" by (rule finish_request_freed [OF w(1)])
    ultimately show ?thesis using False by (simp add: w(2) v_def l lookup_def)
  qed
qed

lemma wait_loop_counts:
  "wait_loop env r s = Some x \<Longrightarrow> r \<noteq> MPI_REQUEST_NULL env \<longrightarrow> (\<forall>a t. x = Ok (a, t) \<longrightarrow>
     local_recv t = local_recv s + of_bool (is_counted_irecv env r s) \<and> lookup env t r = None)"
proof (induction rule: wait_loop.raw_induct [rotated, consumes 1, case_names step])
  case (step rec env r s x)
  show ?case
  proof (intro impI allI)
    fix a t assume r: "r \<noteq> MPI_REQUEST_NULL env" and x: "x = Ok (a, t)"
    obtain rv flag st u where u: "wait_pass env r s = Ok ((rv, flag, st), u)"
      using step(2) x by (cases "wait_pass env r s") auto
    note c = wait_pass_cases [OF u r]
    show "local_recv t = local_recv s + of_bool (is_counted_irecv env r s) \<and> lookup env t r = None"
    proof (cases "flag = 0")
      case True
      then obtain l where "u = s \<lparr> low := l \<rparr>" using c by auto
      moreover have "rec env r u = Some x" using step(2) u True by simp
      ultimately show ?thesis using step(1) [of env r u x] r x by simp
    next
      case False
      then show ?thesis using c step(2) u x by simp
    qed
  qed
qed

text \<open>C25. When \<^verbatim>\<open>MPI_Wait\<close> returns, it has counted the message of a receive once (and nothing for a send, for a receive from
  \<^verbatim>\<open>MPI_PROC_NULL\<close> or for a receive that the drain completed), the request is freed, and the application's handle is null.\<close>

theorem wait_counts_once:
  assumes "r \<noteq> MPI_REQUEST_NULL env" and "PMPI_Wait env r s = Ok ((rv, st, r'), t)"
  shows "r' = MPI_REQUEST_NULL env \<and> lookup env t r = None \<and>
    local_recv t = local_recv s + of_bool (is_counted_irecv env r s)"
proof -
  have "wait_loop env r s = Some (Ok ((rv, st), t))" "r' = MPI_REQUEST_NULL env"
    using assms by (auto simp: PMPI_Wait_def andthen_Ok split: option.splits)
  then show ?thesis using wait_loop_counts assms(1) by blast
qed

definition done_env :: "nat env" where
  "done_env = sample_env \<lparr> lib := (\<lambda>f args n. ((0, [VInt (if n < 2 then 0 else 1), VStatus zero_status]), n + 1)) \<rparr>"

lemma done_env_sel [simp]:
  "wide_handles done_env = True" "upper_const done_env c = of_nat (length c)"
  "lower_const done_env c = 0x100 + of_nat (length c)" "int_const done_env c = - int (length c)"
  "lib done_env f args n = ((0, [VInt (if n < 2 then 0 else 1), VStatus zero_status]), n + 1)"
  by (simp_all add: done_env_def)

text \<open>A process with one pending receive.\<close>

definition sample_request :: virt_id_entry where
  "sample_request = zero_entry \<lparr> real_id := 0x98000001, virt := 0x50000000, seq := 1,
     call := zero_call \<lparr> req_type := IRECV_REQUEST, remote_node := 1 \<rparr> \<rparr>"

definition one_recv :: "nat proc" where
  "one_recv = (sample_process [sample_request]) \<lparr> pending_head := Some 0, pending_tail := Some 0 \<rparr>"

lemma one_recv_sel [simp]:
  "ctab one_recv = no_constants" "vtab one_recv = sample_table [sample_request]" "low one_recv = 0" "depth one_recv = 0"
  "local_recv one_recv = 0" "freed_types one_recv = []" "pending_head one_recv = Some 0" "pending_tail one_recv = Some 0"
  by (simp_all add: one_recv_def sample_process_def)

lemma sample_request_lookup [simp]:
  "lookup_virt_id_entry True (sample_table (sample_request # es)) 0x50000000 = Some 0"
  by (simp add: lookup_virt_id_entry_def sample_table_def chunk_of_def sample_request_def)

lemma sample_request_real [simp]:
  "get_real_id True c (sample_table (sample_request # es)) 0x50000000 = Ok 0x98000001"
  by (simp add: get_real_id_def sample_request_def [THEN arg_cong, of real_id])

section \<open>The wait ends\<close>

definition poll :: "'l env \<Rightarrow> mana_mpi_handle \<Rightarrow> 'l \<Rightarrow> 'l" where
  "poll env real l = snd (lib env ''Test'' [VHandle real] l)"

definition poll_flag :: "'l env \<Rightarrow> mana_mpi_handle \<Rightarrow> 'l \<Rightarrow> int" where
  "poll_flag env real l = out_int 0 (snd (fst (lib env ''Test'' [VHandle real] l))) 0"

lemma wait_pass_polls:
  assumes "get_real_id (wide_handles env) (ctab s) (vtab s) r = Ok real" and "wait_pass env r s = Ok ((rv, 0, st), t)"
  shows "t = s \<lparr> low := poll env real (low s) \<rparr>" and "poll_flag env real (low s) = 0"
proof -
  have "completed_request_status env (s \<lparr> depth := depth s + 1 \<rparr>) r = None \<or> real \<noteq> lower_const env ''REQUEST_NULL''"
    using assms by (auto simp: wait_pass_def MPI_Test_internal_def andthen_Ok real_of_Ok split: option.splits)
  then have "MPI_Test_internal env r 0 False (s \<lparr> depth := depth s + 1 \<rparr>) =
      Ok ((fst (fst (lib env ''Test'' [VHandle real] (low s))), poll_flag env real (low s),
           out_status (snd (fst (lib env ''Test'' [VHandle real] (low s)))) 1),
         s \<lparr> depth := depth s + 1, low := poll env real (low s) \<rparr>)"
    using assms(1)
    by (auto simp: MPI_Test_internal_def andthen_def real_of_def lift_def gets_def ret_def next_func_def poll_def
        poll_flag_def split: prod.splits)
  then show "t = s \<lparr> low := poll env real (low s) \<rparr>" "poll_flag env real (low s) = 0"
    using assms(2) by (auto simp: wait_pass_def andthen_Ok count_if_irecv_def when_act_def)
qed

lemma wait_ends:
  "get_real_id (wide_handles env) (ctab s) (vtab s) r = Ok real \<Longrightarrow>
   poll_flag env real ((poll env real ^^ n) (low s)) \<noteq> 0 \<Longrightarrow> wait_loop env r s \<noteq> None"
proof (induction n arbitrary: s)
  case (0 s)
  then show ?case
    using wait_pass_polls(2) [OF 0(1)] by (subst wait_loop.simps) (auto split: sum.splits prod.splits)
next
  case (Suc n s)
  show ?case
  proof (cases "\<exists>rv st t. wait_pass env r s = Ok ((rv, 0, st), t)")
    case True
    then obtain rv st t where t: "wait_pass env r s = Ok ((rv, 0, st), t)" by blast
    have "t = s \<lparr> low := poll env real (low s) \<rparr>" by (rule wait_pass_polls(1) [OF Suc.prems(1) t])
    then have "wait_loop env r t \<noteq> None" using Suc.IH [of t] Suc.prems by (simp add: funpow_swap1)
    then show ?thesis by (subst wait_loop.simps) (simp add: t)
  next
    case False
    then show ?thesis by (subst wait_loop.simps) (auto split: sum.splits prod.splits)
  qed
qed



lemma done_pass: "\<exists>t. wait_pass done_env 0x50000000 (one_recv \<lparr> low := 2 \<rparr>) = Ok ((0, 1, Some zero_status), t)"
proof -
  have test: "MPI_Test_internal done_env 0x50000000 0 False (one_recv \<lparr> low := 2, depth := 1 \<rparr>) =
      Ok ((0, 1, Some zero_status), one_recv \<lparr> low := 3, depth := 1 \<rparr>)"
    by (simp add: MPI_Test_internal_def andthen_def real_of_def lift_def gets_def ret_def next_func_def out_int_def
        out_status_def)
  have "is_counted_irecv done_env 0x50000000 one_recv"
    by (simp add: is_counted_irecv_def getPendingCall_def lookup_def sample_request_def [THEN arg_cong, of call])
  then have count: "count_if_irecv done_env 1 0x50000000 (one_recv \<lparr> low := 3, depth := 1 \<rparr>) =
      Ok ((), one_recv \<lparr> low := 3, depth := 1, local_recv := 1 \<rparr>)"
    by (simp add: count_if_irecv_def andthen_def gets_def when_act_def count_received_message_def modify_def)
  have "\<exists>t. finish_request done_env 0x50000000 (one_recv \<lparr> low := 3, depth := 1, local_recv := 1 \<rparr>) = Ok ((), t)"
    by (simp add: finish_request_def andthen_def clearPendingRequestFromLog_def modify_def release_freed_datatypes_def
          ret_def unlink_def with_entry_def Let_def sample_request_def [THEN arg_cong, of pending_prev]
          sample_request_def [THEN arg_cong, of pending_next] sample_request_def [THEN arg_cong, of call],
        simp add: zero_entry_def zero_call_def sample_request_def,
        simp add: free_virt_def change_table_def on_table_def free_virt_id_def lookup_virt_id_entry_def set_entry_def
          slot_entry_def sample_table_def chunk_of_def Let_def ret_def free_desc_def)
  then show ?thesis using test count
    by (auto simp: wait_pass_def andthen_def LOWER_HALF_DISABLE_CKPT_def LOWER_HALF_ENABLE_CKPT_def modify_def ret_def when_act_def)
qed

theorem wait_counts_once_witness:
  "\<exists>t. PMPI_Wait done_env 0x50000000 (one_recv \<lparr> low := 2 \<rparr>) = Ok ((0, Some zero_status, MPI_REQUEST_NULL done_env), t) \<and>
     lookup done_env t 0x50000000 = None \<and> local_recv t = 1"
proof -
  obtain t where t: "wait_pass done_env 0x50000000 (one_recv \<lparr> low := 2 \<rparr>) = Ok ((0, 1, Some zero_status), t)"
    using done_pass by blast
  have "PMPI_Wait done_env 0x50000000 (one_recv \<lparr> low := 2 \<rparr>) = Ok ((0, Some zero_status, MPI_REQUEST_NULL done_env), t)"
    by (simp add: PMPI_Wait_def andthen_def ret_def wait_loop.simps [of done_env "0x50000000" "one_recv \<lparr> low := 2 \<rparr>"] t)
  moreover have "is_counted_irecv done_env 0x50000000 one_recv"
    by (simp add: is_counted_irecv_def getPendingCall_def lookup_def sample_request_def [THEN arg_cong, of call])
  ultimately show ?thesis
    using wait_counts_once [of "0x50000000" done_env "one_recv \<lparr> low := 2 \<rparr>"] by simp
qed

section \<open>How much of a buffered message is received\<close>

lemma int_mult_exact: "0 \<le> a * b \<Longrightarrow> a * b < 2 ^ 31 \<Longrightarrow> int_mult a b = a * b"
  unfolding int_mult_def sint_sbintrunc' by (simp add: signed_take_bit_int_eq_self)

text \<open>C27. As long as the size in bytes of the receive is below \<open>2 ^ 31\<close>, a receive of \<open>n\<close> elements that the buffer
  serves gets all the whole elements of the message that fit, and never more than \<open>n\<close>.\<close>

theorem unpacked_elements_exact:
  assumes "0 < n" and "0 < type_bytes" and "type_bytes * n < 2 ^ 31" and "0 \<le> m"
  shows "unpacked_elements n (int_mult type_bytes n) m = min n (m div type_bytes)"
proof -
  have "int_mult type_bytes n = type_bytes * n" by (rule int_mult_exact) (use assms in simp_all)
  moreover have "type_bytes * n sdiv n = type_bytes"
    using assms by (simp add: signed_divide_int_def)
  moreover have "m sdiv type_bytes = m div type_bytes"
    using assms by (cases "m = 0") (simp_all add: signed_divide_int_def)
  ultimately show ?thesis using assms by (simp add: unpacked_elements_def Let_def min_def)
qed

theorem unpacked_elements_exact_witness: "unpacked_elements 4 (int_mult 8 4) 20 = 2"
  using unpacked_elements_exact [of 4 8 20] by simp


end
