(* ===== verification/Spec2Isabelle.thy ===== *)
theory Spec2Isabelle
  imports Drain_Safety Kvdb_Names Drain_Log Drain_Messages Recv_Slot Lower_Half_Gate Mem_Arena Message_Buffer
begin

text \<open>
  A verification development for MANA, a checkpointer of MPI programs.
\<close>

end
